(* ===== verification/Kad_Prelude.thy ===== *)
theory Kad_Prelude
  imports Main "HOL-Library.Word" "HOL-Library.List_Lexorder"
begin

text \<open>
  What the components share.
  \<^item> The types of the model: Go's \<open>byte\<close> is an \<open>8 word\<close>, \<open>[]byte\<close> and \<open>string\<close> are lists
    of bytes (a Go string is a sequence of bytes; a nil slice and an empty one are the same list),
    \<open>uint64\<close> is a \<open>64 word\<close>.
  \<^item> \<open>outcome\<close>: what a Go call that may fail does. It returns a value, returns an \<open>error\<close>, or
    panics; a panic is a value of the model, so that a theorem can say where the code panics.
  \<^item> \<open>split_at\<close>: the pair of statements \<open>x := p[:n]; p = p[n:]\<close>. Go checks \<open>n\<close> of the first
    against the capacity and of the second against the length, so the pair panics exactly
    when \<open>p\<close> has fewer than \<open>n\<close> bytes.
  \<^item> Big-endian integers (\<open>encoding/binary\<close>) and hexadecimal (\<open>encoding/hex\<close>).
  \<^item> Generic locales: \<open>byte_codec\<close> (an encoder and a decoder that undo each other)
    and \<open>invariant_system\<close> (a step relation with an invariant).
\<close>

unbundle bit_operations_syntax

named_theorems go_slice \<open>slicing and splitting byte slices\<close>
named_theorems codec_simps \<open>what a decoder returns on an encoded value\<close>

type_synonym byte = "8 word"
type_synonym bytes = "byte list"
type_synonym u16 = "16 word"
type_synonym u64 = "64 word"

subsection \<open>Results of Go calls\<close>

datatype 'a outcome = Ok 'a | Err string | Panic

fun obind :: "'a outcome \<Rightarrow> ('a \<Rightarrow> 'b outcome) \<Rightarrow> 'b outcome" where
  "obind (Ok x) f = f x"
| "obind (Err e) f = Err e"
| "obind Panic f = Panic"

lemma obind_Ok_iff: "obind m f = Ok y \<longleftrightarrow> (\<exists>x. m = Ok x \<and> f x = Ok y)"
  by (cases m) auto

lemma obind_Err_iff: "obind m f = Err e \<longleftrightarrow> m = Err e \<or> (\<exists>x. m = Ok x \<and> f x = Err e)"
  by (cases m) auto

lemma obind_Panic_iff: "obind m f = Panic \<longleftrightarrow> m = Panic \<or> (\<exists>x. m = Ok x \<and> f x = Panic)"
  by (cases m) auto

lemma obind_cong_Ok: "m = Ok x \<Longrightarrow> obind m f = f x"
  by simp

subsection \<open>Bytes and strings\<close>

definition str :: "string \<Rightarrow> bytes" where
  "str s = map of_char s"

lemma str_append [simp]: "str (s @ t) = str s @ str t"
  by (simp add: str_def)

lemma str_Nil [simp]: "str [] = []"
  by (simp add: str_def)

subsection \<open>Slicing\<close>

definition split_at :: "nat \<Rightarrow> bytes \<Rightarrow> (bytes \<times> bytes) outcome" where
  "split_at n p = (if n \<le> length p then Ok (take n p, drop n p) else Panic)"

lemma split_at_append [go_slice, simp]:
  "length x = n \<Longrightarrow> split_at n (x @ r) = Ok (x, r)"
  by (simp add: split_at_def)

lemma split_at_OkD [go_slice]:
  "split_at n p = Ok (x, r) \<Longrightarrow> p = x @ r \<and> length x = n"
  by (auto simp: split_at_def split: if_splits)

lemma split_at_Ok_iff [go_slice]:
  "split_at n p = Ok (x, r) \<longleftrightarrow> p = x @ r \<and> length x = n"
  by (auto simp: split_at_def split: if_splits)

lemma split_at_not_Err [go_slice, simp]: "split_at n p \<noteq> Err e"
  by (simp add: split_at_def)

lemma split_at_Panic_iff [go_slice]: "split_at n p = Panic \<longleftrightarrow> length p < n"
  by (auto simp: split_at_def)

text \<open>\<open>b := p[0]; p = p[1:]\<close>.\<close>

definition pop_byte :: "bytes \<Rightarrow> (byte \<times> bytes) outcome" where
  "pop_byte p = (case p of [] \<Rightarrow> Panic | b # p' \<Rightarrow> Ok (b, p'))"

lemma pop_byte_Cons [go_slice, simp]: "pop_byte (b # p) = Ok (b, p)"
  by (simp add: pop_byte_def)

lemma pop_byte_Ok_iff [go_slice]: "pop_byte p = Ok (b, r) \<longleftrightarrow> p = b # r"
  by (auto simp: pop_byte_def split: list.splits)

lemma pop_byte_not_Err [go_slice, simp]: "pop_byte p \<noteq> Err e"
  by (simp add: pop_byte_def split: list.split)

text \<open>
  \<open>make([]T, n)\<close> panics when the requested size does not fit the address space: \<open>mem\<close> is the
  largest size in bytes that an allocation may have.
\<close>

definition makeslice :: "nat \<Rightarrow> nat \<Rightarrow> nat \<Rightarrow> unit outcome" where
  "makeslice mem sz n = (if sz * n \<le> mem then Ok () else Panic)"

lemma makeslice_Ok_iff [go_slice]: "makeslice mem sz n = Ok u \<longleftrightarrow> sz * n \<le> mem"
  by (simp add: makeslice_def)

lemma makeslice_not_Err [go_slice, simp]: "makeslice mem sz n \<noteq> Err e"
  by (simp add: makeslice_def)

subsection \<open>Big-endian integers\<close>

fun be_enc :: "nat \<Rightarrow> nat \<Rightarrow> bytes" where
  "be_enc 0 x = []"
| "be_enc (Suc n) x = be_enc n (x div 256) @ [of_nat x]"

fun be_val :: "bytes \<Rightarrow> nat" where
  "be_val [] = 0"
| "be_val (b # bs) = unat b * 256 ^ length bs + be_val bs"

lemma length_be_enc [simp]: "length (be_enc n x) = n"
  by (induction n arbitrary: x) auto

lemma unat_byte_less [simp]: "unat (b :: byte) < 256"
  using unsigned_less [of b, where ?'a = nat] by simp

lemma unat_of_nat_byte: "unat (of_nat x :: byte) = x mod 256"
  by (simp add: unat_of_nat)

lemma be_val_snoc: "be_val (xs @ [b]) = be_val xs * 256 + unat b"
  by (induction xs) (auto simp: algebra_simps)

lemma be_val_less: "be_val bs < 256 ^ length bs"
proof (induction bs)
  case Nil
  then show ?case by simp
next
  case (Cons b bs)
  have "unat b * 256 ^ length bs + be_val bs < unat b * 256 ^ length bs + 256 ^ length bs"
    using Cons by simp
  also have "\<dots> = (unat b + 1) * 256 ^ length bs"
    by (simp add: algebra_simps)
  also have "\<dots> \<le> 256 * 256 ^ length bs"
    using unat_byte_less [of b] by (intro mult_le_mono1) linarith
  finally show ?case by simp
qed

lemma be_val_be_enc: "be_val (be_enc n x) = x mod 256 ^ n"
proof (induction n arbitrary: x)
  case 0
  then show ?case by simp
next
  case (Suc n)
  have "(x div 256) mod 256 ^ n * 256 + x mod 256 = x mod (256 * 256 ^ n)"
    by (simp add: mod_mult2_eq [of x 256 "256 ^ n"])
  then show ?case
    by (simp add: be_val_snoc Suc unat_of_nat_byte)
qed

lemma be_enc_be_val: "be_enc (length bs) (be_val bs) = bs"
proof (induction bs rule: rev_induct)
  case Nil
  then show ?case by simp
next
  case (snoc b bs)
  have "(be_val bs * 256 + unat b) div 256 = be_val bs"
    using unat_byte_less [of b] by simp
  moreover have "(of_nat (be_val bs * 256 + unat b) :: byte) = b"
    by (rule word_unat_eq_iff [THEN iffD2]) (simp only: unat_of_nat_byte, simp)
  ultimately show ?case
    by (simp add: be_val_snoc snoc)
qed

lemma be_val_inject: "length xs = length ys \<Longrightarrow> be_val xs = be_val ys \<longleftrightarrow> xs = ys"
  by (metis be_enc_be_val)

definition PutUint64 :: "u64 \<Rightarrow> bytes" where
  "PutUint64 w = be_enc 8 (unat w)"

definition Uint64 :: "bytes \<Rightarrow> u64" where
  "Uint64 bs = of_nat (be_val bs)"

definition PutUint16 :: "u16 \<Rightarrow> bytes" where
  "PutUint16 w = be_enc 2 (unat w)"

definition Uint16 :: "bytes \<Rightarrow> u16" where
  "Uint16 bs = of_nat (be_val bs)"

lemma length_PutUint64 [simp]: "length (PutUint64 w) = 8"
  and length_PutUint16 [simp]: "length (PutUint16 v) = 2"
  by (simp_all add: PutUint64_def PutUint16_def)

lemma Uint64_PutUint64 [simp]: "Uint64 (PutUint64 w) = w"
  using unsigned_less [of w, where ?'a = nat] by (simp add: Uint64_def PutUint64_def be_val_be_enc)

lemma Uint16_PutUint16 [simp]: "Uint16 (PutUint16 w) = w"
  using unsigned_less [of w, where ?'a = nat] by (simp add: Uint16_def PutUint16_def be_val_be_enc)

lemma PutUint64_Uint64: "length bs = 8 \<Longrightarrow> PutUint64 (Uint64 bs) = bs"
  using be_val_less [of bs] be_enc_be_val [of bs]
  by (simp add: Uint64_def PutUint64_def unat_of_nat)

lemma PutUint16_Uint16: "length bs = 2 \<Longrightarrow> PutUint16 (Uint16 bs) = bs"
  using be_val_less [of bs] be_enc_be_val [of bs]
  by (simp add: Uint16_def PutUint16_def unat_of_nat)

subsection \<open>Signed 64-bit integers\<close>

lemma sint64: "sint (w :: u64) = (if uint w < 2 ^ 63 then uint w else uint w - 2 ^ 64)"
proof -
  have b: "0 \<le> uint w" "uint w < 2 ^ 64" using unsigned_less [of w, where ?'a = int] by simp_all
  have "sint w = (uint w + 2 ^ 63) mod 2 ^ 64 - 2 ^ 63"
    by (simp add: sint_uint signed_take_bit_eq_take_bit_shift take_bit_eq_mod)
  also have "\<dots> = (if uint w < 2 ^ 63 then uint w else uint w - 2 ^ 64)"
  proof (cases "uint w < 2 ^ 63")
    case False
    have "(uint w + 2 ^ 63) mod 2 ^ 64 = (uint w + 2 ^ 63 - 2 ^ 64) mod 2 ^ 64"
      by (simp add: mod_eq_dvd_iff)
    also have "\<dots> = uint w + 2 ^ 63 - 2 ^ 64" using False b by (intro mod_pos_pos_trivial) auto
    finally show ?thesis using False by simp
  qed (use b in simp)
  finally show ?thesis .
qed

lemma sint64_bounds: "- (2 ^ 63) \<le> sint (w :: u64)" "sint w < 2 ^ 63"
  using unsigned_less [of w, where ?'a = int] by (auto simp: sint64 intro: order_trans [of _ 0])

lemma sint64_of_int: "- (2 ^ 63) \<le> x \<Longrightarrow> x < 2 ^ 63 \<Longrightarrow> sint (of_int x :: u64) = x"
proof -
  assume x: "- (2 ^ 63) \<le> x" "x < 2 ^ 63"
  have u: "uint (of_int x :: u64) = x mod 2 ^ 64" by (simp add: uint_word_of_int)
  show ?thesis
  proof (cases "0 \<le> x")
    case True
    then have "x mod 2 ^ 64 = x" using x by simp
    with x True show ?thesis by (simp add: sint64 u)
  next
    case False
    have "x mod 2 ^ 64 = (x + 2 ^ 64) mod 2 ^ 64" by simp
    also have "\<dots> = x + 2 ^ 64" using False x by (intro mod_pos_pos_trivial) auto
    finally show ?thesis using False x by (simp add: sint64 u)
  qed
qed

lemma sint64_uminus: "w \<noteq> 2 ^ 63 \<Longrightarrow> sint (- w :: u64) = - sint w"
proof -
  assume w: "w \<noteq> 2 ^ 63"
  have "sint w \<noteq> - (2 ^ 63)"
  proof
    assume "sint w = - (2 ^ 63)"
    moreover have "sint w = uint w \<or> sint w = uint w - 2 ^ 64" by (simp add: sint64)
    moreover have "0 \<le> uint w" by simp
    ultimately have "uint w = 2 ^ 63" by (elim disjE) simp_all
    then have "(of_int (uint w) :: u64) = of_int (2 ^ 63)" by (rule arg_cong)
    then have "w = 2 ^ 63" by simp
    with w show False by simp
  qed
  moreover have "- w = of_int (- sint w)" by simp
  ultimately show ?thesis using sint64_bounds [of w] by (simp only: sint64_of_int)
qed

subsection \<open>Hexadecimal\<close>

definition hex_digit :: "nat \<Rightarrow> byte" where
  "hex_digit n = (if n < 10 then of_nat (48 + n) else of_nat (87 + n))"

definition hex_EncodeToString :: "bytes \<Rightarrow> bytes" where
  "hex_EncodeToString bs = concat (map (\<lambda>b. [hex_digit (unat b div 16), hex_digit (unat b mod 16)]) bs)"

lemma length_hex_EncodeToString [simp]: "length (hex_EncodeToString bs) = 2 * length bs"
  by (induction bs) (auto simp: hex_EncodeToString_def)

subsection \<open>Decoders that undo an encoder\<close>

fun decode_n :: "(bytes \<Rightarrow> ('a \<times> bytes) outcome) \<Rightarrow> nat \<Rightarrow> bytes \<Rightarrow> ('a list \<times> bytes) outcome" where
  "decode_n d 0 p = Ok ([], p)"
| "decode_n d (Suc n) p =
     obind (d p) (\<lambda>(x, p'). obind (decode_n d n p') (\<lambda>(xs, p''). Ok (x # xs, p'')))"

lemma decode_n_not_Err: "(\<And>q. d q \<noteq> Err e) \<Longrightarrow> decode_n d n p \<noteq> Err e"
  by (induction n arbitrary: p) (auto simp: obind_Err_iff)

locale byte_codec =
  fixes enc :: "'a \<Rightarrow> bytes"
    and dec :: "bytes \<Rightarrow> ('a \<times> bytes) outcome"
    and wf :: "'a \<Rightarrow> bool"
  assumes dec_enc: "wf a \<Longrightarrow> dec (enc a @ r) = Ok (a, r)"
    and dec_sound: "dec p = Ok (a, r) \<Longrightarrow> wf a \<and> p = enc a @ r"
begin

lemma enc_prefix_free:
  assumes "wf a" "wf b" "enc a @ r = enc b @ s"
  shows "a = b \<and> r = s"
proof -
  have "Ok (a, r) = dec (enc a @ r)"
    by (rule dec_enc [OF assms(1), symmetric])
  also have "\<dots> = Ok (b, s)"
    unfolding assms(3) by (rule dec_enc [OF assms(2)])
  finally show ?thesis by simp
qed

lemma decode_n_enc:
  "list_all wf xs \<Longrightarrow> decode_n dec (length xs) (concat (map enc xs) @ r) = Ok (xs, r)"
  by (induction xs) (auto simp: dec_enc)

lemma decode_n_sound:
  "decode_n dec n p = Ok (xs, r) \<Longrightarrow>
     list_all wf xs \<and> length xs = n \<and> p = concat (map enc xs) @ r"
proof (induction n arbitrary: p xs)
  case 0
  then show ?case by simp
next
  case (Suc n)
  then obtain x p' ys where "dec p = Ok (x, p')" "decode_n dec n p' = Ok (ys, r)" "xs = x # ys"
    by (auto simp: obind_Ok_iff)
  with Suc.IH dec_sound show ?case by fastforce
qed

end

subsection \<open>Step relations and invariants\<close>

inductive reach :: "('s \<Rightarrow> bool) \<Rightarrow> ('s \<Rightarrow> 's \<Rightarrow> bool) \<Rightarrow> 's \<Rightarrow> bool"
  for init step where
  reach_init: "init s \<Longrightarrow> reach init step s"
| reach_step: "reach init step s \<Longrightarrow> step s t \<Longrightarrow> reach init step t"

lemma reach_steps: "reach init step s \<Longrightarrow> step\<^sup>*\<^sup>* s t \<Longrightarrow> reach init step t"
  by (erule rtranclp_induct) (auto intro: reach_step)

locale invariant_system =
  fixes init :: "'s \<Rightarrow> bool"
    and step :: "'s \<Rightarrow> 's \<Rightarrow> bool"
    and inv :: "'s \<Rightarrow> bool"
  assumes inv_init: "init s \<Longrightarrow> inv s"
    and inv_step: "inv s \<Longrightarrow> step s t \<Longrightarrow> inv t"
begin

lemma reach_inv: "reach init step s \<Longrightarrow> inv s"
  by (induction rule: reach.induct) (auto intro: inv_init inv_step)

lemma steps_inv: "step\<^sup>*\<^sup>* s t \<Longrightarrow> inv s \<Longrightarrow> inv t"
  by (induction rule: rtranclp_induct) (auto intro: inv_step)

end

text \<open>An invariant system whose steps decrease a rank runs for a bounded number of steps.\<close>

locale ranked_system = invariant_system +
  fixes rank :: "'s \<Rightarrow> nat"
  assumes rank_step: "inv s \<Longrightarrow> step s t \<Longrightarrow> rank t < rank s"
begin

lemma steps_bounded: "(step ^^ n) s t \<Longrightarrow> inv s \<Longrightarrow> n + rank t \<le> rank s"
proof (induction n arbitrary: t)
  case (Suc n)
  then obtain u where u: "(step ^^ n) s u" "step u t" by (auto elim: relpowp_Suc_E)
  then have "inv u" using Suc.prems(2) by (meson relpowp_imp_rtranclp steps_inv)
  with u Suc.IH [OF u(1) Suc.prems(2)] rank_step [of u t] show ?case by simp
qed simp

lemma no_infinite_run: "inv (f 0) \<Longrightarrow> \<not> (\<forall>i. step (f i) (f (Suc i)))"
proof
  assume i: "inv (f 0)" and run: "\<forall>i. step (f i) (f (Suc i))"
  have "(step ^^ n) (f 0) (f n)" for n using run by (induction n) auto
  from steps_bounded [OF this i, of "Suc (rank (f 0))"] show False by simp
qed

end

end
