(* ===== verification/Node_Id.thy ===== *)
theory Node_Id
  imports Kad_Prelude
begin

text \<open>
  Node identifiers and the distance between them (\<open>src/kademlia/kademlia.go\<close> and the type
  \<open>NodeId\<close> of \<open>src/kademlia/node.go\<close>). \<open>NodeId\<close> is Go's array type \<open>[32]byte\<close>: a type of its own,
  whose values are the byte lists of length 32. \<open>XorDistance\<close> is the code's loop over the bytes;
  the lemmas show that it is the position of the highest bit of the bitwise exclusive or of
  the two identifiers read as 256-bit numbers (\<open>xor_val\<close>), except that equal identifiers
  are at distance 0 and not -1.
\<close>

definition idLength :: nat where
  "idLength = 32"

definition k_size :: nat where
  "k_size = 32"

definition maxConcurrentRequests :: nat where
  "maxConcurrentRequests = 3"

definition magicBytePrefix :: byte where
  "magicBytePrefix = 4"

typedef NodeId = "{xs :: bytes. length xs = 32}"
  morphisms id_bytes Abs_NodeId
  by (rule exI [of _ "replicate 32 0"]) simp

lemma NodeId_code [code abstype]: "Abs_NodeId (id_bytes i) = i"
  by (rule id_bytes_inverse)

text \<open>The conversion \<open>NodeId(slice)\<close>; the code applies it to slices of 32 bytes only.\<close>

definition node_id :: "bytes \<Rightarrow> NodeId" where
  "node_id xs = Abs_NodeId (take 32 (xs @ replicate 32 0))"

lemma id_bytes_node_id_pad [code abstract]:
  "id_bytes (node_id xs) = take 32 (xs @ replicate 32 0)"
  by (simp add: node_id_def Abs_NodeId_inverse)

definition zero_id :: NodeId where
  "zero_id = node_id []"

lemma length_id_bytes [simp]: "length (id_bytes i) = 32"
  using id_bytes [of i] by simp

lemma id_bytes_node_id [simp]: "length xs = 32 \<Longrightarrow> id_bytes (node_id xs) = xs"
  by (simp add: id_bytes_node_id_pad)

lemma node_id_id_bytes [simp]: "node_id (id_bytes i) = i"
  by (metis id_bytes_inject id_bytes_node_id length_id_bytes)

lemma node_id_eq_iff:
  "node_id xs = node_id ys \<longleftrightarrow> take 32 (xs @ replicate 32 0) = take 32 (ys @ replicate 32 0)"
  by (simp only: id_bytes_inject [symmetric] id_bytes_node_id_pad)

subsection \<open>Type classes: equality, the byte order, finiteness\<close>

instantiation NodeId :: equal
begin

definition equal_NodeId :: "NodeId \<Rightarrow> NodeId \<Rightarrow> bool" where
  "equal_NodeId a b \<longleftrightarrow> id_bytes a = id_bytes b"

instance
  by standard (simp add: equal_NodeId_def id_bytes_inject)

end

instantiation NodeId :: linorder
begin

definition less_eq_NodeId :: "NodeId \<Rightarrow> NodeId \<Rightarrow> bool" where
  "less_eq_NodeId a b \<longleftrightarrow> id_bytes a \<le> id_bytes b"

definition less_NodeId :: "NodeId \<Rightarrow> NodeId \<Rightarrow> bool" where
  "less_NodeId a b \<longleftrightarrow> id_bytes a < id_bytes b"

instance
  by standard (auto simp: less_eq_NodeId_def less_NodeId_def id_bytes_inject [symmetric])

end

instance NodeId :: finite
proof
  have "finite (id_bytes ` UNIV)"
    by (rule finite_subset [OF _ finite_lists_length_eq [of "UNIV :: byte set" 32]]) auto
  then show "finite (UNIV :: NodeId set)"
    by (rule finite_imageD) (simp add: inj_on_def id_bytes_inject)
qed

definition id_nat :: "NodeId \<Rightarrow> nat" where
  "id_nat i = be_val (id_bytes i)"

definition id_of_nat :: "nat \<Rightarrow> NodeId" where
  "id_of_nat n = node_id (be_enc 32 n)"

lemma id_nat_inject: "id_nat a = id_nat b \<longleftrightarrow> a = b"
  by (simp add: id_nat_def be_val_inject id_bytes_inject)

lemma id_nat_less: "id_nat a < 2 ^ 256"
  using be_val_less [of "id_bytes a"] by (simp add: id_nat_def)

lemma id_nat_id_of_nat: "id_nat (id_of_nat n) = n mod 2 ^ 256"
  by (simp add: id_nat_def id_of_nat_def be_val_be_enc)

lemma id_of_nat_eq_iff: "id_of_nat m = id_of_nat n \<longleftrightarrow> m mod 2 ^ 256 = n mod 2 ^ 256"
  by (metis id_nat_id_of_nat id_nat_inject)

lemma zero_id_of_nat: "zero_id = id_of_nat 0"
proof -
  have "be_enc n 0 = replicate n 0" for n
    by (induction n) (simp_all add: replicate_append_same)
  then show ?thesis
    by (simp add: zero_id_def id_of_nat_def node_id_eq_iff)
qed

subsection \<open>The distance of the code\<close>

text \<open>\<open>bits.Len8\<close> and \<open>bits.LeadingZeros8\<close>.\<close>

fun bit_len :: "nat \<Rightarrow> nat" where
  "bit_len n = (if n = 0 then 0 else Suc (bit_len (n div 2)))"

declare bit_len.simps [simp del]

definition LeadingZeros8 :: "byte \<Rightarrow> nat" where
  "LeadingZeros8 x = 8 - bit_len (unat x)"

fun XorDistance_loop :: "bytes \<Rightarrow> bytes \<Rightarrow> nat \<Rightarrow> int" where
  "XorDistance_loop (x # a) (y # b) commonZeroBitCount =
     (let result = x XOR y in
      if result = 0 then XorDistance_loop a b (commonZeroBitCount + 8)
      else
        let commonZeroBitCount = commonZeroBitCount + LeadingZeros8 result in
        if commonZeroBitCount = 0 then int (idLength * 8) - 1
        else int (idLength * 8) - int commonZeroBitCount - 1)"
| "XorDistance_loop _ _ commonZeroBitCount = int (idLength * 8) - int commonZeroBitCount"

definition XorDistance :: "NodeId \<Rightarrow> NodeId \<Rightarrow> int" where
  "XorDistance a b = XorDistance_loop (id_bytes a) (id_bytes b) 0"

subsection \<open>Bit lengths\<close>

lemma bit_len_0 [simp]: "bit_len 0 = 0"
  by (simp add: bit_len.simps)

lemma bit_len_pos: "0 < n \<Longrightarrow> bit_len n = Suc (bit_len (n div 2))"
  by (simp add: bit_len.simps)

lemma bit_len_bounds: "0 < n \<Longrightarrow> 2 ^ (bit_len n - 1) \<le> n \<and> n < 2 ^ bit_len n"
proof (induction n rule: bit_len.induct)
  case (1 n)
  show ?case
  proof (cases "n div 2 = 0")
    case True
    with "1.prems" have "n = 1" by simp
    then show ?thesis by (simp add: bit_len_pos)
  next
    case False
    with "1" have "2 ^ (bit_len (n div 2) - 1) \<le> n div 2 \<and> n div 2 < 2 ^ bit_len (n div 2)"
      by simp
    moreover obtain m where "bit_len (n div 2) = Suc m"
      using False by (metis bit_len_pos gr0I)
    ultimately have "2 ^ m \<le> n div 2" "n div 2 < 2 ^ Suc m" and "bit_len n = Suc (Suc m)"
      using "1.prems" by (simp_all add: bit_len_pos [of n])
    then show ?thesis by auto
  qed
qed

lemma bit_len_eqI: "2 ^ d \<le> n \<Longrightarrow> n < 2 ^ Suc d \<Longrightarrow> bit_len n = Suc d"
proof -
  assume lo: "2 ^ d \<le> n" and hi: "n < 2 ^ Suc d"
  from lo have pos: "0 < n" by (metis gr0I not_one_le_zero one_le_numeral one_le_power order_trans)
  obtain m where m: "bit_len n = Suc m" using pos by (auto simp: bit_len_pos)
  from bit_len_bounds [OF pos] m have b: "2 ^ m \<le> n" "n < 2 ^ Suc m" by auto
  from lo b(2) have "(2::nat) ^ d < 2 ^ Suc m" by linarith
  then have "d < Suc m" by (rule power_less_imp_less_exp [rotated]) simp
  moreover from b(1) hi have "(2::nat) ^ m < 2 ^ Suc d" by linarith
  then have "m < Suc d" by (rule power_less_imp_less_exp [rotated]) simp
  ultimately show ?thesis using m by simp
qed

lemma bit_len_le_iff: "bit_len n \<le> d \<longleftrightarrow> n < 2 ^ d"
proof (cases "n = 0")
  case False
  then have b: "2 ^ (bit_len n - 1) \<le> n" "n < 2 ^ bit_len n" and p: "0 < bit_len n"
    using bit_len_bounds [of n] by (auto simp: bit_len_pos)
  show ?thesis
  proof
    assume "bit_len n \<le> d"
    then have "(2::nat) ^ bit_len n \<le> 2 ^ d" by (rule power_increasing) simp
    with b show "n < 2 ^ d" by linarith
  next
    assume "n < 2 ^ d"
    with b have "(2::nat) ^ (bit_len n - 1) < 2 ^ d" by linarith
    then have "bit_len n - 1 < d" by (rule power_less_imp_less_exp [rotated]) simp
    with p show "bit_len n \<le> d" by linarith
  qed
qed simp

lemma bit_len_byte: "bit_len (unat (b :: byte)) \<le> 8"
  using unat_byte_less [of b] by (simp add: bit_len_le_iff)

lemma bit_len_shift:
  assumes "0 < u" "v < 2 ^ n"
  shows "bit_len (u * 2 ^ n + v) = bit_len u + n"
proof -
  obtain m where m: "bit_len u = Suc m" using assms by (auto simp: bit_len_pos)
  with bit_len_bounds [OF assms(1)] have u: "2 ^ m \<le> u" "u + 1 \<le> 2 ^ Suc m" by auto
  have "bit_len (u * 2 ^ n + v) = Suc (m + n)"
  proof (rule bit_len_eqI)
    show "2 ^ (m + n) \<le> u * 2 ^ n + v"
      using mult_le_mono1 [OF u(1), of "2 ^ n"] unfolding power_add by linarith
    have "u * 2 ^ n + v < (u + 1) * 2 ^ n" using assms by simp
    also have "\<dots> \<le> 2 ^ Suc m * 2 ^ n" using u(2) by (rule mult_le_mono1)
    finally show "u * 2 ^ n + v < 2 ^ Suc (m + n)" by (simp add: power_add)
  qed
  with m show ?thesis by simp
qed

subsection \<open>The exclusive-or metric\<close>

definition xor_val :: "NodeId \<Rightarrow> NodeId \<Rightarrow> nat" where
  "xor_val a b = id_nat a XOR id_nat b"

lemma xor_val_id_of_nat: "xor_val (id_of_nat m) (id_of_nat n) = (m mod 2 ^ 256) XOR (n mod 2 ^ 256)"
  by (simp only: xor_val_def id_nat_id_of_nat)

lemma nat_less_exp_bit: "(v::nat) < 2 ^ n \<Longrightarrow> n \<le> i \<Longrightarrow> \<not> bit v i"
  by (metis bit_take_bit_iff linorder_not_le take_bit_nat_eq_self)

lemma bit_shift_add:
  assumes "(v::nat) < 2 ^ n"
  shows "bit (u * 2 ^ n + v) i \<longleftrightarrow> (if i < n then bit v i else bit u (i - n))"
proof -
  have "bit (u * 2 ^ n) j \<longrightarrow> \<not> bit v j" for j
    using nat_less_exp_bit [OF assms, of j]
    by (auto simp: push_bit_eq_mult [symmetric] bit_push_bit_iff)
  then have "u * 2 ^ n + v = u * 2 ^ n OR v"
    by (intro disjunctive_add) auto
  then show ?thesis
    using nat_less_exp_bit [OF assms, of i]
    by (auto simp: bit_or_iff push_bit_eq_mult [symmetric] bit_push_bit_iff)
qed

lemma xor_less_exp: "(v::nat) < 2 ^ n \<Longrightarrow> w < 2 ^ n \<Longrightarrow> v XOR w < 2 ^ n"
  by (simp add: take_bit_nat_eq_self_iff [symmetric] take_bit_xor)

lemma xor_shift_add:
  assumes "(v::nat) < 2 ^ n" "w < 2 ^ n"
  shows "(u * 2 ^ n + v) XOR (t * 2 ^ n + w) = (u XOR t) * 2 ^ n + (v XOR w)"
  by (rule bit_eqI)
    (simp add: bit_xor_iff bit_shift_add assms xor_less_exp)

lemma be_val_less_bits: "be_val bs < 2 ^ (8 * length bs)"
  using be_val_less [of bs] by (simp add: power_mult)

lemma be_val_map2_xor:
  "length xs = length ys \<Longrightarrow> be_val (map2 (XOR) xs ys) = be_val xs XOR be_val ys"
proof (induction xs ys rule: list_induct2)
  case Nil
  then show ?case by simp
next
  case (Cons x xs y ys)
  have p: "(256::nat) ^ length ys = 2 ^ (8 * length ys)" by (simp add: power_mult)
  show ?case
    using Cons xor_shift_add [of "be_val xs" "8 * length ys" "be_val ys" "unat x" "unat y"]
      be_val_less_bits [of xs] be_val_less_bits [of ys]
    by (simp add: p unsigned_xor_eq)
qed

lemma xor_eq_0_iff: "(v::nat) XOR w = 0 \<longleftrightarrow> v = w"
  by (auto simp: bit_eq_iff bit_xor_iff)

lemma XorDistance_loop_eq:
  assumes "length xs = length ys" "cz + 8 * length xs = 256"
  shows "XorDistance_loop xs ys cz =
    (if xs = ys then 0 else int (bit_len (be_val xs XOR be_val ys)) - 1)"
  using assms
proof (induction xs ys arbitrary: cz rule: list_induct2)
  case Nil
  then show ?case by (simp add: idLength_def)
next
  case (Cons x xs y ys)
  let ?v = "be_val xs XOR be_val ys"
  have v: "?v < 2 ^ (8 * length ys)"
    using Cons.hyps be_val_less_bits [of xs] be_val_less_bits [of ys] by (simp add: xor_less_exp)
  have split: "be_val (x # xs) XOR be_val (y # ys) = unat (x XOR y) * 2 ^ (8 * length ys) + ?v"
    using xor_shift_add [of "be_val xs" "8 * length ys" "be_val ys" "unat x" "unat y"]
      be_val_less_bits [of xs] be_val_less_bits [of ys] Cons.hyps
    by (simp add: power_mult unsigned_xor_eq)
  show ?case
  proof (cases "x XOR y = 0")
    case True
    then have "x = y" by (metis bit.xor_self xor.right_neutral xor.left_commute)
    with Cons split show ?thesis by simp
  next
    case False
    then have pos: "0 < unat (x XOR y)" by (simp add: unat_gt_0)
    from False have ne: "x \<noteq> y" by auto
    have "bit_len (be_val (x # xs) XOR be_val (y # ys)) = bit_len (unat (x XOR y)) + 8 * length ys"
      unfolding split by (rule bit_len_shift [OF pos v])
    moreover have "int (8 - bit_len (unat (x XOR y))) = 8 - int (bit_len (unat (x XOR y)))"
      using bit_len_byte [of "x XOR y"] by simp
    moreover have "XorDistance_loop (x # xs) (y # ys) cz = 256 - int (cz + LeadingZeros8 (x XOR y)) - 1"
      using False by (simp add: Let_def idLength_def)
    moreover have "int cz + 8 * (1 + int (length ys)) = 256"
      using Cons.prems Cons.hyps by simp
    ultimately show ?thesis
      using ne by (simp add: LeadingZeros8_def)
  qed
qed

lemma XorDistance_eq:
  "XorDistance a b = (if a = b then 0 else int (bit_len (xor_val a b)) - 1)"
  using XorDistance_loop_eq [of "id_bytes a" "id_bytes b" 0]
  by (simp add: XorDistance_def xor_val_def id_nat_def id_bytes_inject)

lemma xor_val_self [simp]: "xor_val a a = 0"
  by (simp add: xor_val_def xor_eq_0_iff)

lemma xor_val_eq_0_iff [simp]: "xor_val a b = 0 \<longleftrightarrow> a = b"
  by (simp add: xor_val_def xor_eq_0_iff id_nat_inject)

lemma xor_val_commute: "xor_val a b = xor_val b a"
  by (simp add: xor_val_def ac_simps)

lemma xor_val_less: "xor_val a b < 2 ^ 256"
  unfolding xor_val_def by (rule xor_less_exp) (rule id_nat_less)+

lemma xor_val_triangle: "xor_val a c = xor_val a b XOR xor_val b c"
  by (rule bit_eqI) (auto simp: xor_val_def bit_xor_iff)

lemma XorDistance_self [simp]: "XorDistance a a = 0"
  by (simp add: XorDistance_eq)

lemma XorDistance_commute: "XorDistance a b = XorDistance b a"
  by (simp add: XorDistance_eq xor_val_commute)

lemma bit_len_xor_val_pos: "a \<noteq> b \<Longrightarrow> 0 < bit_len (xor_val a b)"
  by (metis bit_len_pos gr0I xor_val_eq_0_iff zero_less_Suc)

lemma XorDistance_nonneg [simp]: "0 \<le> XorDistance a b"
  using bit_len_xor_val_pos [of a b] by (simp add: XorDistance_eq)

lemma XorDistance_less [simp]: "XorDistance a b < 256"
  using xor_val_less [of a b] bit_len_le_iff [of "xor_val a b" 256] by (simp add: XorDistance_eq)

lemma XorDistance_le_iff: "0 \<le> d \<Longrightarrow> XorDistance a b \<le> d \<longleftrightarrow> xor_val a b < 2 ^ (nat d + 1)"
proof -
  assume d: "0 \<le> d"
  have "xor_val a b < 2 ^ (nat d + 1) \<longleftrightarrow> bit_len (xor_val a b) \<le> nat d + 1"
    by (simp only: bit_len_le_iff)
  then show ?thesis using d by (auto simp: XorDistance_eq)
qed

lemma XorDistance_ultrametric: "XorDistance a c \<le> max (XorDistance a b) (XorDistance b c)"
proof -
  let ?d = "max (XorDistance a b) (XorDistance b c)"
  have d: "0 \<le> ?d" by (simp add: le_max_iff_disj)
  have "xor_val a b < 2 ^ (nat ?d + 1)" "xor_val b c < 2 ^ (nat ?d + 1)"
    using XorDistance_le_iff [OF d, of a b] XorDistance_le_iff [OF d, of b c] by auto
  then have "xor_val a c < 2 ^ (nat ?d + 1)"
    unfolding xor_val_triangle [of a c b] by (rule xor_less_exp)
  with XorDistance_le_iff [OF d, of a c] show ?thesis by simp
qed

lemma XorDistance_less_imp_xor_val_less:
  "XorDistance a t < XorDistance b t \<Longrightarrow> xor_val a t < xor_val b t"
proof -
  assume lt: "XorDistance a t < XorDistance b t"
  have "\<not> XorDistance b t \<le> XorDistance a t" using lt by simp
  then have "2 ^ (nat (XorDistance a t) + 1) \<le> xor_val b t"
    using XorDistance_le_iff [of "XorDistance a t" b t] by simp
  moreover have "xor_val a t < 2 ^ (nat (XorDistance a t) + 1)"
    using XorDistance_le_iff [of "XorDistance a t" a t] by simp
  ultimately show ?thesis by linarith
qed

subsection \<open>Properties\<close>

text \<open>
  The distance of two different identifiers is the position, from 0 to 255, of the highest bit in
  which they differ: their exclusive or, read as a 256-bit number, lies between two
  consecutive powers of two given by the distance.
\<close>

theorem XorDistance_highest_bit:
  assumes "a \<noteq> b"
  shows "0 \<le> XorDistance a b \<and> XorDistance a b < 256 \<and>
    2 ^ nat (XorDistance a b) \<le> xor_val a b \<and> xor_val a b < 2 ^ (nat (XorDistance a b) + 1)"
proof -
  have "0 < xor_val a b" using assms by (metis gr0I xor_val_eq_0_iff)
  moreover have "nat (XorDistance a b) = bit_len (xor_val a b) - 1"
    using assms by (simp add: XorDistance_eq)
  ultimately have "2 ^ nat (XorDistance a b) \<le> xor_val a b" using bit_len_bounds by simp
  moreover have "xor_val a b < 2 ^ (nat (XorDistance a b) + 1)"
    using XorDistance_le_iff [of "XorDistance a b" a b] by simp
  ultimately show ?thesis by simp
qed

theorem XorDistance_highest_bit_witness:
  "id_of_nat 5 \<noteq> id_of_nat 1 \<and> 2 ^ nat (XorDistance (id_of_nat 5) (id_of_nat 1)) \<le> (4 :: nat) \<and>
   (4 :: nat) < 2 ^ (nat (XorDistance (id_of_nat 5) (id_of_nat 1)) + 1)"
proof -
  have ne: "id_of_nat 5 \<noteq> id_of_nat 1" by (simp add: id_of_nat_eq_iff)
  moreover have "xor_val (id_of_nat 5) (id_of_nat 1) = 4" by (simp add: xor_val_id_of_nat)
  ultimately show ?thesis using XorDistance_highest_bit [OF ne] by simp
qed

text \<open>
  C18. The distance behaves as a metric on buckets should: it is symmetric, satisfies the strong triangle
  inequality, and orders contacts consistently with the exact exclusive-or metric. It is
  not a metric on identifiers: distance 0 does not mean equality, since the identifier that
  differs in the last bit only is at distance 0, too.
\<close>

theorem XorDistance_metric:
  "XorDistance a b = XorDistance b a \<and>
   XorDistance a c \<le> max (XorDistance a b) (XorDistance b c) \<and>
   (XorDistance a c < XorDistance b c \<longrightarrow> xor_val a c < xor_val b c) \<and>
   (XorDistance a b = 0 \<longleftrightarrow> xor_val a b \<le> 1)"
proof -
  have "XorDistance a b = 0 \<longleftrightarrow> XorDistance a b \<le> 0"
    using XorDistance_nonneg [of a b] by linarith
  also have "\<dots> \<longleftrightarrow> xor_val a b \<le> 1" using XorDistance_le_iff [of 0 a b] by auto
  finally show ?thesis
    using XorDistance_commute XorDistance_ultrametric XorDistance_less_imp_xor_val_less by blast
qed

theorem XorDistance_metric_witness:
  "XorDistance (id_of_nat 8) (id_of_nat 9) = 0 \<and> id_of_nat 8 \<noteq> id_of_nat 9"
proof -
  have "xor_val (id_of_nat 8) (id_of_nat 9) \<le> 1" by (simp add: xor_val_id_of_nat)
  then have "XorDistance (id_of_nat 8) (id_of_nat 9) = 0"
    using XorDistance_metric [of "id_of_nat 8" "id_of_nat 9" zero_id] by blast
  then show ?thesis by (simp add: id_of_nat_eq_iff)
qed

end
