(* ===== verification/Bounded_Insertion.thy ===== *)
theory Bounded_Insertion
  imports "HOL-Library.Multiset"
begin

text \<open>
  The abstract specification of a bounded sorted collection without duplicates, on lists:
  \<open>add_spec\<close> inserts an element behind the elements whose key is not larger, unless an
  element with the same identity is there, and keeps the first \<open>n\<close> elements only. The locale
  \<open>bounded_insertion\<close> shows, once for every key that depends on the identity alone, that
  a sequence of such insertions computes the first \<open>n\<close> elements of a stable sort of the
  elements, each identity taken at its first occurrence. \<open>Contact_Sorter\<close> interprets it
  at the contacts of the code.
\<close>

fun ins_after :: "('a \<Rightarrow> int) \<Rightarrow> 'a \<Rightarrow> 'a list \<Rightarrow> 'a list" where
  "ins_after f x [] = [x]"
| "ins_after f x (y # ys) = (if f x < f y then x # y # ys else y # ins_after f x ys)"

definition add_spec :: "('a \<Rightarrow> int) \<Rightarrow> ('a \<Rightarrow> 'i) \<Rightarrow> nat \<Rightarrow> 'a \<Rightarrow> 'a list \<Rightarrow> 'a list" where
  "add_spec f g n x ys = (if g x \<in> g ` set ys then ys else take n (ins_after f x ys))"

fun first_by :: "('a \<Rightarrow> 'i) \<Rightarrow> 'a list \<Rightarrow> 'a list" where
  "first_by g [] = []"
| "first_by g (x # xs) = x # filter (\<lambda>y. g y \<noteq> g x) (first_by g xs)"

subsection \<open>Insertion behind ties\<close>

lemma mset_ins_after [simp]: "mset (ins_after f x ys) = add_mset x (mset ys)"
  by (induction ys) auto

lemma set_ins_after [simp]: "set (ins_after f x ys) = insert x (set ys)"
  by (induction ys) auto

lemma length_ins_after [simp]: "length (ins_after f x ys) = Suc (length ys)"
  by (induction ys) auto

lemma sorted_ins_after: "sorted (map f ys) \<Longrightarrow> sorted (map f (ins_after f x ys))"
  by (induction ys) (auto simp: less_imp_le)

lemma distinct_ins_after:
  "g x \<notin> g ` set ys \<Longrightarrow> distinct (map g ys) \<Longrightarrow> distinct (map g (ins_after f x ys))"
  by (induction ys) auto

lemma ins_after_append_ge:
  "\<forall>y \<in> set ys. f y \<le> f x \<Longrightarrow> ins_after f x (ys @ zs) = ys @ ins_after f x zs"
  by (induction ys) (auto simp: not_less)

lemma ins_after_last:
  "\<forall>y \<in> set ys. f y \<le> f x \<Longrightarrow> ins_after f x ys = ys @ [x]"
  using ins_after_append_ge [of ys f x "[]"] by simp

lemma ins_after_split:
  "\<forall>y \<in> set ys. f y \<le> f x \<Longrightarrow> f x < f z \<Longrightarrow> ins_after f x (ys @ z # zs) = ys @ x # z # zs"
  by (simp add: ins_after_append_ge)

lemma take_ins_after_take: "take n (ins_after f x (take n ys)) = take n (ins_after f x ys)"
proof (induction ys arbitrary: n)
  case (Cons y ys)
  then show ?case by (cases n) (auto simp: take_Cons')
qed simp

lemma distinct_map_take: "distinct (map g xs) \<Longrightarrow> distinct (map g (take n xs))"
  by (simp add: take_map [symmetric])

lemma sorted_map_take: "sorted (map f xs) \<Longrightarrow> sorted (map f (take n xs))"
  by (simp add: take_map [symmetric] sorted_wrt_take)

lemma ins_after_insort_key:
  "ins_after f x (insort_key f p ys) = insort_key f p (ins_after f x ys)"
  by (induction ys) auto

lemma ins_after_sort_key: "ins_after f x (sort_key f ps) = sort_key f (ps @ [x])"
  by (induction ps) (auto simp: ins_after_insort_key)

subsection \<open>First occurrences\<close>

lemma image_filter_neq: "g ` {y \<in> A. g y \<noteq> c} = g ` A - {c}"
  by auto

lemma image_set_first_by [simp]: "g ` set (first_by g xs) = g ` set xs"
  by (induction xs) (simp_all add: image_filter_neq)

lemma set_first_by_subset: "set (first_by g xs) \<subseteq> set xs"
  by (induction xs) auto

lemma first_by_snoc:
  "first_by g (xs @ [x]) = first_by g xs @ (if g x \<in> g ` set xs then [] else [x])"
  by (induction xs) auto

lemma distinct_map_filter: "distinct (map g xs) \<Longrightarrow> distinct (map g (filter P xs))"
  by (induction xs) auto

lemma distinct_first_by: "distinct (map g (first_by g xs))"
  by (induction xs) (auto simp: distinct_map_filter)

lemma first_by_distinct: "distinct (map g xs) \<Longrightarrow> first_by g xs = xs"
proof (induction xs)
  case (Cons x xs)
  then have "filter (\<lambda>y. g y \<noteq> g x) xs = xs"
    by (intro filter_True) (auto simp: image_iff)
  with Cons show ?case by simp
qed simp

subsection \<open>A sequence of bounded insertions\<close>

locale bounded_insertion =
  fixes key :: "'a \<Rightarrow> int"
    and ident :: "'a \<Rightarrow> 'i"
    and cap :: nat
  assumes key_ident: "ident x = ident y \<Longrightarrow> key x = key y"
begin

lemma dropped_again:
  assumes srt: "sorted (map key S)" and x: "ident x \<in> ident ` set S"
    and out: "ident x \<notin> ident ` set (take cap S)"
  shows "take cap (ins_after key x (take cap S)) = take cap S"
proof -
  obtain y where y: "y \<in> set S" "ident y = ident x" using x by auto
  have drop: "y \<in> set (drop cap S)"
    using y out by (metis Un_iff append_take_drop_id image_eqI set_append)
  then have full: "length (take cap S) = cap" by (cases "cap \<le> length S") auto
  have "sorted (map key (take cap S @ drop cap S))" using srt by simp
  then have "\<forall>z \<in> set (take cap S). key z \<le> key y"
    using drop by (simp only: map_append sorted_append) simp
  then have "ins_after key x (take cap S) = take cap S @ [x]"
    using key_ident [OF y(2)] by (intro ins_after_last) simp
  with full show ?thesis by simp
qed

lemma add_spec_step:
  "add_spec key ident cap x (take cap (sort_key key (first_by ident xs))) =
     take cap (sort_key key (first_by ident (xs @ [x])))"
proof -
  let ?S = "sort_key key (first_by ident xs)"
  have ids: "ident ` set ?S = ident ` set xs" by simp
  consider (here) "ident x \<in> ident ` set (take cap ?S)"
    | (dropped) "ident x \<in> ident ` set ?S" "ident x \<notin> ident ` set (take cap ?S)"
    | (new) "ident x \<notin> ident ` set ?S" by blast
  then show ?thesis
  proof cases
    case here
    then have "ident x \<in> ident ` set ?S" by (meson image_mono set_take_subset subsetD)
    with here ids show ?thesis by (simp add: add_spec_def first_by_snoc)
  next
    case dropped
    then have "take cap (ins_after key x (take cap ?S)) = take cap ?S"
      by (intro dropped_again) auto
    with dropped ids show ?thesis by (simp add: add_spec_def first_by_snoc)
  next
    case new
    then have "ident x \<notin> ident ` set (take cap ?S)" by (meson image_mono set_take_subset subsetD)
    with new ids show ?thesis
      by (simp add: add_spec_def first_by_snoc take_ins_after_take ins_after_sort_key)
  qed
qed

lemma fold_add_spec:
  "foldl (\<lambda>acc x. add_spec key ident cap x acc) [] xs =
     take cap (sort_key key (first_by ident xs))"
  by (induction xs rule: rev_induct) (simp_all add: add_spec_step)

lemma add_spec_sorted:
  "sorted (map key ys) \<Longrightarrow> sorted (map key (add_spec key ident cap x ys))"
  by (simp add: add_spec_def sorted_ins_after sorted_map_take)

lemma add_spec_distinct:
  "distinct (map ident ys) \<Longrightarrow> distinct (map ident (add_spec key ident cap x ys))"
proof -
  assume d: "distinct (map ident ys)"
  then show ?thesis by (simp add: add_spec_def distinct_map_take distinct_ins_after)
qed

lemma add_spec_length: "length ys \<le> cap \<Longrightarrow> length (add_spec key ident cap x ys) \<le> cap"
  by (simp add: add_spec_def)

text \<open>What is left out is never closer than what is kept.\<close>

lemma kept_closer:
  assumes "x \<in> set (take cap (sort_key key xs))" "y \<in> set xs"
    and "y \<notin> set (take cap (sort_key key xs))"
  shows "key x \<le> key y"
proof -
  have "y \<in> set (sort_key key xs)" using assms(2) by simp
  with assms(3) have "y \<in> set (drop cap (sort_key key xs))"
    by (metis Un_iff append_take_drop_id set_append)
  moreover have "sorted (map key (take cap (sort_key key xs) @ drop cap (sort_key key xs)))" by simp
  ultimately show ?thesis
    using assms(1) by (simp only: map_append sorted_append) simp
qed

end

subsection \<open>A potential that insertions do not raise\<close>

text \<open>
  Every element counts its key and a surcharge of at most 1, and every free place counts \<open>N\<close>, more than any
  element. An insertion fills a free place or drops an element with a strictly larger key, so the total does not
  grow: a bound on how many new elements a sequence of insertions can bring in.
\<close>

definition credit :: "('a \<Rightarrow> int) \<Rightarrow> ('a \<Rightarrow> int) \<Rightarrow> nat \<Rightarrow> int \<Rightarrow> 'a list \<Rightarrow> int" where
  "credit f u n N ys = sum_list (map (\<lambda>y. f y + u y) ys) + (int n - int (length ys)) * N"

lemma credit_nonneg:
  "\<forall>y \<in> set ys. 0 \<le> f y + u y \<Longrightarrow> length ys \<le> n \<Longrightarrow> 0 \<le> N \<Longrightarrow> 0 \<le> credit f u n N ys"
  unfolding credit_def by (intro add_nonneg_nonneg sum_list_nonneg mult_nonneg_nonneg) auto

lemma split_first_greater:
  obtains "\<forall>y \<in> set ys. f y \<le> (f x :: int)"
  | as z bs where "ys = as @ z # bs" "\<forall>y \<in> set as. f y \<le> f x" "f x < f z"
proof (cases "\<forall>y \<in> set ys. f y \<le> f x")
  case False
  then obtain as z bs where "ys = as @ z # bs" "\<not> f z \<le> f x" "\<forall>y \<in> set as. \<not> \<not> f y \<le> f x"
    using split_list_first_prop [of ys "\<lambda>y. \<not> f y \<le> f x"] by blast
  then show thesis by (intro that(2)) auto
qed (use that in blast)

lemma sum_ins_after: "sum_list (map w (ins_after f x ys)) = w x + sum_list (map (w :: 'a \<Rightarrow> int) ys)"
  by (induction ys) auto

lemma sum_list_less_by_one:
  "\<forall>y \<in> set ys. w' y \<le> w y \<Longrightarrow> c \<in> set ys \<Longrightarrow> w' c + 1 \<le> (w c :: int) \<Longrightarrow>
     sum_list (map w' ys) + 1 \<le> sum_list (map w ys)"
proof (induction ys)
  case (Cons y ys)
  have le: "sum_list (map w' ys) \<le> sum_list (map w ys)"
    using Cons.prems(1) by (intro sum_list_mono) auto
  show ?case
  proof (cases "y = c")
    case True
    with le Cons.prems(3) show ?thesis by simp
  next
    case False
    with Cons have "sum_list (map w' ys) + 1 \<le> sum_list (map w ys)" "w' y \<le> w y" by auto
    then show ?thesis by simp
  qed
qed simp

lemma credit_less_by_one:
  "\<forall>y \<in> set ys. u' y \<le> u y \<Longrightarrow> c \<in> set ys \<Longrightarrow> u' c + 1 \<le> (u c :: int) \<Longrightarrow>
     credit f u' n N ys + 1 \<le> credit f u n N ys"
  using sum_list_less_by_one [of ys "\<lambda>y. f y + u' y" "\<lambda>y. f y + u y" c] by (simp add: credit_def)

lemma credit_ins_after:
  assumes srt: "sorted (map f ys)" and len: "length ys \<le> n"
    and u: "\<forall>y \<in> set (x # ys). 0 \<le> u y \<and> u y \<le> 1" and x: "f x + u x \<le> N"
  shows "credit f u n N (take n (ins_after f x ys)) \<le> credit f u n N ys"
proof (cases "length ys < n")
  case True
  with sum_ins_after [of _ f x ys] x show ?thesis by (simp add: credit_def algebra_simps)
next
  case False
  then have n: "n = length ys" using len by simp
  show ?thesis
  proof (cases ys f x rule: split_first_greater)
    case 1
    then have "take n (ins_after f x ys) = ys" by (simp add: ins_after_last n)
    then show ?thesis by simp
  next
    case (2 as z bs)
    let ?cs = "z # bs"
    have ins: "ins_after f x ys = as @ x # ?cs" using 2 by (simp add: ins_after_split)
    have tk: "take n (ins_after f x ys) = as @ x # butlast ?cs"
      unfolding ins n using 2(1) by (simp add: butlast_conv_take)
    have cs: "?cs = butlast ?cs @ [last ?cs]" by simp
    have "sum_list (map (\<lambda>y. f y + u y) ?cs) =
        sum_list (map (\<lambda>y. f y + u y) (butlast ?cs)) + (f (last ?cs) + u (last ?cs))"
      by (subst cs) (simp only: map_append sum_list_append, simp)
    moreover have "f x < f (last ?cs)"
      using srt 2(1,3) by (cases bs rule: rev_cases) (auto simp: sorted_append)
    moreover have "last ?cs \<in> set ys" unfolding 2(1) using last_in_set [of ?cs] by auto
    then have "u x \<le> 1" "0 \<le> u (last ?cs)" using u by auto
    ultimately show ?thesis
      unfolding credit_def tk using 2(1) by (simp add: n del: last.simps butlast.simps)
  qed
qed

lemma credit_add_spec:
  assumes "sorted (map f ys)" "length ys \<le> n" "\<And>y. 0 \<le> u y \<and> u y \<le> 1" "f x + u x \<le> N"
  shows "credit f u n N (add_spec f g n x ys) \<le> credit f u n N ys"
  using credit_ins_after [OF assms(1,2), of x u N] assms(3,4) by (simp add: add_spec_def)

end
