(* ===== verification/Contact_Sorter.thy ===== *)
theory Contact_Sorter
  imports Node_Id Bounded_Insertion
begin

text \<open>
  Contacts and the contact sorter (\<open>src/kademlia/contact.go\<close>). The sorter is a fixed array of
  \<open>k\<close> contacts of which the first \<open>Length\<close> are in use; \<open>Add\<close> is the code's loop, with its
  scan for duplicates, its append at the end and its shift by \<open>copy\<close>. The invariant
  \<open>wf_sorter\<close> holds after every operation; \<open>active\<close> is the part in use, and on it one step of
  \<open>Add\<close> is \<open>add_spec\<close>, so that the library of \<open>Bounded_Insertion\<close> gives the result of any
  sequence of additions. The mutex of the code makes each call atomic; \<open>Print\<close> (logging)
  is not modelled.
\<close>

record Contact =
  ID :: NodeId
  IP :: bytes
  Port :: int

definition zero_Contact :: Contact where
  "zero_Contact = \<lparr>ID = zero_id, IP = [], Port = 0\<rparr>"

record ContactSorter =
  TargetID :: NodeId
  cs_Contacts :: "Contact list"
  Length :: nat

definition NewContactSorter :: "NodeId \<Rightarrow> ContactSorter" where
  "NewContactSorter targetID =
     \<lparr>TargetID = targetID, cs_Contacts = replicate k_size zero_Contact, Length = 0\<rparr>"

text \<open>\<open>xs[lo:hi]\<close>, and \<open>copy(xs[off:], src)\<close> on the array \<open>xs\<close>.\<close>

definition slice :: "nat \<Rightarrow> nat \<Rightarrow> 'a list \<Rightarrow> 'a list" where
  "slice lo hi xs = take (hi - lo) (drop lo xs)"

definition go_copy :: "nat \<Rightarrow> 'a list \<Rightarrow> 'a list \<Rightarrow> 'a list" where
  "go_copy off src xs =
     (let n = min (length xs - off) (length src) in take off xs @ take n src @ drop (off + n) xs)"

function insert_loop :: "Contact \<Rightarrow> int \<Rightarrow> nat \<Rightarrow> ContactSorter \<Rightarrow> ContactSorter" where
  "insert_loop contact dist i cs =
     (if i < Length cs then
        if dist < XorDistance (ID (cs_Contacts cs ! i)) (TargetID cs) then
          let cs = (if Length cs = k_size
                    then cs\<lparr>cs_Contacts :=
                      go_copy (i + 1) (slice i (Length cs - 1) (cs_Contacts cs)) (cs_Contacts cs)\<rparr>
                    else cs\<lparr>cs_Contacts :=
                      go_copy (i + 1) (slice i (Length cs) (cs_Contacts cs)) (cs_Contacts cs),
                      Length := Length cs + 1\<rparr>)
          in cs\<lparr>cs_Contacts := (cs_Contacts cs)[i := contact]\<rparr>
        else insert_loop contact dist (i + 1) cs
      else cs)"
  by pat_completeness auto
termination
  by (relation "measure (\<lambda>(_, _, i, cs). Length cs - i)") auto

declare insert_loop.simps [simp del]

definition add_one :: "ContactSorter \<Rightarrow> Contact \<Rightarrow> ContactSorter" where
  "add_one cs contact =
     (if Length cs = 0 then
        cs\<lparr>cs_Contacts := (cs_Contacts cs)[0 := contact], Length := Length cs + 1\<rparr>
      else if list_ex (\<lambda>i. ID contact = ID (cs_Contacts cs ! i)) [0..<Length cs] then cs
      else
        let dist = XorDistance (ID contact) (TargetID cs) in
        if dist \<ge> XorDistance (ID (cs_Contacts cs ! (Length cs - 1))) (TargetID cs) then
          if Length cs = k_size then cs
          else cs\<lparr>cs_Contacts := (cs_Contacts cs)[Length cs := contact], Length := Length cs + 1\<rparr>
        else insert_loop contact dist 0 cs)"

definition Add :: "ContactSorter \<Rightarrow> Contact list \<Rightarrow> ContactSorter" where
  "Add cs c = foldl add_one cs c"

text \<open>
  \<open>Get\<close> and \<open>Swap\<close> index the array and panic outside it.
\<close>

definition Get :: "ContactSorter \<Rightarrow> nat \<Rightarrow> Contact outcome" where
  "Get cs i = (if i < length (cs_Contacts cs) then Ok (cs_Contacts cs ! i) else Panic)"

definition Len :: "ContactSorter \<Rightarrow> nat" where
  "Len cs = Length cs"

definition Swap :: "ContactSorter \<Rightarrow> nat \<Rightarrow> nat \<Rightarrow> ContactSorter outcome" where
  "Swap cs i j =
     (if i < length (cs_Contacts cs) \<and> j < length (cs_Contacts cs)
      then Ok (cs\<lparr>cs_Contacts := (cs_Contacts cs)[i := cs_Contacts cs ! j, j := cs_Contacts cs ! i]\<rparr>)
      else Panic)"

fun Less_loop :: "bytes \<Rightarrow> bytes \<Rightarrow> bytes \<Rightarrow> bool" where
  "Less_loop (x # a) (y # b) (t # target) =
     (let distI = x XOR t; distJ = y XOR t in
      if distI < distJ then True
      else if distI > distJ then False
      else Less_loop a b target)"
| "Less_loop _ _ _ = False"

definition Less :: "ContactSorter \<Rightarrow> nat \<Rightarrow> nat \<Rightarrow> bool outcome" where
  "Less cs i j =
     (if i < length (cs_Contacts cs) \<and> j < length (cs_Contacts cs)
      then Ok (Less_loop (id_bytes (ID (cs_Contacts cs ! i))) (id_bytes (ID (cs_Contacts cs ! j)))
                 (id_bytes (TargetID cs)))
      else Panic)"

subsection \<open>The part in use and the invariant\<close>

definition active :: "ContactSorter \<Rightarrow> Contact list" where
  "active cs = take (Length cs) (cs_Contacts cs)"

definition dist_to :: "NodeId \<Rightarrow> Contact \<Rightarrow> int" where
  "dist_to t c = XorDistance (ID c) t"

definition wf_sorter :: "ContactSorter \<Rightarrow> bool" where
  "wf_sorter cs \<longleftrightarrow> length (cs_Contacts cs) = k_size \<and> Length cs \<le> k_size \<and>
     sorted (map (dist_to (TargetID cs)) (active cs)) \<and> distinct (map ID (active cs))"

interpretation sorter: bounded_insertion "dist_to t" ID n for t n
  by unfold_locales (simp add: dist_to_def)

lemma length_active [simp]: "wf_sorter cs \<Longrightarrow> length (active cs) = Length cs"
  by (simp add: wf_sorter_def active_def)

lemma nth_active: "i < Length cs \<Longrightarrow> active cs ! i = cs_Contacts cs ! i"
  by (simp add: active_def)

lemma active_New [simp]: "active (NewContactSorter t) = []"
  by (simp add: active_def NewContactSorter_def)

lemma TargetID_New [simp]: "TargetID (NewContactSorter t) = t"
  by (simp add: NewContactSorter_def)

lemma wf_New [simp]: "wf_sorter (NewContactSorter t)"
  unfolding wf_sorter_def by (simp, simp add: NewContactSorter_def)

subsection \<open>The shift\<close>

lemma shift_append:
  assumes "m \<le> length bs"
  shows "(go_copy (length as + 1) (slice (length as) (length as + m) (as @ b # bs)) (as @ b # bs))[length as := c] =
    as @ c # take m (b # bs) @ drop m bs"
  using assms by (simp add: go_copy_def slice_def Let_def min_def)

lemma length_go_copy [simp]: "off \<le> length xs \<Longrightarrow> length (go_copy off src xs) = length xs"
  by (auto simp: go_copy_def Let_def)

lemma insert_loop_wf_shape:
  "TargetID (insert_loop c d i cs) = TargetID cs"
  "length (cs_Contacts cs) = k_size \<Longrightarrow> Length cs \<le> k_size \<Longrightarrow>
     length (cs_Contacts (insert_loop c d i cs)) = k_size \<and> Length (insert_loop c d i cs) \<le> k_size"
proof (induction c d i cs rule: insert_loop.induct)
  case (1 contact dist i cs)
  { case 1
    with "1.IH"(1) show ?case
      by (subst insert_loop.simps) (simp add: Let_def)
  next
    case 2
    with "1.IH"(2) show ?case
      by (subst insert_loop.simps, subst (2) insert_loop.simps) (auto simp: Let_def)
  }
qed

text \<open>The step of the loop that inserts: position \<open>i\<close> is the first with a larger distance.\<close>

lemma insert_here:
  assumes wf: "wf_sorter cs" and i: "i < Length cs"
    and before: "\<forall>y \<in> set (take i (cs_Contacts cs)). dist_to (TargetID cs) y \<le> dist_to (TargetID cs) c"
    and here: "dist_to (TargetID cs) c < dist_to (TargetID cs) (cs_Contacts cs ! i)"
  shows "active (insert_loop c (dist_to (TargetID cs) c) i cs) =
    take k_size (ins_after (dist_to (TargetID cs)) c (active cs))"
proof -
  define as where "as = take i (cs_Contacts cs)"
  define b where "b = cs_Contacts cs ! i"
  define bs where "bs = drop (Suc i) (cs_Contacts cs)"
  have len: "length (cs_Contacts cs) = k_size" "Length cs \<le> k_size"
    using wf by (auto simp: wf_sorter_def)
  have arr: "cs_Contacts cs = as @ b # bs"
    using i len by (simp add: as_def b_def bs_def id_take_nth_drop)
  have las: "length as = i" using i len by (simp add: as_def)
  have lbs: "i + 1 + length bs = k_size" using len(1) arr las by simp
  have act: "active cs = as @ b # take (Length cs - i - 1) bs"
    using i las by (simp add: active_def arr take_Cons')
  have ins: "ins_after (dist_to (TargetID cs)) c (active cs) = as @ c # b # take (Length cs - i - 1) bs"
    unfolding act using before here by (intro ins_after_split) (simp_all add: as_def b_def)
  have d: "XorDistance (ID (cs_Contacts cs ! i)) (TargetID cs) = dist_to (TargetID cs) (cs_Contacts cs ! i)"
    by (simp add: dist_to_def)
  show ?thesis
  proof (cases "Length cs = k_size")
    case True
    have "i + length bs = Length cs - 1" using True lbs by simp
    with shift_append [of "length bs" bs as b c] las arr
    have "(go_copy (i + 1) (slice i (Length cs - 1) (cs_Contacts cs)) (cs_Contacts cs))[i := c] =
        as @ c # take (length bs) (b # bs)" by simp
    then show ?thesis
      using i here True lbs las unfolding ins
      by (subst insert_loop.simps) (auto simp: d Let_def active_def take_Cons')
  next
    case False
    have m: "Length cs - i \<le> length bs" using False lbs len by simp
    with shift_append [of "Length cs - i" bs as b c] las arr i
    have "(go_copy (i + 1) (slice i (Length cs) (cs_Contacts cs)) (cs_Contacts cs))[i := c] =
        as @ c # take (Length cs - i) (b # bs) @ drop (Length cs - i) bs" by simp
    moreover have "k_size \<ge> Length cs + 1" using False len by simp
    ultimately show ?thesis
      using i here False las m unfolding ins
      by (subst insert_loop.simps) (simp add: d Let_def active_def take_Cons' Suc_diff_le)
  qed
qed

lemma insert_loop_active:
  assumes "wf_sorter cs" "i \<le> j" "j < Length cs"
    and "\<forall>y \<in> set (take i (cs_Contacts cs)). dist_to (TargetID cs) y \<le> dist_to (TargetID cs) c"
    and "dist_to (TargetID cs) c < dist_to (TargetID cs) (cs_Contacts cs ! j)"
  shows "active (insert_loop c (dist_to (TargetID cs) c) i cs) =
    take k_size (ins_after (dist_to (TargetID cs)) c (active cs))"
  using assms
proof (induction "j - i" arbitrary: i)
  case 0
  then show ?case by (intro insert_here) auto
next
  case (Suc n)
  then have i: "i < Length cs" by linarith
  show ?case
  proof (cases "dist_to (TargetID cs) c < dist_to (TargetID cs) (cs_Contacts cs ! i)")
    case True
    with Suc.prems i show ?thesis by (intro insert_here) auto
  next
    case False
    have "i < length (cs_Contacts cs)" using i Suc.prems(1) by (auto simp: wf_sorter_def)
    then have "take (i + 1) (cs_Contacts cs) = take i (cs_Contacts cs) @ [cs_Contacts cs ! i]"
      by (simp add: take_Suc_conv_app_nth)
    then have "\<forall>y \<in> set (take (i + 1) (cs_Contacts cs)).
        dist_to (TargetID cs) y \<le> dist_to (TargetID cs) c"
      using Suc.prems(4) False by auto
    moreover have "i + 1 \<le> j" "n = j - (i + 1)" using Suc.hyps(2) by linarith+
    ultimately have "active (insert_loop c (dist_to (TargetID cs) c) (i + 1) cs) =
        take k_size (ins_after (dist_to (TargetID cs)) c (active cs))"
      using Suc.prems by (intro Suc.hyps(1)) auto
    moreover have "insert_loop c (dist_to (TargetID cs) c) i cs =
        insert_loop c (dist_to (TargetID cs) c) (i + 1) cs"
      using False i by (subst insert_loop.simps) (simp add: dist_to_def)
    ultimately show ?thesis by simp
  qed
qed

subsection \<open>One addition refines the specification\<close>

lemma dup_iff:
  "wf_sorter cs \<Longrightarrow> list_ex (\<lambda>i. ID c = ID (cs_Contacts cs ! i)) [0..<Length cs] \<longleftrightarrow>
     ID c \<in> ID ` set (active cs)"
  by (auto simp: list_ex_iff set_conv_nth nth_active image_iff)

lemma add_one_active:
  assumes wf: "wf_sorter cs"
  shows "active (add_one cs c) = add_spec (dist_to (TargetID cs)) ID k_size c (active cs)"
proof -
  let ?d = "dist_to (TargetID cs)"
  have len: "length (cs_Contacts cs) = k_size" "Length cs \<le> k_size" and k: "0 < k_size"
    using wf by (auto simp: wf_sorter_def k_size_def)
  consider (empty) "Length cs = 0"
    | (dup) "0 < Length cs" "ID c \<in> ID ` set (active cs)"
    | (new) "0 < Length cs" "ID c \<notin> ID ` set (active cs)" by blast
  then show ?thesis
  proof cases
    case empty
    then show ?thesis using len k
      by (simp add: add_one_def active_def add_spec_def take_Suc_conv_app_nth)
  next
    case dup
    then show ?thesis using dup_iff [OF wf, of c] by (simp add: add_one_def add_spec_def)
  next
    case new
    define l where "l = cs_Contacts cs ! (Length cs - 1)"
    have ne: "active cs \<noteq> []" using new(1) length_active [OF wf] by auto
    then have last: "active cs \<noteq> []" "last (active cs) = l"
      using new(1) length_active [OF wf] by (simp_all add: last_conv_nth nth_active l_def)
    have le_last: "\<forall>y \<in> set (active cs). ?d y \<le> ?d l"
    proof
      fix y assume "y \<in> set (active cs)"
      have "sorted (map ?d (butlast (active cs) @ [l]))"
        using wf last by (metis append_butlast_last_id wf_sorter_def)
      moreover have "y \<in> set (butlast (active cs)) \<or> y = l"
        using \<open>y \<in> set (active cs)\<close> last
        by (metis append_butlast_last_id in_set_conv_decomp_last set_ConsD rotate1.simps(2) set_rotate1)
      ultimately show "?d y \<le> ?d l" by (auto simp: sorted_append)
    qed
    show ?thesis
    proof (cases "?d c \<ge> ?d l")
      case True
      then have ins: "ins_after ?d c (active cs) = active cs @ [c]"
        using le_last by (intro ins_after_last) force
      show ?thesis
        using True new ins len dup_iff [OF wf, of c] length_active [OF wf]
        by (auto simp: add_one_def add_spec_def Let_def dist_to_def l_def active_def
            take_Suc_conv_app_nth)
    next
      case False
      then have "active (insert_loop c (?d c) 0 cs) = take k_size (ins_after ?d c (active cs))"
        using new(1) wf by (intro insert_loop_active [of _ _ "Length cs - 1"]) (auto simp: l_def)
      with False new dup_iff [OF wf, of c] show ?thesis
        by (simp add: add_one_def add_spec_def Let_def dist_to_def l_def)
    qed
  qed
qed

lemma add_one_TargetID [simp]: "TargetID (add_one cs c) = TargetID cs"
  by (simp add: add_one_def Let_def insert_loop_wf_shape(1))

lemma add_one_wf: "wf_sorter cs \<Longrightarrow> wf_sorter (add_one cs c)"
proof -
  assume wf: "wf_sorter cs"
  then have len: "length (cs_Contacts cs) = k_size" "Length cs \<le> k_size"
    by (auto simp: wf_sorter_def)
  have "length (cs_Contacts (add_one cs c)) = k_size \<and> Length (add_one cs c) \<le> k_size"
    using len insert_loop_wf_shape(2) [of cs c _ 0]
    by (auto simp: add_one_def Let_def k_size_def)
  with wf show ?thesis
    using sorter.add_spec_sorted sorter.add_spec_distinct
    by (simp add: wf_sorter_def [of "add_one cs c"] add_one_active) (auto simp: wf_sorter_def)
qed

lemma Add_simps [simp]:
  "Add cs [] = cs" "Add cs (c # xs) = Add (add_one cs c) xs"
  by (simp_all add: Add_def)

lemma Add_wf: "wf_sorter cs \<Longrightarrow> wf_sorter (Add cs xs) \<and> TargetID (Add cs xs) = TargetID cs"
  by (induction xs arbitrary: cs) (auto simp: add_one_wf)

lemma Add_active:
  "wf_sorter cs \<Longrightarrow> active (Add cs xs) =
     foldl (\<lambda>acc c. add_spec (dist_to (TargetID cs)) ID k_size c acc) (active cs) xs"
  by (induction xs arbitrary: cs) (auto simp: add_one_wf add_one_active)

subsection \<open>The comparison of the sort interface\<close>

lemma be_val_Cons_less_iff:
  assumes "length xs = length ys"
  shows "be_val (x # xs) < be_val (y # ys) \<longleftrightarrow> x < y \<or> (x = y \<and> be_val xs < be_val ys)"
proof -
  have "be_val (a # as) < be_val (b # bs)" if "a < b" "length as = length bs" for a b as bs
  proof -
    have "be_val (a # as) < (unat a + 1) * 256 ^ length as"
      using be_val_less [of as] by simp
    also have "\<dots> \<le> unat b * 256 ^ length as"
      using that(1) by (intro mult_le_mono1) (simp add: word_less_nat_alt)
    also have "\<dots> \<le> be_val (b # bs)" using that(2) by simp
    finally show ?thesis .
  qed
  from this [of x y xs ys] this [of y x ys xs] show ?thesis
    using assms by (cases x y rule: linorder_cases) auto
qed

lemma Less_loop_iff:
  assumes "length a = length b" "length b = length t"
  shows "Less_loop a b t \<longleftrightarrow> be_val (map2 (XOR) a t) < be_val (map2 (XOR) b t)"
  using assms
proof (induction a b t rule: list_induct3)
  case (Cons x a y b z t)
  then have "length (map2 (XOR) a t) = length (map2 (XOR) b t)" by simp
  from be_val_Cons_less_iff [OF this] Cons show ?case
    by (auto simp: Let_def)
qed simp

lemma Less_eq:
  "i < length (cs_Contacts cs) \<Longrightarrow> j < length (cs_Contacts cs) \<Longrightarrow>
     Less cs i j = Ok (xor_val (ID (cs_Contacts cs ! i)) (TargetID cs)
                       < xor_val (ID (cs_Contacts cs ! j)) (TargetID cs))"
  by (simp add: Less_def Less_loop_iff be_val_map2_xor xor_val_def id_nat_def)

subsection \<open>Properties\<close>

text \<open>
  C3. The sorter computes what its documentation promises up to the coarse distance: whatever
  contacts are added and in whatever order, the part in use is the first \<open>k\<close> contacts of a
  stable sort by \<open>XorDistance\<close> to the target, each identifier taken at its first occurrence.
\<close>

theorem Add_reference:
  "active (Add (NewContactSorter t) xs) = take k_size (sort_key (dist_to t) (first_by ID xs))"
  by (simp add: Add_active sorter.fold_add_spec)

text \<open>
  Every addition keeps the sorter well formed: the array has \<open>k\<close> slots, at most \<open>k\<close> are in use,
  they are sorted by distance to the target and no identifier occurs twice.
\<close>

theorem Add_invariant: "wf_sorter cs \<Longrightarrow> wf_sorter (Add cs xs)"
  by (simp add: Add_wf)

theorem Add_invariant_witness:
  "wf_sorter (NewContactSorter zero_id) \<and>
   wf_sorter (Add (NewContactSorter zero_id) [\<lparr>ID = id_of_nat 5, IP = [], Port = 1\<rparr>, zero_Contact])"
  by (intro conjI wf_New Add_invariant)

text \<open>
  \<open>Less\<close> is the exact exclusive-or order that \<open>XorDistance\<close> approximates: on indices of the array
  it compares the exclusive-or distances to the target as 256-bit numbers, and it holds
  whenever \<open>XorDistance\<close> is strictly smaller.
\<close>

theorem Less_exact:
  assumes "i < length (cs_Contacts cs)" "j < length (cs_Contacts cs)"
  shows "Less cs i j = Ok (xor_val (ID (cs_Contacts cs ! i)) (TargetID cs)
                           < xor_val (ID (cs_Contacts cs ! j)) (TargetID cs)) \<and>
    (dist_to (TargetID cs) (cs_Contacts cs ! i) < dist_to (TargetID cs) (cs_Contacts cs ! j) \<longrightarrow>
       Less cs i j = Ok True)"
  using Less_eq [OF assms] XorDistance_less_imp_xor_val_less by (auto simp: dist_to_def)

theorem Less_exact_witness:
  "let cs = \<lparr>TargetID = id_of_nat 0,
             cs_Contacts = [\<lparr>ID = id_of_nat 5, IP = [], Port = 1\<rparr>, \<lparr>ID = id_of_nat 6, IP = [], Port = 2\<rparr>],
             Length = 2\<rparr>
   in Less cs 0 1 = Ok True \<and> Less cs 1 0 = Ok False"
proof -
  let ?cs = "\<lparr>TargetID = id_of_nat 0,
             cs_Contacts = [\<lparr>ID = id_of_nat 5, IP = [], Port = 1\<rparr>, \<lparr>ID = id_of_nat 6, IP = [], Port = 2\<rparr>],
             Length = 2\<rparr>"
  show ?thesis
    using Less_exact [of 0 ?cs 1] Less_exact [of 1 ?cs 0] by (simp add: xor_val_id_of_nat)
qed

end
