(* ===== verification/Routing_Table.thy ===== *)
theory Routing_Table
  imports Contact_Sorter
begin

text \<open>
  The routing table (\<open>src/kademlia/routingtable.go\<close>): 256 buckets, each a linked list of contacts with
  the most recently seen one in front, modelled as lists. The callback \<open>Ping\<close> is a parameter.
  \<open>Update\<close> is the whole call when nothing else touches the bucket; because the code releases
  the bucket's lock while it pings, \<open>rt_step\<close> describes the interleaving of calls: an update that
  must ping is two steps, with any steps of other calls in between.
\<close>

record RoutingTable =
  Buckets :: "Contact list list"
  SelfID :: NodeId

definition NewRoutingTable :: "NodeId \<Rightarrow> RoutingTable" where
  "NewRoutingTable selfID = \<lparr>Buckets = replicate (idLength * 8) [], SelfID = selfID\<rparr>"

definition GetBucketIndex :: "NodeId \<Rightarrow> NodeId \<Rightarrow> int" where
  "GetBucketIndex selfID targetID = XorDistance selfID targetID"

text \<open>\<open>MoveToFront\<close> of the first element with the identifier, as the scan of the code finds it.\<close>

definition move_to_front :: "NodeId \<Rightarrow> Contact list \<Rightarrow> Contact list" where
  "move_to_front i b =
     (case dropWhile (\<lambda>e. ID e \<noteq> i) b of
        [] \<Rightarrow> b
      | e # rest \<Rightarrow> e # takeWhile (\<lambda>e. ID e \<noteq> i) b @ rest)"

definition bucket_update :: "(Contact \<Rightarrow> bool) \<Rightarrow> Contact \<Rightarrow> Contact list \<Rightarrow> Contact list" where
  "bucket_update ping c b =
     (if list_ex (\<lambda>e. ID e = ID c) b then move_to_front (ID c) b
      else if length b = k_size then
        let leastRecentlySeenContact = last b;
            isAlive = ping leastRecentlySeenContact
        in if \<not> isAlive then c # butlast b else last b # butlast b
      else c # b)"

definition Update :: "(Contact \<Rightarrow> bool) \<Rightarrow> RoutingTable \<Rightarrow> Contact \<Rightarrow> RoutingTable" where
  "Update ping rt c =
     (let idx = GetBucketIndex (SelfID rt) (ID c) in
      if idx = -1 then rt
      else rt\<lparr>Buckets := (Buckets rt)[nat idx := bucket_update ping c (Buckets rt ! nat idx)]\<rparr>)"

fun bucket_remove :: "NodeId \<Rightarrow> Contact list \<Rightarrow> Contact list" where
  "bucket_remove i [] = []"
| "bucket_remove i (e # es) = (if ID e = i then es else e # bucket_remove i es)"

definition Remove :: "RoutingTable \<Rightarrow> Contact \<Rightarrow> RoutingTable" where
  "Remove rt c =
     (let idx = GetBucketIndex (SelfID rt) (ID c) in
      if idx = -1 then rt
      else rt\<lparr>Buckets := (Buckets rt)[nat idx := bucket_remove (ID c) (Buckets rt ! nat idx)]\<rparr>)"

definition FindClosest :: "RoutingTable \<Rightarrow> NodeId \<Rightarrow> nat \<Rightarrow> Contact list" where
  "FindClosest rt targetID cnt =
     (let contactSorter = foldl (\<lambda>cs bucket. foldl (\<lambda>cs e. Add cs [e]) cs bucket)
            (NewContactSorter targetID) (Buckets rt)
      in if Length contactSorter < cnt
         then take (Length contactSorter) (cs_Contacts contactSorter)
         else take cnt (cs_Contacts contactSorter))"

subsection \<open>Interleaved updates\<close>

text \<open>
  The two critical sections of \<open>Update\<close>. The first ends the call or gives the contact to ping; the
  second runs on the bucket as it is after the ping, and panics when it has become empty
  (\<open>Back()\<close> is nil then).
\<close>

datatype locked_result = Updated "Contact list" | NeedPing Contact

definition update_locked :: "Contact \<Rightarrow> Contact list \<Rightarrow> locked_result" where
  "update_locked c b =
     (if list_ex (\<lambda>e. ID e = ID c) b then Updated (move_to_front (ID c) b)
      else if length b = k_size then NeedPing (last b)
      else Updated (c # b))"

definition update_relocked :: "bool \<Rightarrow> Contact \<Rightarrow> Contact list \<Rightarrow> Contact list outcome" where
  "update_relocked isAlive c b =
     (if b = [] then Panic
      else if \<not> isAlive then Ok (c # butlast b)
      else Ok (last b # butlast b))"

record rt_sys =
  table :: RoutingTable
  pinging :: "(Contact \<times> Contact) list"

abbreviation bucket_of :: "RoutingTable \<Rightarrow> Contact \<Rightarrow> nat" where
  "bucket_of rt c \<equiv> nat (GetBucketIndex (SelfID rt) (ID c))"

abbreviation set_bucket :: "RoutingTable \<Rightarrow> nat \<Rightarrow> Contact list \<Rightarrow> RoutingTable" where
  "set_bucket rt i b \<equiv> rt\<lparr>Buckets := (Buckets rt)[i := b]\<rparr>"

inductive rt_step :: "rt_sys \<Rightarrow> rt_sys \<Rightarrow> bool" where
  update_now:
    "update_locked c (Buckets (table s) ! bucket_of (table s) c) = Updated b \<Longrightarrow>
     rt_step s (s\<lparr>table := set_bucket (table s) (bucket_of (table s) c) b\<rparr>)"
| update_ping:
    "update_locked c (Buckets (table s) ! bucket_of (table s) c) = NeedPing p \<Longrightarrow>
     rt_step s (s\<lparr>pinging := pinging s @ [(c, p)]\<rparr>)"
| update_end:
    "(c, p) \<in> set (pinging s) \<Longrightarrow>
     update_relocked isAlive c (Buckets (table s) ! bucket_of (table s) c) = Ok b \<Longrightarrow>
     rt_step s (s\<lparr>table := set_bucket (table s) (bucket_of (table s) c) b,
                  pinging := remove1 (c, p) (pinging s)\<rparr>)"
| remove:
    "rt_step s (s\<lparr>table := Remove (table s) c\<rparr>)"

subsection \<open>Invariants\<close>

text \<open>
  \<open>rt_placed\<close>: there are 256 buckets, none holds more than \<open>k\<close> contacts, and every contact is in the
  bucket of its distance to the node. \<open>wf_rt\<close> adds that no identifier occurs twice in a bucket.
\<close>

definition bucket_placed :: "NodeId \<Rightarrow> nat \<Rightarrow> Contact list \<Rightarrow> bool" where
  "bucket_placed self i b \<longleftrightarrow> length b \<le> k_size \<and> list_all (\<lambda>c. XorDistance self (ID c) = int i) b"

definition rt_placed :: "RoutingTable \<Rightarrow> bool" where
  "rt_placed rt \<longleftrightarrow> length (Buckets rt) = 256 \<and>
     (\<forall>i < 256. bucket_placed (SelfID rt) i (Buckets rt ! i))"

definition wf_rt :: "RoutingTable \<Rightarrow> bool" where
  "wf_rt rt \<longleftrightarrow> rt_placed rt \<and> (\<forall>i < 256. distinct (map ID (Buckets rt ! i)))"

definition contacts :: "RoutingTable \<Rightarrow> Contact list" where
  "contacts rt = concat (Buckets rt)"

lemma bucket_index_bounds: "nat (GetBucketIndex s t) < 256" "GetBucketIndex s t \<noteq> -1"
proof -
  have "0 \<le> GetBucketIndex s t" "GetBucketIndex s t < 256" by (simp_all add: GetBucketIndex_def)
  then show "nat (GetBucketIndex s t) < 256" "GetBucketIndex s t \<noteq> -1" by linarith+
qed

lemma bucket_index_eq: "int (nat (GetBucketIndex s t)) = XorDistance s t"
  by (simp add: GetBucketIndex_def)

lemma Update_eq:
  "Update ping rt c = set_bucket rt (bucket_of rt c) (bucket_update ping c (Buckets rt ! bucket_of rt c))"
  by (simp add: Update_def bucket_index_bounds Let_def)

lemma Remove_eq:
  "Remove rt c = set_bucket rt (bucket_of rt c) (bucket_remove (ID c) (Buckets rt ! bucket_of rt c))"
  by (simp add: Remove_def bucket_index_bounds Let_def)

lemma set_bucket_placed:
  "rt_placed rt \<Longrightarrow> bucket_placed (SelfID rt) i b \<Longrightarrow> rt_placed (set_bucket rt i b)"
  by (cases "i < 256") (auto simp: rt_placed_def nth_list_update)

lemma set_bucket_wf:
  "wf_rt rt \<Longrightarrow> bucket_placed (SelfID rt) i b \<Longrightarrow> distinct (map ID b) \<Longrightarrow> wf_rt (set_bucket rt i b)"
  using set_bucket_placed [of rt i b]
  by (cases "i < 256") (auto simp: wf_rt_def rt_placed_def nth_list_update)

lemma New_wf: "wf_rt (NewRoutingTable self)"
  by (simp add: wf_rt_def rt_placed_def NewRoutingTable_def idLength_def bucket_placed_def)

subsection \<open>One bucket\<close>

lemma move_to_front_cases:
  assumes "ID c \<in> ID ` set b"
  obtains e us vs where "b = us @ e # vs" "ID e = ID c" "ID c \<notin> ID ` set us"
    "move_to_front (ID c) b = e # us @ vs"
proof -
  obtain us e vs where s: "b = us @ e # vs" "ID e = ID c" "\<forall>u \<in> set us. ID u \<noteq> ID c"
    using assms split_list_first_prop [of b "\<lambda>e. ID e = ID c"] by (metis imageE)
  then have "move_to_front (ID c) b = e # us @ vs"
    by (simp add: move_to_front_def dropWhile_append2 takeWhile_append2)
  with s show thesis by (intro that [of us e vs]) auto
qed

lemma mset_move_to_front: "mset (move_to_front i b) = mset b"
proof (cases "dropWhile (\<lambda>e. ID e \<noteq> i) b")
  case (Cons e rest)
  then have "b = takeWhile (\<lambda>e. ID e \<noteq> i) b @ e # rest"
    by (metis takeWhile_dropWhile_id)
  then have "mset b = mset (takeWhile (\<lambda>e. ID e \<noteq> i) b @ e # rest)" by simp
  with Cons show ?thesis by (simp add: move_to_front_def)
qed (simp add: move_to_front_def del: dropWhile_eq_Nil_conv)

lemma move_to_front_simps [simp]:
  "set (move_to_front i b) = set b" "length (move_to_front i b) = length b"
  "distinct (map ID (move_to_front i b)) = distinct (map ID b)"
  using mset_move_to_front [of i b] mset_map [of ID "move_to_front i b"] mset_map [of ID b]
  by (metis set_mset_mset, metis size_mset, metis mset_eq_imp_distinct_iff)

lemma list_ex_ID: "list_ex (\<lambda>e. ID e = ID c) b \<longleftrightarrow> ID c \<in> ID ` set b"
  by (induction b) (simp_all, metis)

lemma set_bucket_remove: "set (bucket_remove i b) \<subseteq> set b"
  by (induction b) auto

lemma length_bucket_remove: "length (bucket_remove i b) \<le> length b"
  by (induction b) auto

lemma distinct_bucket_remove: "distinct (map ID b) \<Longrightarrow> distinct (map ID (bucket_remove i b))"
proof (induction b)
  case (Cons e b)
  then show ?case using set_bucket_remove [of i b] by auto
qed simp

lemma butlast_last: "b \<noteq> [] \<Longrightarrow> b = butlast b @ [last b]"
  by simp

lemma distinct_map_butlast: "distinct (map ID b) \<Longrightarrow> distinct (map ID (butlast b))"
  by (simp add: map_butlast distinct_butlast)

lemma bucket_update_placed:
  assumes "bucket_placed self i b" "XorDistance self (ID c) = int i"
  shows "bucket_placed self i (bucket_update ping c b)"
proof (cases "b = []")
  case True
  with assms show ?thesis
    by (simp add: bucket_update_def bucket_placed_def k_size_def)
next
  case False
  then have "set (butlast b) \<subseteq> set b" "last b \<in> set b"
    by (auto dest: in_set_butlastD)
  with False assms show ?thesis
    by (auto simp: bucket_update_def bucket_placed_def list_all_iff Let_def k_size_def)
qed

lemma bucket_update_distinct:
  assumes "distinct (map ID b)" "bucket_placed self i b"
  shows "distinct (map ID (bucket_update ping c b))"
proof (cases "b = []")
  case False
  then have "distinct (map ID (butlast b @ [last b]))" using assms by simp
  then have "ID (last b) \<notin> ID ` set (butlast b)" "distinct (map ID (butlast b))" by auto
  moreover have "ID c \<notin> ID ` set b \<Longrightarrow> ID c \<notin> ID ` set (butlast b)"
    by (auto dest: in_set_butlastD)
  ultimately show ?thesis
    using assms by (simp add: bucket_update_def list_ex_ID Let_def)
qed (simp add: bucket_update_def k_size_def)

lemma bucket_update_live:
  assumes "x \<in> set b" "ping x"
  shows "x \<in> set (bucket_update ping c b)"
proof -
  have "set b = insert (last b) (set (butlast b))"
    using assms(1) by (metis butlast_last empty_iff list.set(1) rotate1.simps(2) set_rotate1 list.simps(15))
  with assms show ?thesis
    by (auto simp: bucket_update_def Let_def)
qed

lemma bucket_update_two_phases:
  "bucket_update ping c b =
     (case update_locked c b of
        Updated b' \<Rightarrow> b'
      | NeedPing p \<Rightarrow> (case update_relocked (ping p) c b of Ok b' \<Rightarrow> b' | _ \<Rightarrow> b))"
  by (auto simp: bucket_update_def update_locked_def update_relocked_def Let_def k_size_def)

subsection \<open>The table\<close>

lemma rt_placed_bucket:
  "rt_placed rt \<Longrightarrow> bucket_placed (SelfID rt) (bucket_of rt c) (Buckets rt ! bucket_of rt c)"
  by (simp add: rt_placed_def bucket_index_bounds)

lemma Update_placed: "rt_placed rt \<Longrightarrow> rt_placed (Update ping rt c)"
  unfolding Update_eq
  by (intro set_bucket_placed bucket_update_placed rt_placed_bucket) (simp_all only: bucket_index_eq)

lemma wf_rt_bucket:
  "wf_rt rt \<Longrightarrow> bucket_placed (SelfID rt) (bucket_of rt c) (Buckets rt ! bucket_of rt c) \<and>
     distinct (map ID (Buckets rt ! bucket_of rt c))"
  by (simp add: wf_rt_def rt_placed_bucket bucket_index_bounds)

lemma Update_wf:
  assumes "wf_rt rt"
  shows "wf_rt (Update ping rt c)"
  unfolding Update_eq
proof (rule set_bucket_wf [OF assms])
  show "bucket_placed (SelfID rt) (bucket_of rt c) (bucket_update ping c (Buckets rt ! bucket_of rt c))"
    using wf_rt_bucket [OF assms, of c] bucket_index_eq [of "SelfID rt" "ID c"]
    by (intro bucket_update_placed) simp_all
  show "distinct (map ID (bucket_update ping c (Buckets rt ! bucket_of rt c)))"
    using wf_rt_bucket [OF assms, of c] by (metis bucket_update_distinct)
qed

lemma Remove_wf: "wf_rt rt \<Longrightarrow> wf_rt (Remove rt c)"
proof -
  assume wf: "wf_rt rt"
  let ?b = "Buckets rt ! bucket_of rt c"
  have "bucket_placed (SelfID rt) (bucket_of rt c) ?b" "distinct (map ID ?b)"
    using wf by (auto simp: wf_rt_def rt_placed_bucket bucket_index_bounds)
  then have "bucket_placed (SelfID rt) (bucket_of rt c) (bucket_remove (ID c) ?b)"
    using set_bucket_remove [of "ID c" ?b] length_bucket_remove [of "ID c" ?b]
    by (auto simp: bucket_placed_def list_all_iff)
  with wf \<open>distinct (map ID ?b)\<close> show ?thesis
    unfolding Remove_eq by (intro set_bucket_wf distinct_bucket_remove)
qed

lemma Update_SelfID [simp]: "SelfID (Update ping rt c) = SelfID rt"
  and Remove_SelfID [simp]: "SelfID (Remove rt c) = SelfID rt"
  by (simp_all add: Update_eq Remove_eq)

lemma in_contacts_iff: "length (Buckets rt) = 256 \<Longrightarrow>
    x \<in> set (contacts rt) \<longleftrightarrow> (\<exists>i < 256. x \<in> set (Buckets rt ! i))"
  by (auto simp: contacts_def set_conv_nth [of "Buckets rt"])

lemma FindClosest_sorter:
  "foldl (\<lambda>cs bucket. foldl (\<lambda>cs e. Add cs [e]) cs bucket) cs bs = Add cs (concat bs)"
  by (induction bs arbitrary: cs) (simp_all add: Add_def)

lemma take_sorter:
  "wf_sorter cs \<Longrightarrow>
   (if Length cs < n then take (Length cs) (cs_Contacts cs) else take n (cs_Contacts cs)) =
     take n (active cs)"
  by (auto simp: active_def min_def)

lemma FindClosest_eq:
  "FindClosest rt t n = take n (take k_size (sort_key (dist_to t) (first_by ID (contacts rt))))"
proof -
  let ?cs = "Add (NewContactSorter t) (contacts rt)"
  have "wf_sorter ?cs" by (simp add: Add_wf)
  moreover have "active ?cs = take k_size (sort_key (dist_to t) (first_by ID (contacts rt)))"
    by (simp add: Add_active sorter.fold_add_spec)
  ultimately show ?thesis
    unfolding FindClosest_def Let_def FindClosest_sorter contacts_def [symmetric]
    by (simp only: take_sorter)
qed

lemma distinct_map_concat_index:
  assumes "\<And>i. i < length bs \<Longrightarrow> distinct (map f (bs ! i))"
    and "\<And>i x. i < length bs \<Longrightarrow> x \<in> set (bs ! i) \<Longrightarrow> g (f x) = int (i + off)"
  shows "distinct (map f (concat bs))"
  using assms
proof (induction bs arbitrary: off)
  case (Cons b bs)
  have tl: "distinct (map f (bs ! i))" "x \<in> set (bs ! i) \<Longrightarrow> g (f x) = int (i + Suc off)"
    if "i < length bs" for i x
    using Cons.prems(1) [of "Suc i"] Cons.prems(2) [of "Suc i" x] that by auto
  then have IH: "distinct (map f (concat bs))" by (rule Cons.IH)
  have "g (f x) = int off" if "x \<in> set b" for x using Cons.prems(2) [of 0 x] that by simp
  moreover have "g (f x) > int off" if "x \<in> set (concat bs)" for x
    using that tl(2) by (fastforce simp: in_set_conv_nth [of _ bs])
  ultimately have "f ` set b \<inter> f ` set (concat bs) = {}" by fastforce
  with IH Cons.prems(1) [of 0] show ?case by auto
qed simp

lemma wf_rt_distinct: "wf_rt rt \<Longrightarrow> distinct (map ID (contacts rt))"
  unfolding contacts_def
  by (rule distinct_map_concat_index [where g = "XorDistance (SelfID rt)" and off = 0])
    (auto simp: wf_rt_def rt_placed_def bucket_placed_def list_all_iff)

lemma FindClosest_wf:
  "wf_rt rt \<Longrightarrow> n \<le> k_size \<Longrightarrow> FindClosest rt t n = take n (sort_key (dist_to t) (contacts rt))"
  by (simp add: FindClosest_eq first_by_distinct wf_rt_distinct min_def)

lemma concat_update_replicate: "i < n \<Longrightarrow> concat ((replicate n [])[i := b]) = b"
proof (induction n arbitrary: i)
  case (Suc n)
  then show ?case by (cases i) auto
qed simp

subsection \<open>The interleaved system\<close>

definition rt_init :: "rt_sys \<Rightarrow> bool" where
  "rt_init s \<longleftrightarrow> (\<exists>self. s = \<lparr>table = NewRoutingTable self, pinging = []\<rparr>)"

lemma update_locked_placed:
  "update_locked c b = Updated b' \<Longrightarrow> bucket_placed self i b \<Longrightarrow> XorDistance self (ID c) = int i \<Longrightarrow>
     bucket_placed self i b'"
  by (auto simp: update_locked_def bucket_placed_def list_all_iff split: if_splits)

lemma update_relocked_placed:
  assumes "update_relocked isAlive c b = Ok b'" "bucket_placed self i b" "XorDistance self (ID c) = int i"
  shows "bucket_placed self i b'"
proof -
  have ne: "b \<noteq> []" using assms(1) by (auto simp: update_relocked_def)
  have "\<forall>x \<in> set (butlast b). XorDistance self (ID x) = int i"
    using assms(2) in_set_butlastD [of _ b] by (auto simp: bucket_placed_def list_all_iff)
  moreover have "XorDistance self (ID (last b)) = int i"
    using assms(2) ne by (simp add: bucket_placed_def list_all_iff)
  moreover have "b' = c # butlast b \<or> b' = last b # butlast b"
    using assms(1) ne by (simp add: update_relocked_def split: if_splits)
  moreover have "length b \<le> k_size" "0 < length b" using assms(2) ne by (simp_all add: bucket_placed_def)
  ultimately show ?thesis
    using assms(3) by (elim disjE) (simp_all add: bucket_placed_def list_all_iff)
qed

lemma Remove_placed: "rt_placed rt \<Longrightarrow> rt_placed (Remove rt c)"
  unfolding Remove_eq
  using set_bucket_remove [of "ID c" "Buckets rt ! bucket_of rt c"]
    length_bucket_remove [of "ID c" "Buckets rt ! bucket_of rt c"] rt_placed_bucket [of rt c]
  by (intro set_bucket_placed) (auto simp: bucket_placed_def list_all_iff)

lemma rt_step_placed: "rt_step s t \<Longrightarrow> rt_placed (table s) \<Longrightarrow> rt_placed (table t)"
proof (induction rule: rt_step.induct)
  case (update_now c s b)
  then show ?case
    using update_locked_placed rt_placed_bucket bucket_index_eq by (auto intro!: set_bucket_placed)
next
  case (update_end c p s isAlive b)
  then show ?case
    using update_relocked_placed rt_placed_bucket bucket_index_eq by (auto intro!: set_bucket_placed)
qed (simp_all add: Remove_placed)

interpretation rt: invariant_system rt_init rt_step "\<lambda>s. rt_placed (table s)"
  using New_wf by unfold_locales (auto simp: rt_init_def wf_rt_def intro: rt_step_placed)

subsection \<open>Concrete tables\<close>

text \<open>A contact with a given identifier, and the bucket of a small identifier seen from node 0.\<close>

definition contact_at :: "nat \<Rightarrow> Contact" where
  "contact_at n = \<lparr>ID = id_of_nat n, IP = [127, 0, 0, 1], Port = int n\<rparr>"

lemma XorDistance_id_of_nat:
  "xor_val (id_of_nat m) (id_of_nat n) = v \<Longrightarrow> 2 ^ d \<le> v \<Longrightarrow> v < 2 ^ Suc d \<Longrightarrow>
     XorDistance (id_of_nat m) (id_of_nat n) = int d"
  using bit_len_eqI [of d v] xor_val_eq_0_iff [of "id_of_nat m" "id_of_nat n"]
  by (auto simp: XorDistance_eq)

lemma XorDistance_small: "2 ^ d \<le> n \<Longrightarrow> n < 2 ^ Suc d \<Longrightarrow> d < 256 \<Longrightarrow>
    XorDistance (id_of_nat 0) (id_of_nat n) = int d"
proof -
  assume n: "2 ^ d \<le> n" "n < 2 ^ Suc d" "d < 256"
  have "(2::nat) ^ Suc d \<le> 2 ^ 256" by (rule power_increasing) (use n in simp_all)
  then have "n < 2 ^ 256" using n by linarith
  then show ?thesis
    using n by (intro XorDistance_id_of_nat [of _ _ n]) (simp_all add: xor_val_id_of_nat del: power_Suc)
qed

definition full_table :: RoutingTable where
  "full_table = set_bucket (NewRoutingTable (id_of_nat 0)) 6 (map contact_at [64..<96])"

lemma bucket_full_table:
  "Buckets full_table ! 6 = map contact_at [64..<96]" "SelfID full_table = id_of_nat 0"
  "length (Buckets full_table) = 256"
  by (simp_all add: full_table_def NewRoutingTable_def idLength_def)

lemma bucket_of_full_table: "64 \<le> n \<Longrightarrow> n < 128 \<Longrightarrow> bucket_of full_table (contact_at n) = 6"
  using XorDistance_small [of 6 n]
  by (simp add: bucket_full_table GetBucketIndex_def contact_at_def)

subsection \<open>Properties\<close>

text \<open>
  C6. \<open>FindClosest\<close> on a well-formed table returns as many contacts as asked for, as the table holds, or the 32 that
  the sorter holds, whichever is least, all from the table, no identifier twice, ordered by \<open>XorDistance\<close> to the target, and no
  contact it leaves out is at a smaller \<open>XorDistance\<close> than one it returns.
\<close>

theorem FindClosest_closest:
  assumes "wf_rt rt"
  shows "length (FindClosest rt t n) = min (min n k_size) (length (contacts rt)) \<and>
    set (FindClosest rt t n) \<subseteq> set (contacts rt) \<and>
    distinct (map ID (FindClosest rt t n)) \<and>
    sorted (map (dist_to t) (FindClosest rt t n)) \<and>
    (\<forall>x \<in> set (FindClosest rt t n). \<forall>y \<in> set (contacts rt) - set (FindClosest rt t n).
       dist_to t x \<le> dist_to t y)"
proof -
  have fc: "FindClosest rt t n = take (min n k_size) (sort_key (dist_to t) (contacts rt))"
    using FindClosest_wf [OF assms, of "min n k_size" t] by (simp add: FindClosest_eq min.commute)
  have "distinct (map ID (sort_key (dist_to t) (contacts rt)))"
    using wf_rt_distinct [OF assms] by (metis mset_eq_imp_distinct_iff mset_map mset_sort)
  then show ?thesis
    unfolding fc using sorter.kept_closer [of _ "min n k_size" t "contacts rt"]
    by (auto simp: distinct_map_take sorted_map_take min_def dest: in_set_takeD)
qed

theorem FindClosest_closest_witness:
  "wf_rt (Update (\<lambda>_. True) (NewRoutingTable zero_id) (contact_at 9)) \<and>
   length (FindClosest (Update (\<lambda>_. True) (NewRoutingTable zero_id) (contact_at 9)) zero_id 40) = 1"
proof -
  let ?rt = "Update (\<lambda>_. True) (NewRoutingTable zero_id) (contact_at 9)"
  have wf: "wf_rt ?rt" by (rule Update_wf [OF New_wf])
  have "contacts ?rt = [contact_at 9]"
    by (simp add: Update_eq contacts_def NewRoutingTable_def idLength_def bucket_update_def
        k_size_def concat_update_replicate bucket_index_bounds)
  with FindClosest_closest [OF wf, of zero_id 40] wf show ?thesis by (simp add: k_size_def)
qed

text \<open>
  The order of \<open>FindClosest\<close> is the coarse one: it does not return the contacts closest to the target in
  the exclusive-or metric. In the table below it answers a request for one contact with
  identifier 6 although identifier 4 is known and closer to the target 0.
\<close>

theorem FindClosest_not_exact:
  "let rt = Update (\<lambda>_. True) (Update (\<lambda>_. True) (NewRoutingTable (id_of_nat 128))
              (contact_at 4)) (contact_at 6)
   in FindClosest rt (id_of_nat 0) 1 = [contact_at 6] \<and> contact_at 4 \<in> set (contacts rt) \<and>
      xor_val (ID (contact_at 4)) (id_of_nat 0) < xor_val (ID (contact_at 6)) (id_of_nat 0)"
proof -
  let ?self = "id_of_nat 128"
  let ?rt = "Update (\<lambda>_. True) (Update (\<lambda>_. True) (NewRoutingTable ?self) (contact_at 4)) (contact_at 6)"
  have "XorDistance ?self (id_of_nat 4) = int 7"
    by (rule XorDistance_id_of_nat [of _ _ 132]) (simp_all add: xor_val_id_of_nat)
  moreover have "XorDistance ?self (id_of_nat 6) = int 7"
    by (rule XorDistance_id_of_nat [of _ _ 134]) (simp_all add: xor_val_id_of_nat)
  ultimately have idx: "GetBucketIndex ?self (id_of_nat 4) = 7" "GetBucketIndex ?self (id_of_nat 6) = 7"
    by (simp_all add: GetBucketIndex_def)
  have c: "contacts ?rt = [contact_at 6, contact_at 4]"
    by (simp add: Update_eq contacts_def NewRoutingTable_def idLength_def bucket_update_def
        k_size_def concat_update_replicate idx contact_at_def id_of_nat_eq_iff)
  have d: "dist_to (id_of_nat 0) (contact_at 4) = 2" "dist_to (id_of_nat 0) (contact_at 6) = 2"
    using XorDistance_small [of 2 4] XorDistance_small [of 2 6]
    by (simp_all add: dist_to_def contact_at_def XorDistance_commute)
  have ne: "ID (contact_at 4) \<noteq> ID (contact_at 6)" by (simp add: contact_at_def id_of_nat_eq_iff)
  have "FindClosest ?rt (id_of_nat 0) 1 = [contact_at 6]"
    unfolding FindClosest_eq c using ne by (simp add: d k_size_def)
  moreover have "contact_at 4 \<in> set (contacts ?rt)" unfolding c by simp
  moreover have "xor_val (ID (contact_at 4)) (id_of_nat 0) < xor_val (ID (contact_at 6)) (id_of_nat 0)"
    by (simp add: contact_at_def xor_val_id_of_nat)
  ultimately show ?thesis unfolding Let_def by blast
qed

text \<open>
  C9. \<open>Update\<close> keeps the table well formed (placement, bucket bound, no duplicate identifier) whatever the
  pings answer, and never drops a contact that answers its ping.
\<close>

theorem Update_correct:
  assumes "wf_rt rt"
  shows "wf_rt (Update ping rt c) \<and>
    (\<forall>x. x \<in> set (contacts rt) \<and> ping x \<longrightarrow> x \<in> set (contacts (Update ping rt c)))"
proof -
  have len: "length (Buckets rt) = 256" "length (Buckets (Update ping rt c)) = 256"
    using assms by (simp_all add: wf_rt_def rt_placed_def Update_eq)
  have "x \<in> set (Buckets (Update ping rt c) ! i)" if "x \<in> set (Buckets rt ! i)" "i < 256" "ping x" for x i
    using that len bucket_update_live [of x "Buckets rt ! i" ping c]
    by (cases "i = bucket_of rt c") (auto simp: Update_eq)
  then show ?thesis using assms len by (auto simp: Update_wf in_contacts_iff)
qed

theorem Update_correct_witness:
  "wf_rt (NewRoutingTable zero_id) \<and> wf_rt (Update (\<lambda>_. False) (NewRoutingTable zero_id) (contact_at 9))"
  using Update_correct [OF New_wf [of zero_id]] New_wf by blast

text \<open>
  The bucket index of a contact is never -1, so the guard of \<open>Update\<close> and \<open>Remove\<close> for "the contact is
  itself" never applies: updating with the node's own identifier puts the node into its own bucket 0.
\<close>

theorem Update_inserts_self:
  assumes "wf_rt rt" "ID c = SelfID rt" "length (Buckets rt ! 0) < k_size"
  shows "GetBucketIndex (SelfID rt) (ID c) = 0 \<and>
    (\<exists>x \<in> set (Buckets (Update ping rt c) ! 0). ID x = SelfID rt)"
proof -
  have idx: "GetBucketIndex (SelfID rt) (ID c) = 0" using assms(2) by (simp add: GetBucketIndex_def)
  have "Buckets (Update ping rt c) ! 0 = bucket_update ping c (Buckets rt ! 0)"
    using assms(1) by (simp add: Update_eq idx wf_rt_def rt_placed_def)
  moreover have "\<exists>x \<in> set (bucket_update ping c (Buckets rt ! 0)). ID x = SelfID rt"
    using assms(2,3) by (auto simp: bucket_update_def list_ex_iff)
  ultimately show ?thesis using idx by simp
qed

theorem Update_inserts_self_witness:
  "wf_rt (NewRoutingTable (id_of_nat 7)) \<and>
   (\<exists>x \<in> set (Buckets (Update (\<lambda>_. True) (NewRoutingTable (id_of_nat 7)) (contact_at 7)) ! 0).
      ID x = id_of_nat 7)"
  using Update_inserts_self [OF New_wf, of "contact_at 7" "id_of_nat 7"] New_wf
  by (simp add: contact_at_def NewRoutingTable_def idLength_def k_size_def)

text \<open>
  C17. Under every interleaving of updates (with pings in between) and removals the table keeps its shape:
  no bucket ever exceeds \<open>k\<close> contacts and every contact stays in the bucket of its distance.
\<close>

theorem interleaved_updates_placed: "reach rt_init rt_step s \<Longrightarrow> rt_placed (table s)"
  by (rule rt.reach_inv)

lemma reach_filled:
  "n \<le> 32 \<Longrightarrow> reach rt_init rt_step \<lparr>table = set_bucket (NewRoutingTable (id_of_nat 0)) 6 (rev (map contact_at [64..<64 + n])), pinging = []\<rparr>"
proof (induction n)
  case 0
  have "set_bucket (NewRoutingTable (id_of_nat 0)) 6 [] = NewRoutingTable (id_of_nat 0)"
    by (simp add: NewRoutingTable_def idLength_def numeral_eq_Suc)
  then show ?case by (intro reach_init) (auto simp: rt_init_def)
next
  case (Suc n)
  let ?s = "\<lparr>table = set_bucket (NewRoutingTable (id_of_nat 0)) 6 (rev (map contact_at [64..<64 + n])), pinging = []\<rparr>"
  have b: "bucket_of (table ?s) (contact_at (64 + n)) = 6"
    using XorDistance_small [of 6 "64 + n"] Suc.prems by (simp add: NewRoutingTable_def GetBucketIndex_def contact_at_def)
  have u: "[64..<64 + Suc n] = [64..<64 + n] @ [64 + n]" using upt_Suc_append [of 64 "64 + n"] by simp
  have "update_locked (contact_at (64 + n)) (rev (map contact_at [64..<64 + n])) = Updated (rev (map contact_at [64..<64 + Suc n]))"
    unfolding u using Suc.prems by (auto simp: update_locked_def k_size_def list_ex_iff contact_at_def id_of_nat_eq_iff)
  then have "rt_step ?s (?s\<lparr>table := set_bucket (table ?s) 6 (rev (map contact_at [64..<64 + Suc n]))\<rparr>)"
    using rt_step.update_now [of "contact_at (64 + n)" ?s] unfolding b by (simp add: NewRoutingTable_def idLength_def)
  with Suc show ?case using reach_step by fastforce
qed

text \<open>
  Interleaving does break what a sequential \<open>Update\<close> guarantees: from any table whose bucket for a new
  contact is full, two concurrent updates with that contact both ping the same least recently seen
  contact; if it is dead, the bucket ends with the new contact twice and has lost, besides
  the dead contact, one that was never pinged.
\<close>

theorem concurrent_update_race:
  assumes "length (Buckets (table s)) = 256" "pinging s = []"
    and "b = Buckets (table s) ! bucket_of (table s) c"
    and "length b = k_size" "ID c \<notin> ID ` set b"
  shows "\<exists>s1 s2. rt_step\<^sup>*\<^sup>* s s1 \<and> pinging s1 = [(c, last b), (c, last b)] \<and> table s1 = table s \<and>
    rt_step\<^sup>*\<^sup>* s1 s2 \<and> Buckets (table s2) ! bucket_of (table s2) c = c # c # butlast (butlast b)"
proof -
  let ?i = "bucket_of (table s) c"
  have i: "?i < 256" by (rule bucket_index_bounds)
  have ping: "update_locked c b = NeedPing (last b)"
    using assms(4,5) by (simp add: update_locked_def list_ex_ID)
  have b: "b \<noteq> []" "butlast b \<noteq> []"
    using assms(4) by (auto simp: k_size_def butlast_conv_take)
  let ?s1 = "s\<lparr>pinging := [(c, last b), (c, last b)]\<rparr>"
  have "rt_step s (s\<lparr>pinging := [(c, last b)]\<rparr>)"
    using rt_step.update_ping [of c s "last b"] ping assms(2,3) by simp
  moreover have "rt_step (s\<lparr>pinging := [(c, last b)]\<rparr>) ?s1"
    using rt_step.update_ping [of c "s\<lparr>pinging := [(c, last b)]\<rparr>" "last b"] ping assms(3) by simp
  ultimately have one: "rt_step\<^sup>*\<^sup>* s ?s1" by (meson converse_rtranclp_into_rtranclp rtranclp.rtrancl_refl)
  let ?t = "?s1\<lparr>table := set_bucket (table s) ?i (c # butlast b), pinging := [(c, last b)]\<rparr>"
  let ?s2 = "?t\<lparr>table := set_bucket (table ?t) ?i (c # c # butlast (butlast b)), pinging := []\<rparr>"
  have "rt_step ?s1 ?t"
    using rt_step.update_end [of c "last b" ?s1 False "c # butlast b"] b(1) assms(3)
    by (simp add: update_relocked_def)
  moreover have "rt_step ?t ?s2"
    using rt_step.update_end [of c "last b" ?t False "c # c # butlast (butlast b)"] b assms(1) i
    by (simp add: update_relocked_def)
  ultimately have two: "rt_step\<^sup>*\<^sup>* ?s1 ?s2" by (meson converse_rtranclp_into_rtranclp rtranclp.rtrancl_refl)
  show ?thesis
    using one two assms(1) i by (intro exI [of _ ?s1] exI [of _ ?s2]) simp
qed

theorem concurrent_update_race_witness:
  "let s = \<lparr>table = full_table, pinging = []\<rparr>; b = map contact_at [64..<96]; c = contact_at 100
   in length b = k_size \<and> ID c \<notin> ID ` set b \<and>
     (\<exists>s1 s2. rt_step\<^sup>*\<^sup>* s s1 \<and> rt_step\<^sup>*\<^sup>* s1 s2 \<and>
        Buckets (table s2) ! bucket_of (table s2) c = c # c # butlast (butlast b))"
proof -
  let ?s = "\<lparr>table = full_table, pinging = []\<rparr>"
  let ?b = "map contact_at [64..<96]" and ?c = "contact_at 100"
  have "bucket_of full_table ?c = 6" by (rule bucket_of_full_table) simp_all
  then have b: "?b = Buckets (table ?s) ! bucket_of (table ?s) ?c"
    by (simp only: rt_sys.select_convs bucket_full_table)
  have len: "length ?b = k_size" by (simp add: k_size_def)
  have new: "ID ?c \<notin> ID ` set ?b"
    by (auto simp: contact_at_def id_of_nat_eq_iff)
  have full: "length (Buckets (table ?s)) = 256" by (simp add: bucket_full_table)
  have "\<exists>s1 s2. rt_step\<^sup>*\<^sup>* ?s s1 \<and> rt_step\<^sup>*\<^sup>* s1 s2 \<and>
      Buckets (table s2) ! bucket_of (table s2) ?c = ?c # ?c # butlast (butlast ?b)"
    using concurrent_update_race [OF full _ b len new] by auto
  with len new show ?thesis unfolding Let_def by blast
qed

text \<open>
  A run with an interleaving: 32 updates fill a bucket, two concurrent updates ping, and both replace a contact.
\<close>

theorem interleaved_updates_placed_witness:
  "\<exists>s s1 s2. reach rt_init rt_step s \<and> length (contacts (table s)) = 32 \<and> rt_step\<^sup>*\<^sup>* s s1 \<and> length (pinging s1) = 2 \<and> rt_step\<^sup>*\<^sup>* s1 s2 \<and>
     table s2 \<noteq> table s \<and> rt_placed (table s2)"
proof -
  define b where "b = rev (map contact_at [64..<96])"
  let ?c = "contact_at 100" and ?s = "\<lparr>table = set_bucket (NewRoutingTable (id_of_nat 0)) 6 b, pinging = []\<rparr>"
  have r: "reach rt_init rt_step ?s" using reach_filled [of 32] by (simp add: b_def)
  have len: "length b = 32" by (simp add: b_def)
  then have n: "length (contacts (table ?s)) = 32" by (simp add: contacts_def NewRoutingTable_def idLength_def concat_update_replicate)
  have i: "bucket_of (table ?s) ?c = 6"
    using XorDistance_small [of 6 100] by (simp add: NewRoutingTable_def GetBucketIndex_def contact_at_def)
  have b: "b = Buckets (table ?s) ! bucket_of (table ?s) ?c" unfolding i by (simp add: NewRoutingTable_def idLength_def)
  have c: "ID ?c \<notin> ID ` set b" by (auto simp: b_def contact_at_def id_of_nat_eq_iff)
  obtain s1 s2 where s: "rt_step\<^sup>*\<^sup>* ?s s1" "pinging s1 = [(?c, last b), (?c, last b)]" "rt_step\<^sup>*\<^sup>* s1 s2"
    "Buckets (table s2) ! bucket_of (table s2) ?c = ?c # ?c # butlast (butlast b)"
    using concurrent_update_race [OF _ _ b _ c] by (auto simp: NewRoutingTable_def idLength_def k_size_def len)
  have "table s2 \<noteq> table ?s" using s(4) c b by (metis image_eqI list.set_intros(1))
  moreover have "reach rt_init rt_step s2" using r s(1,3) by (meson reach_steps rtranclp_trans)
  ultimately show ?thesis using interleaved_updates_placed [of s2] r n s by (intro exI [of _ ?s] exI [of _ s1] exI [of _ s2]) simp
qed

end
