(* ===== verification/Go_Strings.thy ===== *)
theory Go_Strings
  imports Kad_Prelude
begin

text \<open>
  What the code uses of Go's package \<open>strings\<close>, on byte strings: \<open>TrimSpace\<close>, \<open>Split\<close> and \<open>SplitN\<close> at a
  one-byte separator, and \<open>Join\<close> (\<open>sort.Strings\<close> is \<open>sort\<close> at the lexicographic order of
  bytes). \<open>TrimSpace\<close> removes the UTF-8 encodings of the Unicode white space characters
  from both ends; since no encoding is a prefix or suffix of another, matching encodings at
  the ends is the same as decoding runes there. For the same reason \<open>FieldsFunc\<close> with \<open>unicode.IsSpace\<close> can look for these
  encodings byte by byte. \<open>scan_lines\<close> is a \<open>bufio.Scanner\<close> with a limit for the length of a line: it returns the lines, without a
  final carriage return, and whether it stopped at a line that does not fit.
\<close>

definition space_runes :: "bytes list" where
  "space_runes =
     [[9], [10], [11], [12], [13], [32], [0xC2, 0x85], [0xC2, 0xA0], [0xE1, 0x9A, 0x80],
      [0xE2, 0x80, 0x80], [0xE2, 0x80, 0x81], [0xE2, 0x80, 0x82], [0xE2, 0x80, 0x83],
      [0xE2, 0x80, 0x84], [0xE2, 0x80, 0x85], [0xE2, 0x80, 0x86], [0xE2, 0x80, 0x87],
      [0xE2, 0x80, 0x88], [0xE2, 0x80, 0x89], [0xE2, 0x80, 0x8A], [0xE2, 0x80, 0xA8],
      [0xE2, 0x80, 0xA9], [0xE2, 0x80, 0xAF], [0xE2, 0x81, 0x9F], [0xE3, 0x80, 0x80]]"

definition starts_with :: "bytes \<Rightarrow> bytes \<Rightarrow> bool" where
  "starts_with s r \<longleftrightarrow> r \<noteq> [] \<and> take (length r) s = r"

function strip_front :: "bytes list \<Rightarrow> bytes \<Rightarrow> bytes" where
  "strip_front rs s =
     (case find (starts_with s) rs of
        None \<Rightarrow> s
      | Some r \<Rightarrow> strip_front rs (drop (length r) s))"
  by pat_completeness auto
termination
proof (relation "measure (\<lambda>(rs, s). length s)")
  fix rs s r
  assume "find (starts_with s) rs = Some r"
  then have "starts_with s r" by (auto simp: find_Some_iff)
  then have "r \<noteq> []" "s \<noteq> []" by (auto simp: starts_with_def)
  then show "((rs, drop (length r) s), (rs, s)) \<in> measure (\<lambda>(rs, s). length s)"
    by simp
qed simp

declare strip_front.simps [simp del]

definition TrimSpace :: "bytes \<Rightarrow> bytes" where
  "TrimSpace s = rev (strip_front (map rev space_runes) (rev (strip_front space_runes s)))"

fun split_on :: "byte \<Rightarrow> bytes \<Rightarrow> bytes list" where
  "split_on c [] = [[]]"
| "split_on c (x # xs) =
     (if x = c then [] # split_on c xs
      else (case split_on c xs of [] \<Rightarrow> [[x]] | y # ys \<Rightarrow> (x # y) # ys))"

definition SplitN2 :: "byte \<Rightarrow> bytes \<Rightarrow> bytes list" where
  "SplitN2 c s =
     (if c \<in> set s then [takeWhile (\<lambda>x. x \<noteq> c) s, tl (dropWhile (\<lambda>x. x \<noteq> c) s)] else [s])"

fun join :: "byte \<Rightarrow> bytes list \<Rightarrow> bytes" where
  "join c [] = []"
| "join c [x] = x"
| "join c (x # y # ys) = x @ c # join c (y # ys)"

subsection \<open>Splitting and joining\<close>

lemma split_on_not_Nil [simp]: "split_on c s \<noteq> []"
  by (induction s) (auto split: list.splits)

lemma split_on_no_sep: "x \<in> set (split_on c s) \<Longrightarrow> c \<notin> set x"
  by (induction s arbitrary: x) (auto split: list.splits if_splits)

lemma split_on_subset: "x \<in> set (split_on c s) \<Longrightarrow> set x \<subseteq> set s"
  by (induction s arbitrary: x) (fastforce split: list.splits if_splits)+

lemma split_on_single: "c \<notin> set s \<Longrightarrow> split_on c s = [s]"
  by (induction s) auto

lemma split_on_append: "c \<notin> set x \<Longrightarrow> split_on c (x @ c # s) = x # split_on c s"
  by (induction x) auto

lemma split_on_join:
  "xs \<noteq> [] \<Longrightarrow> \<forall>x \<in> set xs. c \<notin> set x \<Longrightarrow> split_on c (join c xs) = xs"
  by (induction c xs rule: join.induct) (auto simp: split_on_single split_on_append)

lemma join_not_Nil: "xs \<noteq> [] \<Longrightarrow> \<forall>x \<in> set xs. x \<noteq> [] \<Longrightarrow> join c xs \<noteq> []"
  by (induction c xs rule: join.induct) auto

lemma set_join: "set (join c xs) \<subseteq> insert c (\<Union> (set ` set xs))"
  by (induction c xs rule: join.induct) auto

lemma SplitN2_append: "c \<notin> set x \<Longrightarrow> SplitN2 c (x @ c # s) = [x, s]"
proof -
  assume "c \<notin> set x"
  then have "takeWhile (\<lambda>x. x \<noteq> c) (x @ c # s) = x" "dropWhile (\<lambda>x. x \<noteq> c) (x @ c # s) = c # s"
    by (induction x) auto
  then show ?thesis by (simp add: SplitN2_def)
qed

lemma SplitN2_cases:
  obtains "SplitN2 c s = [s]" "c \<notin> set s"
  | x y where "SplitN2 c s = [x, y]" "s = x @ c # y" "c \<notin> set x"
proof (cases "c \<in> set s")
  case True
  then obtain x y where "s = x @ c # y" "c \<notin> set x" by (meson split_list_first)
  with SplitN2_append that(2) show thesis by blast
next
  case False
  with that(1) show thesis by (simp add: SplitN2_def)
qed

subsection \<open>Trimming\<close>

definition no_front :: "bytes list \<Rightarrow> bytes \<Rightarrow> bool" where
  "no_front rs s \<longleftrightarrow> (\<forall>r \<in> set rs. \<not> starts_with s r)"

definition trimmed :: "bytes \<Rightarrow> bool" where
  "trimmed s \<longleftrightarrow> no_front space_runes s \<and> no_front (map rev space_runes) (rev s)"

lemma find_None_no_front: "find (starts_with s) rs = None \<longleftrightarrow> no_front rs s"
  by (auto simp: find_None_iff no_front_def)

lemma strip_front_id: "no_front rs s \<Longrightarrow> strip_front rs s = s"
  by (subst strip_front.simps) (simp add: find_None_no_front [THEN iffD2])

lemma no_front_strip_front: "no_front rs (strip_front rs s)"
proof (induction rs s rule: strip_front.induct)
  case (1 rs s)
  then show ?case
    by (subst strip_front.simps) (auto simp: find_None_no_front split: option.splits)
qed

lemma strip_front_suffix: "\<exists>u. s = u @ strip_front rs s"
proof (induction rs s rule: strip_front.induct)
  case (1 rs s)
  show ?case
  proof (cases "find (starts_with s) rs")
    case None
    then show ?thesis by (simp add: strip_front.simps [of rs s])
  next
    case (Some r)
    with "1" obtain u where "drop (length r) s = u @ strip_front rs (drop (length r) s)" by blast
    then have "s = (take (length r) s @ u) @ strip_front rs (drop (length r) s)"
      by (metis append.assoc append_take_drop_id)
    with Some show ?thesis
      by (intro exI [of _ "take (length r) s @ u"]) (simp add: strip_front.simps [of rs s])
  qed
qed

lemma starts_with_append: "starts_with s r \<Longrightarrow> starts_with (s @ u) r"
proof -
  assume "starts_with s r"
  then have r: "r \<noteq> []" "take (length r) s = r" by (auto simp: starts_with_def)
  then have "length r \<le> length s" by (metis length_take min.cobounded1)
  with r show ?thesis by (simp add: starts_with_def)
qed

lemma no_front_prefix: "no_front rs (s @ u) \<Longrightarrow> no_front rs s"
  using starts_with_append by (auto simp: no_front_def)

lemma trimmed_TrimSpace: "trimmed (TrimSpace s)"
proof -
  let ?l = "strip_front space_runes s"
  obtain u where "rev ?l = u @ strip_front (map rev space_runes) (rev ?l)"
    using strip_front_suffix by blast
  then have "?l = TrimSpace s @ rev u"
    unfolding TrimSpace_def by (metis rev_append rev_rev_ident)
  with no_front_strip_front [of space_runes s] have "no_front space_runes (TrimSpace s)"
    by (metis no_front_prefix)
  moreover have "no_front (map rev space_runes) (rev (TrimSpace s))"
    by (simp add: TrimSpace_def no_front_strip_front)
  ultimately show ?thesis by (simp add: trimmed_def)
qed

lemma TrimSpace_id: "trimmed s \<Longrightarrow> TrimSpace s = s"
  by (simp add: trimmed_def TrimSpace_def strip_front_id)

lemma set_strip_front: "set (strip_front rs s) \<subseteq> set s"
  using strip_front_suffix [of s rs] by (metis Un_upper2 set_append)

lemma set_TrimSpace: "set (TrimSpace s) \<subseteq> set s"
  unfolding TrimSpace_def using set_strip_front by (metis order_trans set_rev)

lemma no_front_guard:
  assumes "no_front rs a" "\<forall>r \<in> set rs. c \<notin> set r"
  shows "no_front rs (a @ c # b)"
  unfolding no_front_def
proof (intro ballI notI)
  fix r assume r: "r \<in> set rs" and st: "starts_with (a @ c # b) r"
  show False
  proof (cases "length r \<le> length a")
    case True
    with st have "starts_with a r" by (simp add: starts_with_def)
    with r assms(1) show False by (simp add: no_front_def)
  next
    case False
    with st have "c \<in> set r"
      by (auto simp: starts_with_def take_Cons') (metis diff_is_0_eq in_set_conv_decomp not_le)
    with r assms(2) show False by simp
  qed
qed

lemma no_front_Nil [simp]: "no_front rs []"
  by (auto simp: no_front_def starts_with_def)

lemma trimmed_guard:
  assumes "no_front space_runes a" "no_front (map rev space_runes) (rev b)"
    and "\<forall>r \<in> set space_runes. c \<notin> set r \<and> d \<notin> set r"
    and "s = a @ c # u" "s = v @ d # b"
  shows "trimmed s"
proof -
  have "no_front space_runes s"
    unfolding assms(4) using assms(1,3) by (intro no_front_guard) auto
  moreover have "rev s = rev b @ d # rev v" using assms(5) by simp
  then have "no_front (map rev space_runes) (rev s)"
    using assms(2,3) no_front_guard [of "map rev space_runes" "rev b" d "rev v"] by simp
  ultimately show ?thesis by (simp add: trimmed_def)
qed

lemma no_front_disjoint: "\<forall>r \<in> set rs. set r \<inter> set s = {} \<Longrightarrow> no_front rs s"
proof -
  assume dj: "\<forall>r \<in> set rs. set r \<inter> set s = {}"
  show ?thesis
    unfolding no_front_def
  proof (intro ballI notI)
    fix r assume "r \<in> set rs" "starts_with s r"
    then have "r \<noteq> []" "set r \<subseteq> set s"
      by (auto simp: starts_with_def) (metis in_set_takeD)
    with dj \<open>r \<in> set rs\<close> show False by (metis inf.absorb_iff1 set_empty)
  qed
qed

lemma trimmed_disjoint: "\<forall>r \<in> set space_runes. set r \<inter> set s = {} \<Longrightarrow> trimmed s"
  unfolding trimmed_def by (intro conjI no_front_disjoint) simp_all

subsection \<open>Hexadecimal strings\<close>

definition hex_digits :: bytes where
  "hex_digits = map hex_digit [0..<16]"

lemma set_hex_EncodeToString: "set (hex_EncodeToString bs) \<subseteq> set hex_digits"
proof (induction bs)
  case (Cons b bs)
  have "unat b div 16 < 16" "unat b mod 16 < 16" using unat_byte_less [of b] by linarith+
  with Cons show ?case by (simp add: hex_EncodeToString_def hex_digits_def)
qed (simp add: hex_EncodeToString_def)

lemma hex_digits_safe:
  "\<forall>r \<in> set space_runes. set r \<inter> set hex_digits = {}"
  "58 \<notin> set hex_digits" "59 \<notin> set hex_digits" "44 \<notin> set hex_digits"
  unfolding hex_digits_def space_runes_def hex_digit_def by code_simp+

lemma trimmed_hex: "trimmed (hex_EncodeToString bs)"
  using set_hex_EncodeToString [of bs] hex_digits_safe(1) by (intro trimmed_disjoint) blast

subsection \<open>Lines\<close>

definition dropCR :: "bytes \<Rightarrow> bytes" where
  "dropCR l = (if l \<noteq> [] \<and> last l = 13 then butlast l else l)"

function scan_lines :: "nat \<Rightarrow> bytes \<Rightarrow> bytes list \<times> bool" where
  "scan_lines limit s =
     (if s = [] then ([], False)
      else
        let line = takeWhile (\<lambda>c. c \<noteq> 10) s; rest = dropWhile (\<lambda>c. c \<noteq> 10) s
        in if length line \<ge> limit then ([], True)
           else let (ls, tooLong) = scan_lines limit (tl rest) in (dropCR line # ls, tooLong))"
  by pat_completeness auto
termination
proof (relation "measure (\<lambda>(limit, s). length s)")
  fix limit and s :: bytes and line rest
  assume "s \<noteq> []" "line = takeWhile (\<lambda>c. c \<noteq> 10) s" "rest = dropWhile (\<lambda>c. c \<noteq> 10) s"
  moreover have "length (dropWhile (\<lambda>c. c \<noteq> 10) s) \<le> length s" by (rule length_dropWhile_le)
  moreover have "0 < length s" using \<open>s \<noteq> []\<close> by simp
  ultimately show "((limit, tl rest), (limit, s)) \<in> measure (\<lambda>(limit, s). length s)" by (simp del: length_greater_0_conv)
qed simp

declare scan_lines.simps [simp del]

definition as_text :: "bytes list \<Rightarrow> bytes" where
  "as_text ls = concat (map (\<lambda>l. l @ [10]) ls)"

definition plain_line :: "nat \<Rightarrow> bytes \<Rightarrow> bool" where
  "plain_line limit l \<longleftrightarrow> 10 \<notin> set l \<and> 13 \<notin> set l \<and> length l < limit"

lemma scan_lines_as_text: "list_all (plain_line limit) ls \<Longrightarrow> scan_lines limit (as_text ls) = (ls, False)"
proof (induction ls)
  case (Cons l ls)
  have l: "10 \<notin> set l" "13 \<notin> set l" "length l < limit" using Cons.prems by (auto simp: plain_line_def)
  have t: "as_text (l # ls) = l @ 10 # as_text ls" by (simp add: as_text_def)
  have "takeWhile (\<lambda>c. c \<noteq> 10) (l @ 10 # as_text ls) = l" "dropWhile (\<lambda>c. c \<noteq> 10) (l @ 10 # as_text ls) = 10 # as_text ls"
    using l(1) by (induction l) auto
  moreover have "dropCR l = l" using l(2) by (metis dropCR_def last_in_set)
  ultimately show ?case
    unfolding t using Cons l(3) by (subst scan_lines.simps) (simp add: Let_def)
qed (simp add: as_text_def scan_lines.simps)

text \<open>
  What the scanner makes of a text without carriage returns: it ends an unterminated last line with a newline, and a line that reaches the limit
  ends the scan, so that the lines before it are a prefix of the text.
\<close>

lemma scan_lines_text:
  "scan_lines limit s = (ls, tooLong) \<Longrightarrow> 13 \<notin> set s \<Longrightarrow>
   (if tooLong then \<exists>rest. s = as_text ls @ rest else as_text ls = s @ (if s = [] \<or> last s = 10 then [] else [10]))"
proof (induction limit s arbitrary: ls tooLong rule: scan_lines.induct)
  case (1 limit s)
  let ?line = "takeWhile (\<lambda>c. c \<noteq> 10) s" and ?rest = "dropWhile (\<lambda>c. c \<noteq> 10) s"
  show ?case
  proof (cases "s = [] \<or> length ?line \<ge> limit")
    case True
    with "1.prems" show ?thesis by (auto simp: scan_lines.simps [of limit s] as_text_def split: if_splits)
  next
    case False
    obtain ls' where ls: "scan_lines limit (tl ?rest) = (ls', tooLong)" "ls = dropCR ?line # ls'"
      using "1.prems"(1) False by (auto simp: scan_lines.simps [of limit s] split: if_splits prod.splits)
    have "set ?line \<subseteq> set s" by (auto dest: set_takeWhileD)
    moreover have "set (tl ?rest) \<subseteq> set s"
    proof
      fix x assume "x \<in> set (tl ?rest)"
      then have "x \<in> set ?rest" by (cases ?rest) simp_all
      then show "x \<in> set s" by (rule set_dropWhileD)
    qed
    ultimately have cr: "13 \<notin> set ?line" "13 \<notin> set (tl ?rest)" using "1.prems"(2) by auto
    have drop: "dropCR ?line = ?line" using cr(1) by (metis dropCR_def last_in_set)
    note IH = "1.IH" [OF _ refl refl _ ls(1) cr(2)]
    have split: "s = ?line @ ?rest" by simp
    show ?thesis
    proof (cases ?rest)
      case Nil
      then have n: "10 \<notin> set s" by (auto simp: dropWhile_eq_Nil_conv)
      then have "?line = s" by (simp add: takeWhile_eq_all_conv) blast
      moreover from n False have "last s \<noteq> 10" using last_in_set by metis
      ultimately show ?thesis using ls drop Nil False by (auto simp: scan_lines.simps [of limit "[]"] as_text_def)
    next
      case (Cons b r)
      then have b: "b = 10" using hd_dropWhile [of "\<lambda>c. c \<noteq> 10" s] by simp
      then have s: "s = ?line @ 10 # r" using split Cons by simp
      have l: "last s = (if r = [] then 10 else last r)" by (subst s) simp
      have "as_text ls = ?line @ 10 # as_text ls'" using ls(2) drop by (simp add: as_text_def)
      with IH False Cons s l show ?thesis by auto
    qed
  qed
qed

subsection \<open>Fields\<close>

text \<open>\<open>strings.FieldsFunc(s, unicode.IsSpace)\<close>; \<open>acc\<close> is the field that is being read, reversed.\<close>

abbreviation flush :: "bytes \<Rightarrow> bytes list" where
  "flush acc \<equiv> (if acc = [] then [] else [rev acc])"

function fields_from :: "bytes \<Rightarrow> bytes \<Rightarrow> bytes list" where
  "fields_from [] acc = flush acc"
| "fields_from (c # s) acc =
     (case find (starts_with (c # s)) space_runes of
        Some r \<Rightarrow> flush acc @ fields_from (drop (length r) (c # s)) []
      | None \<Rightarrow> fields_from s (c # acc))"
  by pat_completeness auto
termination
proof (relation "measure (\<lambda>(s, acc). length s)")
  fix c s acc r
  assume "find (starts_with (c # s)) space_runes = Some r"
  then have "r \<noteq> []" by (auto simp: find_Some_iff starts_with_def)
  then show "((drop (length r) (c # s), []), c # s, acc) \<in> measure (\<lambda>(s, acc). length s)" by (cases r) auto
qed simp_all

declare fields_from.simps(2) [simp del]

definition Fields :: "bytes \<Rightarrow> bytes list" where
  "Fields s = fields_from s []"

definition ascii_space :: "byte \<Rightarrow> bool" where
  "ascii_space b \<longleftrightarrow> b \<in> {32, 10, 13, 9, 11, 12}"

lemma multibyte_spaces:
  "\<forall>r \<in> set space_runes. r \<noteq> [] \<and> (\<forall>b \<in> set (tl r). \<not> ascii_space b) \<and> (ascii_space (hd r) \<longrightarrow> length r = 1)"
  by (simp add: space_runes_def ascii_space_def)

lemma space_runes_ascii: "ascii_space b \<Longrightarrow> [b] \<in> set space_runes"
  by (auto simp: space_runes_def ascii_space_def)

text \<open>No white space character reaches over an ASCII space.\<close>

lemma starts_with_before_space:
  assumes "ascii_space sp" "r \<in> set space_runes" "a \<noteq> []"
  shows "starts_with (a @ sp # b) r \<longleftrightarrow> starts_with a r"
proof
  assume st: "starts_with (a @ sp # b) r"
  show "starts_with a r"
  proof (cases "length r \<le> length a")
    case True
    with st show ?thesis by (simp add: starts_with_def)
  next
    case False
    obtain x xs where a: "a = x # xs" using assms(3) by (cases a) auto
    from st False have r: "r = a @ sp # take (length r - length a - 1) b"
      by (auto simp: starts_with_def take_Cons')
    then have "tl r = xs @ sp # take (length r - length a - 1) b" unfolding a by (metis append_Cons list.sel(3))
    then have "sp \<in> set (tl r)" by simp
    with multibyte_spaces assms(1,2) show ?thesis by blast
  qed
qed (rule starts_with_append)

lemma find_before_space:
  "ascii_space sp \<Longrightarrow> a \<noteq> [] \<Longrightarrow> find (starts_with (a @ sp # b)) space_runes = find (starts_with a) space_runes"
  by (rule find_cong) (simp_all add: starts_with_before_space)

lemma find_space:
  assumes "ascii_space sp"
  shows "find (starts_with (sp # b)) space_runes = Some [sp]"
proof -
  have "starts_with (sp # b) [sp]" by (simp add: starts_with_def)
  then have "find (starts_with (sp # b)) space_runes \<noteq> None"
    using space_runes_ascii [OF assms] by (auto simp: find_None_iff)
  then obtain r where r: "find (starts_with (sp # b)) space_runes = Some r" by blast
  then have m: "r \<in> set space_runes" "starts_with (sp # b) r" by (auto simp: find_Some_iff)
  then have "r \<noteq> []" "take (length r) (sp # b) = r" by (auto simp: starts_with_def)
  then have hd: "r \<noteq> []" "hd r = sp" by (metis, metis hd_take length_greater_0_conv list.sel(1))
  with m(1) multibyte_spaces assms have "length r = 1" by blast
  with hd have "r = [sp]" by (cases r) auto
  with r show ?thesis by simp
qed

lemma fields_from_append:
  "ascii_space sp \<Longrightarrow> fields_from (a @ sp # b) acc = fields_from a acc @ fields_from b []"
proof (induction a acc rule: fields_from.induct)
  case (1 acc)
  then show ?case by (simp add: fields_from.simps(2) find_space)
next
  case (2 c s acc)
  have f: "find (starts_with (c # s @ sp # b)) space_runes = find (starts_with (c # s)) space_runes"
    using find_before_space [OF "2.prems", of "c # s" b] by simp
  show ?case
  proof (cases "find (starts_with (c # s)) space_runes")
    case None
    with "2.IH"(1) "2.prems" f show ?thesis by (simp add: fields_from.simps(2))
  next
    case (Some r)
    then have "starts_with (c # s) r" by (auto simp: find_Some_iff)
    then have "length r \<le> length (c # s)" by (metis length_take min.cobounded1 starts_with_def)
    then have "drop (length r) (c # s @ sp # b) = drop (length r) (c # s) @ sp # b"
      by (metis append_Cons diff_is_0_eq drop_0 drop_append)
    with "2.IH"(2) [OF Some "2.prems"] Some f show ?thesis by (simp add: fields_from.simps(2))
  qed
qed

lemma Fields_append: "ascii_space sp \<Longrightarrow> Fields (a @ sp # b) = Fields a @ Fields b"
  by (simp add: Fields_def fields_from_append)

lemma Fields_Nil [simp]: "Fields [] = []"
  by (simp add: Fields_def)

lemma Fields_space: "ascii_space sp \<Longrightarrow> Fields (sp # b) = Fields b"
  using Fields_append [of sp "[]" b] by simp

text \<open>A line end after a trimmed line is trimmed.\<close>

lemma TrimSpace_newline:
  assumes "trimmed s" "s \<noteq> []"
  shows "TrimSpace (s @ [10]) = s"
proof -
  have sp: "ascii_space 10" by (simp add: ascii_space_def)
  have "no_front space_runes (s @ [10])"
    using assms starts_with_before_space [OF sp _ assms(2), of _ "[]"] by (simp add: trimmed_def no_front_def)
  then have front: "strip_front space_runes (s @ [10]) = s @ [10]" by (rule strip_front_id)
  have "find (starts_with (10 # rev s)) (map rev space_runes) = Some [10]"
    by (simp add: space_runes_def starts_with_def)
  then have "strip_front (map rev space_runes) (10 # rev s) = strip_front (map rev space_runes) (rev s)"
    by (subst strip_front.simps) simp
  also have "\<dots> = rev s" using assms(1) by (intro strip_front_id) (simp add: trimmed_def)
  finally show ?thesis by (simp add: TrimSpace_def front)
qed

end
