(* ===== verification/Topic_Value.thy ===== *)
theory Topic_Value
  imports Go_Strings "HOL-Library.Multiset"
begin

text \<open>
  The values stored under a topic (\<open>parseTopicValue\<close>, \<open>mergeTopicValue\<close> and \<open>formatTopicValue\<close> of
  \<open>src/kademlia/node.go\<close>): \<open>node1:hash1,hash2;node2:hash3\<close>. A Go map from node to set of
  hashes is an association list with distinct keys; its order stands for Go's unspecified
  iteration order. \<open>tv_view\<close> forgets the order. The lemmas show that parsing undoes formatting,
  that formatting depends on the map and not on its order, and that merging is a union; so
  storing is a join, and the locale \<open>join_register\<close> gives what follows for the
  order and the repetition of stores.
\<close>

type_synonym topic_map = "(bytes \<times> bytes list) list"

abbreviation semicolon :: byte where "semicolon \<equiv> 59"
abbreviation colon :: byte where "colon \<equiv> 58"
abbreviation comma :: byte where "comma \<equiv> 44"

text \<open>\<open>set[h] = struct{}{}\<close>, and \<open>m[n] = f(m[n])\<close> with a missing entry made empty first.\<close>

definition insert_hash :: "bytes \<Rightarrow> bytes list \<Rightarrow> bytes list" where
  "insert_hash h hs = (if h \<in> set hs then hs else hs @ [h])"

fun touch :: "bytes \<Rightarrow> (bytes list \<Rightarrow> bytes list) \<Rightarrow> topic_map \<Rightarrow> topic_map" where
  "touch n f [] = [(n, f [])]"
| "touch n f ((m, hs) # t) = (if m = n then (m, f hs) # t else (m, hs) # touch n f t)"

definition parse_hash :: "bytes list \<Rightarrow> bytes \<Rightarrow> bytes list" where
  "parse_hash hs hash = (let hash = TrimSpace hash in if hash = [] then hs else insert_hash hash hs)"

definition parse_entry :: "topic_map \<Rightarrow> bytes \<Rightarrow> topic_map" where
  "parse_entry result entry =
     (let entry = TrimSpace entry in
      if entry = [] then result
      else case SplitN2 colon entry of
        [part0, part1] \<Rightarrow>
          (let nodeID = TrimSpace part0 in
           if nodeID = [] then result
           else touch nodeID (\<lambda>hs. foldl parse_hash hs (split_on comma part1)) result)
      | _ \<Rightarrow> result)"

definition parseTopicValue :: "bytes \<Rightarrow> topic_map" where
  "parseTopicValue raw = (if length raw = 0 then [] else foldl parse_entry [] (split_on semicolon raw))"

definition mergeTopicValue :: "topic_map \<Rightarrow> topic_map \<Rightarrow> topic_map" where
  "mergeTopicValue dst src =
     foldl (\<lambda>dst (nodeID, hashes). touch nodeID (\<lambda>hs. foldl (\<lambda>hs h. insert_hash h hs) hs hashes) dst) dst src"

definition format_entry :: "topic_map \<Rightarrow> bytes \<Rightarrow> bytes" where
  "format_entry values nodeID =
     nodeID @ colon # join comma (sort (case map_of values nodeID of None \<Rightarrow> [] | Some hs \<Rightarrow> hs))"

definition formatTopicValue :: "topic_map \<Rightarrow> bytes" where
  "formatTopicValue values =
     (if length values = 0 then []
      else join semicolon (map (format_entry values) (sort (map fst values))))"

text \<open>The value \<open>HandleStore\<close> writes.\<close>

definition store_value :: "bytes \<Rightarrow> bytes \<Rightarrow> bytes" where
  "store_value existing incoming =
     formatTopicValue (mergeTopicValue (parseTopicValue existing) (parseTopicValue incoming))"

subsection \<open>The map behind the list\<close>

definition tv_view :: "topic_map \<Rightarrow> bytes \<Rightarrow> bytes set option" where
  "tv_view m n = map_option set (map_of m n)"

definition tv_join :: "(bytes \<Rightarrow> bytes set option) \<Rightarrow> (bytes \<Rightarrow> bytes set option) \<Rightarrow> bytes \<Rightarrow> bytes set option" where
  "tv_join x y n =
     (case x n of None \<Rightarrow> y n | Some s \<Rightarrow> (case y n of None \<Rightarrow> Some s | Some t \<Rightarrow> Some (s \<union> t)))"

definition node_ok :: "bytes \<Rightarrow> bool" where
  "node_ok n \<longleftrightarrow> n \<noteq> [] \<and> trimmed n \<and> semicolon \<notin> set n \<and> colon \<notin> set n"

definition hash_ok :: "bytes \<Rightarrow> bool" where
  "hash_ok h \<longleftrightarrow> h \<noteq> [] \<and> trimmed h \<and> semicolon \<notin> set h \<and> comma \<notin> set h"

definition tv_wf :: "topic_map \<Rightarrow> bool" where
  "tv_wf m \<longleftrightarrow> distinct (map fst m) \<and>
     (\<forall>(n, hs) \<in> set m. node_ok n \<and> distinct hs \<and> (\<forall>h \<in> set hs. hash_ok h))"

lemma tv_join_comm: "tv_join x y = tv_join y x"
  by (rule ext) (auto simp: tv_join_def Un_commute split: option.splits)

lemma tv_join_assoc: "tv_join (tv_join x y) z = tv_join x (tv_join y z)"
  by (rule ext) (auto simp: tv_join_def Un_assoc split: option.splits)

lemma tv_join_idem: "tv_join x x = x"
  by (rule ext) (auto simp: tv_join_def split: option.splits)

lemma tv_view_Nil [simp]: "tv_view [] = (\<lambda>_. None)"
  by (rule ext) (simp add: tv_view_def)

lemma tv_join_None [simp]: "tv_join x (\<lambda>_. None) = x" "tv_join (\<lambda>_. None) x = x"
  by (rule ext, auto simp: tv_join_def split: option.splits)+

lemma touch_other: "n \<noteq> n' \<Longrightarrow> map_of (touch n f m) n' = map_of m n'"
  by (induction m) auto

lemma touch_same: "map_of (touch n f m) n = Some (f (case map_of m n of None \<Rightarrow> [] | Some hs \<Rightarrow> hs))"
  by (induction m) auto

lemma keys_touch: "fst ` set (touch n f m) = insert n (fst ` set m)"
  by (induction n f m rule: touch.induct) (simp_all add: insert_commute)

lemma distinct_touch: "distinct (map fst m) \<Longrightarrow> distinct (map fst (touch n f m))"
proof (induction m)
  case (Cons p m)
  obtain k hs where p: "p = (k, hs)" by fastforce
  with Cons keys_touch [of n f m] show ?case by (auto simp: image_iff)
qed simp

lemma touch_entries:
  "(n', hs') \<in> set (touch n f m) \<Longrightarrow>
     (n', hs') \<in> set m \<or> n' = n \<and> (hs' = f [] \<or> (\<exists>hs. (n, hs) \<in> set m \<and> hs' = f hs))"
  by (induction m) (auto split: if_splits)

text \<open>Tokens of an entry: a node and a duplicate-free list of hashes.\<close>

definition hashes_ok :: "bytes list \<Rightarrow> bool" where
  "hashes_ok hs \<longleftrightarrow> distinct hs \<and> list_all hash_ok hs"

lemma tv_wf_iff:
  "tv_wf m \<longleftrightarrow> distinct (map fst m) \<and> (\<forall>n hs. (n, hs) \<in> set m \<longrightarrow> node_ok n \<and> hashes_ok hs)"
  by (auto simp: tv_wf_def hashes_ok_def list_all_iff)

lemma hashes_ok_Nil [simp]: "hashes_ok []"
  by (simp add: hashes_ok_def)

lemma touch_wf:
  assumes "tv_wf m" "node_ok n" and f: "\<And>hs. hashes_ok hs \<Longrightarrow> hashes_ok (f hs)"
  shows "tv_wf (touch n f m)"
  unfolding tv_wf_iff
proof (intro conjI allI impI)
  show "distinct (map fst (touch n f m))" using assms(1) distinct_touch by (simp add: tv_wf_def)
next
  fix n' hs' assume "(n', hs') \<in> set (touch n f m)"
  with touch_entries assms(1,2) show "node_ok n'" unfolding tv_wf_iff by blast
next
  fix n' hs' assume "(n', hs') \<in> set (touch n f m)"
  from touch_entries [OF this] assms(1) f show "hashes_ok hs'" unfolding tv_wf_iff
    using hashes_ok_Nil by blast
qed

subsection \<open>Hashes\<close>

lemma set_foldl_insert: "set (foldl (\<lambda>hs h. insert_hash h hs) hs xs) = set hs \<union> set xs"
  by (induction xs arbitrary: hs) (auto simp: insert_hash_def)

lemma distinct_foldl_insert:
  "distinct hs \<Longrightarrow> distinct (foldl (\<lambda>hs h. insert_hash h hs) hs xs)"
  by (induction xs arbitrary: hs) (auto simp: insert_hash_def)

lemma set_foldl_parse_hash:
  "set (foldl parse_hash hs xs) = set hs \<union> (TrimSpace ` set xs - {[]})"
  by (induction xs arbitrary: hs) (auto simp: parse_hash_def Let_def insert_hash_def)

lemma distinct_foldl_parse_hash: "distinct hs \<Longrightarrow> distinct (foldl parse_hash hs xs)"
  by (induction xs arbitrary: hs) (auto simp: parse_hash_def Let_def insert_hash_def)

lemma hashes_ok_insert:
  "hashes_ok hs \<Longrightarrow> hashes_ok xs \<Longrightarrow> hashes_ok (foldl (\<lambda>hs h. insert_hash h hs) hs xs)"
  by (simp add: hashes_ok_def distinct_foldl_insert list_all_iff set_foldl_insert ball_Un)

subsection \<open>Merging\<close>

lemma tv_view_touch_insert:
  "tv_view (touch n (\<lambda>hs. foldl (\<lambda>hs h. insert_hash h hs) hs xs) m) = tv_join (tv_view m) [n \<mapsto> set xs]"
proof
  fix n'
  show "tv_view (touch n (\<lambda>hs. foldl (\<lambda>hs h. insert_hash h hs) hs xs) m) n' =
      tv_join (tv_view m) [n \<mapsto> set xs] n'"
    by (cases "n = n'")
      (auto simp: tv_view_def tv_join_def touch_same touch_other set_foldl_insert split: option.splits)
qed

lemma tv_view_Cons: "n \<notin> fst ` set m \<Longrightarrow> tv_view ((n, hs) # m) = tv_join [n \<mapsto> set hs] (tv_view m)"
proof
  fix n'
  assume "n \<notin> fst ` set m"
  then have "map_of m n = None" by (simp add: map_of_eq_None_iff)
  then show "tv_view ((n, hs) # m) n' = tv_join [n \<mapsto> set hs] (tv_view m) n'"
    by (auto simp: tv_view_def tv_join_def split: option.splits)
qed

lemma tv_view_merge:
  "distinct (map fst src) \<Longrightarrow>
     tv_view (mergeTopicValue dst src) = tv_join (tv_view dst) (tv_view src)"
proof (induction src arbitrary: dst)
  case (Cons p src)
  obtain n hs where p: "p = (n, hs)" by fastforce
  from Cons.prems p have n: "n \<notin> fst ` set src" by auto
  have "tv_view (mergeTopicValue dst (p # src)) =
      tv_join (tv_join (tv_view dst) [n \<mapsto> set hs]) (tv_view src)"
    using Cons.IH Cons.prems by (simp add: p mergeTopicValue_def tv_view_touch_insert [symmetric])
  then show ?case by (simp add: p tv_view_Cons [OF n] tv_join_assoc)
qed (simp add: mergeTopicValue_def)

lemma merge_wf: "tv_wf dst \<Longrightarrow> tv_wf src \<Longrightarrow> tv_wf (mergeTopicValue dst src)"
proof (induction src arbitrary: dst)
  case (Cons p src)
  obtain n hs where p: "p = (n, hs)" by fastforce
  from Cons.prems(2) p have hd: "node_ok n" "hashes_ok hs" and tl: "tv_wf src"
    by (auto simp: tv_wf_iff)
  have "tv_wf (touch n (\<lambda>hs'. foldl (\<lambda>hs h. insert_hash h hs) hs' hs) dst)"
    using Cons.prems(1) hd by (intro touch_wf) (auto intro: hashes_ok_insert)
  from Cons.IH [OF this tl] show ?case by (simp add: p mergeTopicValue_def)
qed (simp add: mergeTopicValue_def)

subsection \<open>Parsing\<close>

lemma separators_no_space:
  "\<forall>r \<in> set space_runes. colon \<notin> set r \<and> comma \<notin> set r"
  by (simp add: space_runes_def)

lemma hashes_ok_parse:
  assumes "hashes_ok hs" "semicolon \<notin> set p"
  shows "hashes_ok (foldl parse_hash hs (split_on comma p))"
proof -
  have "hash_ok (TrimSpace x)" if "x \<in> set (split_on comma p)" "TrimSpace x \<noteq> []" for x
    using that split_on_no_sep [OF that(1)] split_on_subset [OF that(1)] set_TrimSpace [of x] assms(2)
    by (auto simp: hash_ok_def trimmed_TrimSpace)
  then show ?thesis
    using assms(1) by (auto simp: hashes_ok_def list_all_iff distinct_foldl_parse_hash set_foldl_parse_hash)
qed

lemma parse_entry_wf:
  assumes "tv_wf m" "semicolon \<notin> set e"
  shows "tv_wf (parse_entry m e)"
proof (cases "TrimSpace e = []")
  case True
  with assms show ?thesis by (simp add: parse_entry_def)
next
  case False
  have sc: "semicolon \<notin> set (TrimSpace e)" using assms(2) set_TrimSpace by blast
  show ?thesis
  proof (cases rule: SplitN2_cases [of colon "TrimSpace e"])
    case 1
    with False assms show ?thesis by (simp add: parse_entry_def)
  next
    case (2 x y)
    have "node_ok (TrimSpace x)" if "TrimSpace x \<noteq> []"
      using that sc 2(2,3) set_TrimSpace [of x] by (auto simp: node_ok_def trimmed_TrimSpace)
    moreover have "hashes_ok hs \<Longrightarrow> hashes_ok (foldl parse_hash hs (split_on comma y))" for hs
      using sc 2(2) by (intro hashes_ok_parse) auto
    ultimately show ?thesis
      using False 2(1) assms by (auto simp: parse_entry_def Let_def intro!: touch_wf)
  qed
qed

lemma foldl_parse_entry_wf:
  "tv_wf m \<Longrightarrow> \<forall>e \<in> set es. semicolon \<notin> set e \<Longrightarrow> tv_wf (foldl parse_entry m es)"
  by (induction es arbitrary: m) (auto simp: parse_entry_wf)

lemma parse_wf: "tv_wf (parseTopicValue raw)"
proof -
  have "\<forall>e \<in> set (split_on semicolon raw). semicolon \<notin> set e" using split_on_no_sep by blast
  then show ?thesis
    by (auto simp: parseTopicValue_def tv_wf_def intro!: foldl_parse_entry_wf [unfolded tv_wf_def])
qed

subsection \<open>Parsing undoes formatting\<close>

lemma join_last: "hs \<noteq> [] \<Longrightarrow> join c hs = last hs \<or> (\<exists>v. join c hs = v @ c # last hs)"
proof (induction c hs rule: join.induct)
  case (3 c x y ys)
  then consider (one) "join c (y # ys) = last (y # ys)"
    | (more) v where "join c (y # ys) = v @ c # last (y # ys)"
    by auto
  then show ?case
  proof cases
    case (more v)
    then have "join c (x # y # ys) = (x @ c # v) @ c # last (x # y # ys)" by simp
    then show ?thesis by blast
  qed auto
qed auto

lemma entry_trimmed:
  assumes "node_ok n" "hashes_ok hs"
  shows "trimmed (n @ colon # join comma hs)"
proof -
  have front: "no_front space_runes n" using assms(1) by (simp add: node_ok_def trimmed_def)
  have rear: "no_front (map rev space_runes) (rev (last hs))" if "hs \<noteq> []"
    using assms(2) that by (simp add: hashes_ok_def list_all_iff hash_ok_def trimmed_def)
  consider (none) "hs = []" | (one) "hs \<noteq> []" "join comma hs = last hs"
    | (more) v where "hs \<noteq> []" "join comma hs = v @ comma # last hs"
    using join_last [of hs comma] by blast
  then show ?thesis
  proof cases
    case none
    then show ?thesis
      using trimmed_guard [OF front, of "[]" colon colon "n @ [colon]" "[]" n] separators_no_space by simp
  next
    case one
    then show ?thesis
      using trimmed_guard [OF front rear [OF one(1)], of colon colon _ "last hs" n] separators_no_space by simp
  next
    case (more v)
    then show ?thesis
      using trimmed_guard [OF front rear [OF more(1)], of colon comma _ "v @ comma # last hs" "n @ colon # v"]
        separators_no_space by simp
  qed
qed

lemma entry_no_semicolon:
  "node_ok n \<Longrightarrow> hashes_ok hs \<Longrightarrow> semicolon \<notin> set (n @ colon # join comma hs)"
  using set_join [of comma hs]
  by (auto simp: node_ok_def hashes_ok_def list_all_iff hash_ok_def)

lemma tv_view_parse_entry:
  assumes "node_ok n" "hashes_ok hs"
  shows "tv_view (parse_entry m (n @ colon # join comma hs)) = tv_join (tv_view m) [n \<mapsto> set hs]"
proof -
  let ?e = "n @ colon # join comma hs"
  have e: "TrimSpace ?e = ?e" "?e \<noteq> []" using entry_trimmed [OF assms] by (auto simp: TrimSpace_id)
  have n: "TrimSpace n = n" "n \<noteq> []" "colon \<notin> set n"
    using assms(1) by (auto simp: node_ok_def TrimSpace_id)
  have "\<forall>h \<in> set hs. TrimSpace h = h \<and> h \<noteq> [] \<and> comma \<notin> set h"
    using assms(2) by (auto simp: hashes_ok_def list_all_iff hash_ok_def TrimSpace_id)
  then have "TrimSpace ` set (split_on comma (join comma hs)) - {[]} = set hs"
    using TrimSpace_id [of "[]"]
    by (cases "hs = []") (auto simp: split_on_join trimmed_def image_iff)
  then have pe: "parse_entry m ?e = touch n (\<lambda>hs0. foldl parse_hash hs0 (split_on comma (join comma hs))) m"
    and vs: "set (foldl parse_hash hs0 (split_on comma (join comma hs))) = set hs0 \<union> set hs" for hs0
    using e n by (simp_all add: parse_entry_def SplitN2_append set_foldl_parse_hash)
  show ?thesis
  proof
    fix n'
    show "tv_view (parse_entry m ?e) n' = tv_join (tv_view m) [n \<mapsto> set hs] n'"
      unfolding pe by (cases "n = n'")
        (auto simp: tv_view_def tv_join_def touch_same touch_other vs split: option.splits)
  qed
qed

lemma tv_view_parse_entries:
  assumes "\<And>n. n \<in> set ns \<Longrightarrow> node_ok n \<and> hashes_ok (g n)"
  shows "tv_view (foldl parse_entry m (map (\<lambda>n. n @ colon # join comma (g n)) ns)) =
    tv_join (tv_view m) (\<lambda>n. if n \<in> set ns then Some (set (g n)) else None)"
  using assms
proof (induction ns arbitrary: m)
  case (Cons n ns)
  have "tv_join [n \<mapsto> set (g n)] (\<lambda>n. if n \<in> set ns then Some (set (g n)) else None) =
      (\<lambda>n'. if n' \<in> set (n # ns) then Some (set (g n')) else None)"
    by (rule ext) (auto simp: tv_join_def)
  with Cons show ?case by (simp add: tv_view_parse_entry tv_join_assoc)
qed simp

lemma sort_eq_of_set: "distinct xs \<Longrightarrow> distinct ys \<Longrightarrow> set xs = set ys \<Longrightarrow> sort xs = sort ys"
  by (intro sorted_distinct_set_unique) auto

definition entry_hashes :: "topic_map \<Rightarrow> bytes \<Rightarrow> bytes list" where
  "entry_hashes m n = sort (case map_of m n of None \<Rightarrow> [] | Some hs \<Rightarrow> hs)"

lemma format_entry_eq: "format_entry m = (\<lambda>n. n @ colon # join comma (entry_hashes m n))"
  by (rule ext) (simp add: format_entry_def entry_hashes_def)

lemma entry_hashes_ok: "tv_wf m \<Longrightarrow> hashes_ok (entry_hashes m n)"
  by (auto simp: entry_hashes_def tv_wf_iff hashes_ok_def list_all_iff dest: map_of_SomeD split: option.splits)

lemma tv_view_keys: "tv_view m n \<noteq> None \<longleftrightarrow> n \<in> set (map fst m)"
  by (simp add: tv_view_def map_of_eq_None_iff)

lemma tv_view_entry: "n \<in> set (map fst m) \<Longrightarrow> tv_view m n = Some (set (entry_hashes m n))"
  by (cases "map_of m n") (auto simp: tv_view_def entry_hashes_def map_of_eq_None_iff)

lemma tv_view_eq: "tv_view m = (\<lambda>n. if n \<in> set (map fst m) then Some (set (entry_hashes m n)) else None)"
proof
  fix n
  show "tv_view m n = (if n \<in> set (map fst m) then Some (set (entry_hashes m n)) else None)"
    using tv_view_keys [of m n] tv_view_entry [of n m] by (cases "n \<in> set (map fst m)") auto
qed

lemma tv_view_parse_format:
  assumes "tv_wf m"
  shows "tv_view (parseTopicValue (formatTopicValue m)) = tv_view m"
proof (cases "m = []")
  case False
  let ?ns = "sort (map fst m)"
  have ok: "node_ok n \<and> hashes_ok (entry_hashes m n)" if "n \<in> set ?ns" for n
    using that assms entry_hashes_ok [OF assms] by (auto simp: tv_wf_iff)
  let ?es = "map (format_entry m) ?ns"
  have ne: "?es \<noteq> []" using False by (metis length_0_conv length_map length_sort)
  have "\<forall>e \<in> set ?es. semicolon \<notin> set e \<and> e \<noteq> []"
    using ok entry_no_semicolon by (auto simp: format_entry_eq)
  moreover from this ne have "join semicolon ?es \<noteq> []" by (intro join_not_Nil) blast+
  ultimately have "parseTopicValue (formatTopicValue m) = foldl parse_entry [] ?es"
    using False ne by (simp add: parseTopicValue_def formatTopicValue_def split_on_join)
  then show ?thesis
    using tv_view_parse_entries [of ?ns "entry_hashes m" "[]"] ok
    by (simp add: format_entry_eq tv_view_eq [of m])
qed (simp add: formatTopicValue_def parseTopicValue_def)

lemma format_canonical:
  assumes "tv_wf a" "tv_wf b" "tv_view a = tv_view b"
  shows "formatTopicValue a = formatTopicValue b"
proof -
  have keys: "set (map fst a) = set (map fst b)"
    using assms(3) tv_view_keys by (metis subsetI subset_antisym)
  then have ns: "sort (map fst a) = sort (map fst b)"
    using assms by (intro sort_eq_of_set) (auto simp: tv_wf_def)
  have "entry_hashes a n = entry_hashes b n" if "n \<in> set (map fst a)" for n
  proof -
    have "set (entry_hashes a n) = set (entry_hashes b n)"
      using that keys assms(3) tv_view_entry by (metis option.inject)
    moreover have "sort (entry_hashes m n) = entry_hashes m n" for m
      by (rule sorted_sort_id) (simp add: entry_hashes_def)
    ultimately show ?thesis
      using entry_hashes_ok assms(1,2) sort_eq_of_set unfolding hashes_ok_def by metis
  qed
  with ns keys have "map (format_entry a) (sort (map fst a)) = map (format_entry b) (sort (map fst b))"
    by (auto simp: format_entry_eq)
  moreover have "a = [] \<longleftrightarrow> b = []" using keys by auto
  ultimately show ?thesis by (simp add: formatTopicValue_def)
qed

subsection \<open>Registers whose stores are joins\<close>

locale join_register =
  fixes view :: "'v \<Rightarrow> 'a"
    and jn :: "'a \<Rightarrow> 'a \<Rightarrow> 'a"
    and store :: "'v \<Rightarrow> 'v \<Rightarrow> 'v"
  assumes view_store: "view (store v x) = jn (view v) (view x)"
    and canonical: "view (store v x) = view (store w y) \<Longrightarrow> store v x = store w y"
    and jn_comm: "jn a b = jn b a"
    and jn_assoc: "jn (jn a b) c = jn a (jn b c)"
    and jn_idem: "jn a a = a"
begin

lemma view_foldl: "view (foldl store v xs) = foldl jn (view v) (map view xs)"
  by (induction xs arbitrary: v) (simp_all add: view_store)

lemma jn_absorb_start: "jn a (foldl jn a xs) = foldl jn a xs"
  by (induction xs rule: rev_induct) (simp_all add: jn_idem jn_assoc [symmetric])

lemma jn_absorb_elem: "x \<in> set xs \<Longrightarrow> jn x (foldl jn a xs) = foldl jn a xs"
proof (induction xs rule: rev_induct)
  case (snoc y ys)
  show ?case
  proof (cases "x \<in> set ys")
    case True
    with snoc.IH show ?thesis by (simp add: jn_assoc [symmetric])
  next
    case False
    with snoc.prems have "x = y" by simp
    then show ?thesis by (simp add: jn_comm [of _ y]) (simp add: jn_assoc [symmetric] jn_idem)
  qed
qed simp

lemma jn_least: "jn a z = z \<Longrightarrow> \<forall>x \<in> set xs. jn x z = z \<Longrightarrow> jn (foldl jn a xs) z = z"
  by (induction xs rule: rev_induct) (simp_all add: jn_assoc)

lemma foldl_jn_set: "set xs = set ys \<Longrightarrow> foldl jn a xs = foldl jn a ys"
proof -
  assume eq: "set xs = set ys"
  have "jn (foldl jn a xs) (foldl jn a ys) = foldl jn a ys"
    using eq by (intro jn_least) (auto simp: jn_absorb_start jn_absorb_elem)
  moreover have "jn (foldl jn a ys) (foldl jn a xs) = foldl jn a xs"
    using eq by (intro jn_least) (auto simp: jn_absorb_start jn_absorb_elem)
  ultimately show ?thesis using jn_comm by metis
qed

lemma stores_converge: "set xs = set ys \<Longrightarrow> foldl store v xs = foldl store v ys"
proof -
  assume eq: "set xs = set ys"
  show ?thesis
  proof (cases xs rule: rev_cases)
    case Nil
    with eq show ?thesis by simp
  next
    case (snoc xs' x)
    with eq obtain ys' y where ys: "ys = ys' @ [y]" by (cases ys rule: rev_cases) auto
    have "foldl jn (view v) (map view xs) = foldl jn (view v) (map view ys)"
      using eq by (intro foldl_jn_set) simp
    then have "view (foldl store v xs) = view (foldl store v ys)" by (simp only: view_foldl)
    with snoc ys show ?thesis using canonical by simp
  qed
qed

end

lemma tv_view_store:
  "tv_view (parseTopicValue (store_value v x)) = tv_join (tv_view (parseTopicValue v)) (tv_view (parseTopicValue x))"
proof -
  have "distinct (map fst (parseTopicValue x))" using parse_wf [of x] by (simp add: tv_wf_def)
  then show ?thesis
    by (simp add: store_value_def tv_view_parse_format merge_wf parse_wf tv_view_merge)
qed

interpretation topic: join_register "\<lambda>v. tv_view (parseTopicValue v)" tv_join store_value
proof unfold_locales
  fix v x w y
  assume "tv_view (parseTopicValue (store_value v x)) = tv_view (parseTopicValue (store_value w y))"
  then show "store_value v x = store_value w y"
    unfolding store_value_def
    by (intro format_canonical) (simp_all add: tv_view_parse_format merge_wf parse_wf)
qed (fact tv_view_store tv_join_comm tv_join_assoc tv_join_idem)+

subsection \<open>Properties\<close>

text \<open>
  C19. Parsing undoes formatting: a map of node identifiers to sets of hashes, whose tokens are non-empty,
  free of separators and of surrounding white space, is read back unchanged from its text;
  and what the parser returns, on any input at all, is such a map.
\<close>

theorem topic_value_roundtrip:
  "tv_wf (parseTopicValue raw) \<and>
   (tv_wf m \<longrightarrow> tv_view (parseTopicValue (formatTopicValue m)) = tv_view m)"
  by (simp add: parse_wf tv_view_parse_format)

theorem topic_value_roundtrip_witness:
  "tv_wf [(str ''n1'', [str ''h2'', str ''h1''])] \<and>
   tv_view (parseTopicValue (formatTopicValue [(str ''n1'', [str ''h2'', str ''h1''])])) (str ''n1'') =
     Some {str ''h1'', str ''h2''}"
proof -
  have wf: "tv_wf [(str ''n1'', [str ''h2'', str ''h1''])]"
    by (simp add: tv_wf_def node_ok_def hash_ok_def trimmed_def no_front_def starts_with_def
        space_runes_def str_def of_char_def)
  then have "tv_view (parseTopicValue (formatTopicValue [(str ''n1'', [str ''h2'', str ''h1''])])) =
      tv_view [(str ''n1'', [str ''h2'', str ''h1''])]"
    using topic_value_roundtrip by blast
  with wf show ?thesis by (simp add: tv_view_def insert_commute)
qed

text \<open>
  C15. The value stored under a topic converges: after the same set of stores, in any order and with any
  repetitions, the stored bytes are the same, and each store adds the entries of the
  incoming value to those already there.
\<close>

theorem stores_converge_bytes:
  assumes "set xs = set ys"
  shows "foldl store_value v xs = foldl store_value v ys \<and>
    tv_view (parseTopicValue (store_value v x)) =
      tv_join (tv_view (parseTopicValue v)) (tv_view (parseTopicValue x))"
  using topic.stores_converge [OF assms] tv_view_store by blast

theorem stores_converge_bytes_witness:
  "set [str ''a:1'', str ''b:2'', str ''a:1''] = set [str ''b:2'', str ''a:1''] \<and>
   foldl store_value [] [str ''a:1'', str ''b:2'', str ''a:1''] =
     foldl store_value [] [str ''b:2'', str ''a:1'']"
proof -
  have "set [str ''a:1'', str ''b:2'', str ''a:1''] = set [str ''b:2'', str ''a:1'']" by auto
  then show ?thesis using stores_converge_bytes by blast
qed

end
