(* ===== verification/Dht_Node.thy ===== *)
theory Dht_Node
  imports Routing_Table Topic_Value
begin

text \<open>
  The node and its message handlers (\<open>src/kademlia/node.go\<close>, \<open>src/kademlia/node_state.go\<close>).
  \<^item> \<open>Node\<close> is the struct: the node's own contact, its routing table, the values stored by key, its
    state. A handler takes the environment of its call, \<open>call_env\<close>: whether its context was already
    cancelled, and which contacts answer a ping (the routing table's callback). Handlers run
    atomically here; the interleaving inside \<open>Update\<close> is in \<open>Routing_Table\<close>.
  \<^item> \<open>DHTHandler\<close> is the Go interface of that name, a record of functions; \<open>node_handler\<close> is the node as
    one. The locale \<open>dht_handler\<close> states what a client of the interface may rely on and derives what
    holds after any sequence of requests; the node interprets it.
  The logging of \<open>HandleStore\<close> is left out; \<open>NewRandomId\<close> reads random bytes and \<open>NewNodeId\<close>
  applies SHA-256, both outside the code.
\<close>

datatype NodeState = StateJoining | StateActive

definition NodeState_String :: "NodeState \<Rightarrow> bytes" where
  "NodeState_String ns = (case ns of StateJoining \<Rightarrow> str ''JOINING'' | StateActive \<Rightarrow> str ''ACTIVE'')"

record Node =
  Self :: Contact
  node_RoutingTable :: RoutingTable
  Storage :: "NodeId \<rightharpoonup> bytes"
  node_state :: NodeState

definition NewNode :: "NodeId \<Rightarrow> bytes \<Rightarrow> int \<Rightarrow> Node" where
  "NewNode i ip port =
     \<lparr>Self = \<lparr>ID = i, IP = ip, Port = port\<rparr>, node_RoutingTable = NewRoutingTable i,
      Storage = Map.empty, node_state = StateJoining\<rparr>"

definition NodeId_String :: "NodeId \<Rightarrow> bytes" where
  "NodeId_String nodeId = hex_EncodeToString (id_bytes nodeId)"

definition SetState :: "Node \<Rightarrow> NodeState \<Rightarrow> Node" where
  "SetState node target = node\<lparr>node_state := target\<rparr>"

record call_env =
  ctx_err :: bool
  alive :: "Contact \<Rightarrow> bool"

definition HandlePing :: "call_env \<Rightarrow> Node \<Rightarrow> Contact \<Rightarrow> Node \<times> bool" where
  "HandlePing e node requester =
     (node\<lparr>node_RoutingTable := Update (alive e) (node_RoutingTable node) requester\<rparr>, True)"

definition HandleFindNode :: "call_env \<Rightarrow> Node \<Rightarrow> Contact \<Rightarrow> NodeId \<Rightarrow> Node \<times> Contact list" where
  "HandleFindNode e node requester key =
     (if ctx_err e then (node, [])
      else
        let node = node\<lparr>node_RoutingTable := Update (alive e) (node_RoutingTable node) requester\<rparr>
        in (node, FindClosest (node_RoutingTable node) key k_size))"

definition HandleFindValue :: "call_env \<Rightarrow> Node \<Rightarrow> Contact \<Rightarrow> NodeId \<Rightarrow> Node \<times> bytes \<times> Contact list" where
  "HandleFindValue e node requester key =
     (if ctx_err e then (node, [], [])
      else
        let node = node\<lparr>node_RoutingTable := Update (alive e) (node_RoutingTable node) requester\<rparr>
        in case Storage node key of
             Some value \<Rightarrow> (node, value, [])
           | None \<Rightarrow> (node, [], FindClosest (node_RoutingTable node) key k_size))"

text \<open>A missing map entry reads as the nil slice.\<close>

definition HandleStore :: "call_env \<Rightarrow> Node \<Rightarrow> Contact \<Rightarrow> NodeId \<Rightarrow> bytes \<Rightarrow> Node" where
  "HandleStore e node requester key value =
     (if ctx_err e then node
      else
        let node = node\<lparr>node_RoutingTable := Update (alive e) (node_RoutingTable node) requester\<rparr>;
            existing = parseTopicValue (case Storage node key of None \<Rightarrow> [] | Some v \<Rightarrow> v);
            incoming = parseTopicValue value;
            existing = mergeTopicValue existing incoming
        in node\<lparr>Storage := (Storage node)(key \<mapsto> formatTopicValue existing)\<rparr>)"

subsection \<open>The interface of the handlers\<close>

record 's DHTHandler =
  handle_ping :: "'s \<Rightarrow> Contact \<Rightarrow> 's \<times> bool"
  handle_find_node :: "'s \<Rightarrow> Contact \<Rightarrow> NodeId \<Rightarrow> 's \<times> Contact list"
  handle_find_value :: "'s \<Rightarrow> Contact \<Rightarrow> NodeId \<Rightarrow> 's \<times> bytes \<times> Contact list"
  handle_store :: "'s \<Rightarrow> Contact \<Rightarrow> NodeId \<Rightarrow> bytes \<Rightarrow> 's"

definition node_handler :: "call_env \<Rightarrow> Node DHTHandler" where
  "node_handler e =
     \<lparr>handle_ping = HandlePing e, handle_find_node = HandleFindNode e,
      handle_find_value = HandleFindValue e, handle_store = HandleStore e\<rparr>"

text \<open>A request to a handler, and what serving it does to the handler's state.\<close>

datatype dht_request =
    ReqPing | ReqFindNode NodeId | ReqFindValue NodeId | ReqStore NodeId bytes

fun serve :: "'s DHTHandler \<Rightarrow> Contact \<Rightarrow> dht_request \<Rightarrow> 's \<Rightarrow> 's" where
  "serve h c ReqPing s = fst (handle_ping h s c)"
| "serve h c (ReqFindNode key) s = fst (handle_find_node h s c key)"
| "serve h c (ReqFindValue key) s = fst (handle_find_value h s c key)"
| "serve h c (ReqStore key v) s = handle_store h s c key v"

definition serve_all :: "('e \<Rightarrow> 's DHTHandler) \<Rightarrow> ('e \<times> Contact \<times> dht_request) list \<Rightarrow> 's \<Rightarrow> 's" where
  "serve_all h reqs s = foldl (\<lambda>s (e, c, r). serve (h e) c r s) s reqs"

text \<open>The values that requests with a live context store under a key.\<close>

definition stores_of :: "('e \<Rightarrow> bool) \<Rightarrow> NodeId \<Rightarrow> ('e \<times> Contact \<times> dht_request) list \<Rightarrow> bytes list" where
  "stores_of cancelled key reqs =
     List.map_filter (\<lambda>(e, c, r). case r of
         ReqStore k v \<Rightarrow> if k = key \<and> \<not> cancelled e then Some v else None
       | _ \<Rightarrow> None) reqs"

lemma in_stores_of:
  "(e, c, ReqStore key v) \<in> set reqs \<Longrightarrow> \<not> cancelled e \<Longrightarrow> v \<in> set (stores_of cancelled key reqs)"
  by (induction reqs) (auto simp: stores_of_def map_filter_simps split: option.split)

locale dht_handler =
  fixes h :: "'e \<Rightarrow> 's DHTHandler"
    and cancelled :: "'e \<Rightarrow> bool"
    and inv :: "'s \<Rightarrow> bool"
    and stored :: "'s \<Rightarrow> NodeId \<Rightarrow> bytes option"
    and merge :: "bytes \<Rightarrow> bytes \<Rightarrow> bytes"
  assumes inv_serve: "inv s \<Longrightarrow> inv (serve (h e) c r s)"
    and stored_ping: "stored (fst (handle_ping (h e) s c)) = stored s"
    and stored_find_node: "stored (fst (handle_find_node (h e) s c key)) = stored s"
    and stored_find_value: "stored (fst (handle_find_value (h e) s c key)) = stored s"
    and stored_store: "stored (handle_store (h e) s c key v) =
      (if cancelled e then stored s
       else (stored s)(key \<mapsto> merge (case stored s key of None \<Rightarrow> [] | Some x \<Rightarrow> x) v))"
    and hit: "\<not> cancelled e \<Longrightarrow> stored s key = Some v \<Longrightarrow>
      snd (handle_find_value (h e) s c key) = (v, [])"
begin

lemma inv_serve_all: "inv s \<Longrightarrow> inv (serve_all h reqs s)"
  unfolding serve_all_def by (induction reqs arbitrary: s) (auto intro: inv_serve)

lemma stored_serve:
  "stored (serve (h e) c r s) key =
     (case r of
        ReqStore k v \<Rightarrow> if k = key \<and> \<not> cancelled e
          then Some (merge (case stored s key of None \<Rightarrow> [] | Some x \<Rightarrow> x) v) else stored s key
      | _ \<Rightarrow> stored s key)"
  by (cases r) (simp_all add: stored_ping stored_find_node stored_find_value stored_store)

lemma stored_serve_all:
  "stored (serve_all h reqs s) key =
     (if stores_of cancelled key reqs = [] then stored s key
      else Some (foldl merge (case stored s key of None \<Rightarrow> [] | Some x \<Rightarrow> x) (stores_of cancelled key reqs)))"
proof (induction reqs arbitrary: s)
  case Nil
  then show ?case by (simp add: serve_all_def stores_of_def map_filter_simps)
next
  case (Cons p reqs)
  obtain e c r where p: "p = (e, c, r)" by (cases p)
  have "serve_all h (p # reqs) s = serve_all h reqs (serve (h e) c r s)"
    by (simp add: serve_all_def p)
  then show ?case
    by (auto simp: Cons p stores_of_def map_filter_simps stored_serve split: dht_request.split)
qed

end

subsection \<open>The node keeps its invariant\<close>

text \<open>
  The routing table is well formed and belongs to the node; every stored value is in the
  normal form that formatting produces.
\<close>

definition wf_node :: "Node \<Rightarrow> bool" where
  "wf_node node \<longleftrightarrow> wf_rt (node_RoutingTable node) \<and> SelfID (node_RoutingTable node) = ID (Self node) \<and>
     (\<forall>v \<in> ran (Storage node). formatTopicValue (parseTopicValue v) = v)"

lemma New_wf_node: "wf_node (NewNode i ip port)"
  by (simp add: wf_node_def NewNode_def New_wf) (simp add: NewRoutingTable_def)

lemma store_value_normal: "formatTopicValue (parseTopicValue (store_value v x)) = store_value v x"
  unfolding store_value_def
  by (intro format_canonical) (simp_all add: tv_view_parse_format merge_wf parse_wf)

lemma HandleStore_eq:
  "HandleStore e node c key v =
     (if ctx_err e then node
      else node\<lparr>node_RoutingTable := Update (alive e) (node_RoutingTable node) c,
        Storage := (Storage node)(key \<mapsto> store_value (case Storage node key of None \<Rightarrow> [] | Some v \<Rightarrow> v) v)\<rparr>)"
  by (simp add: HandleStore_def store_value_def Let_def)

lemma wf_node_update:
  "wf_node node \<Longrightarrow> wf_node (node\<lparr>node_RoutingTable := Update p (node_RoutingTable node) c\<rparr>)"
  by (simp add: wf_node_def Update_wf)

lemma wf_node_store:
  "wf_node node \<Longrightarrow> wf_node (node\<lparr>Storage := (Storage node)(key \<mapsto> store_value w v)\<rparr>)"
  by (auto simp: wf_node_def store_value_normal ran_def)

lemma HandleStore_wf: "wf_node node \<Longrightarrow> wf_node (HandleStore e node c key v)"
  using wf_node_store [OF wf_node_update, of node "alive e" c key] by (simp add: HandleStore_eq)

interpretation node: dht_handler node_handler ctx_err wf_node Storage store_value
proof unfold_locales
  fix s e c r assume "wf_node s"
  then show "wf_node (serve (node_handler e) c r s)"
    by (cases r) (simp_all add: node_handler_def HandlePing_def HandleFindNode_def HandleFindValue_def
        Let_def wf_node_update HandleStore_wf split: option.split)
qed (simp_all add: node_handler_def HandlePing_def HandleFindNode_def HandleFindValue_def
    HandleStore_eq Let_def split: option.split)

subsection \<open>What a node publishes\<close>

text \<open>The payload \<open>Put\<close> sends: the publisher's identifier in hexadecimal, a colon, the value.\<close>

definition put_payload :: "NodeId \<Rightarrow> bytes \<Rightarrow> bytes" where
  "put_payload self value = NodeId_String self @ colon # value"

lemma node_ok_NodeId_String: "node_ok (NodeId_String i)"
proof -
  have "length (NodeId_String i) = 64" by (simp add: NodeId_String_def)
  then have "NodeId_String i \<noteq> []" by auto
  then show ?thesis
    using set_hex_EncodeToString [of "id_bytes i"] hex_digits_safe(2,3) trimmed_hex
    by (auto simp: node_ok_def NodeId_String_def)
qed

lemma tv_view_payload:
  assumes "hashes_ok hs"
  shows "tv_view (parseTopicValue (put_payload self (join comma hs))) = [NodeId_String self \<mapsto> set hs]"
proof -
  let ?e = "put_payload self (join comma hs)"
  have "semicolon \<notin> set ?e"
    unfolding put_payload_def by (rule entry_no_semicolon [OF node_ok_NodeId_String assms])
  then have "parseTopicValue ?e = parse_entry [] ?e"
    by (simp add: parseTopicValue_def split_on_single) (simp add: put_payload_def)
  then show ?thesis
    unfolding put_payload_def by (simp only: tv_view_parse_entry [OF node_ok_NodeId_String assms]) simp
qed

lemma tv_join_absorbed: "tv_join [n \<mapsto> s] y = y \<Longrightarrow> \<exists>t. y n = Some t \<and> s \<subseteq> t"
  by (drule fun_cong [of _ _ n]) (auto simp: tv_join_def split: option.splits)

lemma stores_keep_entry:
  assumes "hashes_ok hs" "put_payload self (join comma hs) \<in> set vs"
  shows "\<exists>t. tv_view (parseTopicValue (foldl store_value v vs)) (NodeId_String self) = Some t \<and> set hs \<subseteq> t"
proof -
  let ?view = "\<lambda>v. tv_view (parseTopicValue v)"
  have "[NodeId_String self \<mapsto> set hs] \<in> set (map ?view vs)"
    using assms(2) tv_view_payload [OF assms(1), of self] by (metis image_eqI image_set)
  then have "tv_join [NodeId_String self \<mapsto> set hs] (?view (foldl store_value v vs)) = ?view (foldl store_value v vs)"
    by (simp only: topic.view_foldl topic.jn_absorb_elem)
  then show ?thesis by (rule tv_join_absorbed)
qed

subsection \<open>Properties\<close>

text \<open>
  C20. A node stays well formed under any sequence of requests, from any requesters, with any contexts and
  whichever contacts answer pings: its routing table keeps its invariant and remains the
  node's own, and every stored value is in normal form.
\<close>

theorem node_requests_invariant: "wf_node node \<Longrightarrow> wf_node (serve_all node_handler reqs node)"
  by (rule node.inv_serve_all)

theorem node_requests_invariant_witness:
  "wf_node (NewNode zero_id [127, 0, 0, 1] 9000) \<and>
   wf_node (serve_all node_handler
     [(\<lparr>ctx_err = False, alive = \<lambda>_. True\<rparr>, contact_at 5, ReqStore (id_of_nat 7) (str ''n:h'')),
      (\<lparr>ctx_err = False, alive = \<lambda>_. False\<rparr>, contact_at 6, ReqFindNode (id_of_nat 8))]
     (NewNode zero_id [127, 0, 0, 1] 9000))"
  using node_requests_invariant [OF New_wf_node] New_wf_node by blast

text \<open>
  C14. Replicas converge: two nodes that hold the same values end up with the same bytes under every key after
  any two sequences of requests that store the same set of values under each key, whatever
  the order and repetition of the stores and the other requests in between.
\<close>

theorem replicas_converge:
  assumes "Storage a = Storage b"
    and "\<forall>key. set (stores_of ctx_err key reqs) = set (stores_of ctx_err key reqs')"
  shows "Storage (serve_all node_handler reqs a) = Storage (serve_all node_handler reqs' b)"
proof
  fix key
  have eq: "set (stores_of ctx_err key reqs) = set (stores_of ctx_err key reqs')" using assms(2) by simp
  then have "stores_of ctx_err key reqs = [] \<longleftrightarrow> stores_of ctx_err key reqs' = []" by auto
  then show "Storage (serve_all node_handler reqs a) key = Storage (serve_all node_handler reqs' b) key"
    using topic.stores_converge [OF eq] by (simp add: node.stored_serve_all assms(1))
qed

theorem replicas_converge_witness:
  "let e = \<lparr>ctx_err = False, alive = \<lambda>_. True\<rparr>; t = id_of_nat 7;
       a = NewNode (id_of_nat 1) [] 1; b = NewNode (id_of_nat 2) [] 2
   in Storage (serve_all node_handler
        [(e, contact_at 5, ReqStore t (str ''n:h'')), (e, contact_at 6, ReqStore t (str ''m:g''))] a) =
      Storage (serve_all node_handler
        [(e, contact_at 6, ReqStore t (str ''m:g'')), (e, contact_at 8, ReqFindNode t),
         (e, contact_at 5, ReqStore t (str ''n:h'')), (e, contact_at 6, ReqStore t (str ''m:g''))] b)"
  unfolding Let_def
  by (rule replicas_converge) (auto simp: NewNode_def stores_of_def map_filter_simps)

text \<open>
  What is published is found: once a node has handled the store of a publisher's hashes under a topic,
  then after any further requests a request for the topic is answered with a value, and no
  contacts, in which all these hashes are listed under the publisher's identifier.
\<close>

theorem published_hashes_found:
  assumes "hashes_ok hs" "\<not> ctx_err e" "\<not> ctx_err e'"
    and "(e, c, ReqStore key (put_payload self (join comma hs))) \<in> set reqs"
  shows "\<exists>v t. snd (HandleFindValue e' (serve_all node_handler reqs node) c' key) = (v, []) \<and>
    tv_view (parseTopicValue v) (NodeId_String self) = Some t \<and> set hs \<subseteq> t"
proof -
  let ?vs = "stores_of ctx_err key reqs"
  have p: "put_payload self (join comma hs) \<in> set ?vs"
    by (rule in_stores_of [of e c]) (use assms in simp_all)
  then have "Storage (serve_all node_handler reqs node) key =
      Some (foldl store_value (case Storage node key of None \<Rightarrow> [] | Some x \<Rightarrow> x) ?vs)"
    by (auto simp: node.stored_serve_all)
  moreover have "handle_find_value (node_handler e') = HandleFindValue e'" by (simp add: node_handler_def)
  ultimately show ?thesis
    using node.hit [OF assms(3)] stores_keep_entry [OF assms(1) p] by metis
qed

theorem published_hashes_found_witness:
  "let e = \<lparr>ctx_err = False, alive = \<lambda>_. True\<rparr>; p = id_of_nat 3; t = id_of_nat 7 in
   \<exists>v s. snd (HandleFindValue e (serve_all node_handler
       [(e, contact_at 3, ReqStore t (put_payload p (join comma [str ''h1'', str ''h2'']))),
        (e, contact_at 4, ReqStore t (str ''junk''))] (NewNode zero_id [] 1)) (contact_at 9) t) = (v, []) \<and>
     tv_view (parseTopicValue v) (NodeId_String p) = Some s \<and> {str ''h1'', str ''h2''} \<subseteq> s"
proof -
  have "hashes_ok [str ''h1'', str ''h2'']"
    by (simp add: hashes_ok_def hash_ok_def trimmed_def no_front_def starts_with_def
        space_runes_def str_def of_char_def)
  from published_hashes_found [OF this, of "\<lparr>ctx_err = False, alive = \<lambda>_. True\<rparr>"
      "\<lparr>ctx_err = False, alive = \<lambda>_. True\<rparr>" "contact_at 3" "id_of_nat 7" "id_of_nat 3"]
  show ?thesis unfolding Let_def by simp
qed

text \<open>
  A store whose value has no well-formed entry hides its key: the node then stores an empty value and
  answers later requests for the key with neither a value nor contacts, until something
  else is stored there; without the store it would have answered with its closest contacts.
\<close>

theorem malformed_store_hides_key:
  assumes "parseTopicValue v = []" "Storage node key = None" "\<not> ctx_err e" "\<not> ctx_err e'"
    and "stores_of ctx_err key reqs = []"
  shows "snd (HandleFindValue e' (serve_all node_handler reqs (HandleStore e node c key v)) c' key) = ([], []) \<and>
    snd (HandleFindValue e' node c' key) =
      ([], FindClosest (Update (alive e') (node_RoutingTable node) c') key k_size)"
proof -
  have "Storage (HandleStore e node c key v) key = Some []"
    using assms by (simp add: HandleStore_eq store_value_def parseTopicValue_def mergeTopicValue_def
        formatTopicValue_def)
  then have "Storage (serve_all node_handler reqs (HandleStore e node c key v)) key = Some []"
    using assms(5) by (simp add: node.stored_serve_all)
  with assms show ?thesis by (simp add: HandleFindValue_def Let_def)
qed

theorem malformed_store_hides_key_witness:
  "let e = \<lparr>ctx_err = False, alive = \<lambda>_. True\<rparr>; node = NewNode zero_id [] 1; t = id_of_nat 7 in
   snd (HandleFindValue e (serve_all node_handler [(e, contact_at 4, ReqPing)]
     (HandleStore e node (contact_at 3) t (str ''no separator''))) (contact_at 9) t) = ([], [])"
proof -
  have "TrimSpace (str ''no separator'') = str ''no separator''"
    by (rule TrimSpace_id) (simp add: trimmed_def no_front_def starts_with_def space_runes_def str_def of_char_def)
  then have "parseTopicValue (str ''no separator'') = []"
    by (simp add: parseTopicValue_def parse_entry_def SplitN2_def str_def of_char_def)
  from malformed_store_hides_key [OF this, of "NewNode zero_id [] 1" "id_of_nat 7"
      "\<lparr>ctx_err = False, alive = \<lambda>_. True\<rparr>" "\<lparr>ctx_err = False, alive = \<lambda>_. True\<rparr>"
      "[(\<lparr>ctx_err = False, alive = \<lambda>_. True\<rparr>, contact_at 4, ReqPing)]"]
  show ?thesis unfolding Let_def by (simp add: NewNode_def stores_of_def map_filter_simps)
qed

end
