(* ===== verification/Rpc_Codec.thy ===== *)
theory Rpc_Codec
  imports Contact_Sorter
begin

text \<open>
  The wire format of the messages between nodes (\<open>RpcMessage\<close>, \<open>OpCode\<close>, \<open>Encode\<close> and \<open>Decode\<close> of
  \<open>src/kademlia/network.go\<close>). \<open>OpCode\<close> is a byte with named values. \<open>Decode\<close> indexes and slices the
  packet without looking at its length: a branch where Go panics is the value \<open>Panic\<close>. Its parameter \<open>mem\<close>
  is the largest allocation; a \<open>Contact\<close> takes 64 bytes (32 for the identifier, 24 for the slice,
  8 for the port). \<open>Encode\<close> cannot fail, since \<open>binary.Append\<close> accepts values of fixed size.
  The locale \<open>byte_codec\<close> of the prelude is interpreted for a contact and for a message.
\<close>

type_synonym OpCode = byte

definition Ping :: OpCode where "Ping = 0"
definition Pong :: OpCode where "Pong = 1"
definition FindNodeRequest :: OpCode where "FindNodeRequest = 2"
definition FindNodeResponse :: OpCode where "FindNodeResponse = 3"
definition FindValueRequest :: OpCode where "FindValueRequest = 4"
definition FindValueResponse :: OpCode where "FindValueResponse = 5"
definition StoreRequest :: OpCode where "StoreRequest = 6"
definition StoreResponse :: OpCode where "StoreResponse = 7"
definition LeaseRequest :: OpCode where "LeaseRequest = 8"
definition LeaseResponse :: OpCode where "LeaseResponse = 9"
definition ExecutionResponse :: OpCode where "ExecutionResponse = 10"

lemmas opcodes = Ping_def Pong_def FindNodeRequest_def FindNodeResponse_def FindValueRequest_def
  FindValueResponse_def StoreRequest_def StoreResponse_def LeaseRequest_def LeaseResponse_def
  ExecutionResponse_def

record RpcMessage =
  MessageID :: NodeId
  msg_OpCode :: OpCode
  SelfNodeId :: NodeId
  Key :: NodeId
  ValueLength :: u64
  Value :: bytes
  ContactsLength :: u64
  Contacts :: "Contact list"

text \<open>\<open>net.IP.To4\<close>: the four bytes of an IPv4 address in either form, nil for any other.\<close>

definition To4 :: "bytes \<Rightarrow> bytes" where
  "To4 ip =
     (if length ip = 4 then ip
      else if length ip = 16 \<and> take 10 ip = replicate 10 0 \<and> ip ! 10 = 255 \<and> ip ! 11 = 255
      then drop 12 ip
      else [])"

definition encode_contact :: "Contact \<Rightarrow> bytes" where
  "encode_contact contact =
     id_bytes (ID contact) @ To4 (IP contact) @ PutUint16 (of_int (Port contact))"

definition Encode :: "RpcMessage \<Rightarrow> bytes" where
  "Encode message =
     [magicBytePrefix] @ id_bytes (MessageID message) @ [msg_OpCode message] @
     id_bytes (SelfNodeId message) @ id_bytes (Key message) @
     PutUint64 (ValueLength message) @ Value message @
     PutUint64 (ContactsLength message) @ concat (map encode_contact (Contacts message))"

definition decode_contact :: "bytes \<Rightarrow> (Contact \<times> bytes) outcome" where
  "decode_contact packet =
     obind (split_at idLength packet) (\<lambda>(contactId, packet).
     obind (split_at 4 packet) (\<lambda>(contactIp, packet).
     obind (split_at 2 packet) (\<lambda>(contactPort, packet).
       Ok (\<lparr>ID = node_id contactId, IP = contactIp, Port = int (unat (Uint16 contactPort))\<rparr>, packet))))"

text \<open>\<open>Decode_rest\<close> also returns what is left of the packet, which \<open>Decode\<close> ignores.\<close>

definition Decode_rest :: "nat \<Rightarrow> bytes \<Rightarrow> (RpcMessage \<times> bytes) outcome" where
  "Decode_rest mem packet =
     (if length packet = 0 then Err ''packet length is invalid''
      else if hd packet \<noteq> magicBytePrefix
      then Err ''error decoding: first byte must match the magicBytePrefix''
      else
        obind (pop_byte packet) (\<lambda>(_, packet).
        obind (split_at idLength packet) (\<lambda>(messageId, packet).
        obind (pop_byte packet) (\<lambda>(opCode, packet).
        obind (split_at idLength packet) (\<lambda>(selfNodeId, packet).
        obind (split_at idLength packet) (\<lambda>(key, packet).
        obind (split_at 8 packet) (\<lambda>(valueLength, packet).
        obind (split_at (unat (Uint64 valueLength)) packet) (\<lambda>(value, packet).
        obind (split_at 8 packet) (\<lambda>(contactsLen, packet).
        obind (makeslice mem 64 (unat (Uint64 contactsLen))) (\<lambda>_.
        obind (decode_n decode_contact (unat (Uint64 contactsLen)) packet) (\<lambda>(contacts, packet).
          Ok (\<lparr>MessageID = node_id messageId, msg_OpCode = opCode, SelfNodeId = node_id selfNodeId,
               Key = node_id key, ValueLength = Uint64 valueLength, Value = value,
               ContactsLength = Uint64 contactsLen, Contacts = contacts\<rparr>, packet))))))))))))"

definition Decode :: "nat \<Rightarrow> bytes \<Rightarrow> RpcMessage outcome" where
  "Decode mem packet = obind (Decode_rest mem packet) (\<lambda>(message, _). Ok message)"

subsection \<open>Messages that a packet can carry\<close>

definition wf_contact :: "Contact \<Rightarrow> bool" where
  "wf_contact c \<longleftrightarrow> length (IP c) = 4 \<and> 0 \<le> Port c \<and> Port c < 65536"

definition wf_msg :: "nat \<Rightarrow> RpcMessage \<Rightarrow> bool" where
  "wf_msg mem m \<longleftrightarrow>
     length (Value m) = unat (ValueLength m) \<and> length (Contacts m) = unat (ContactsLength m) \<and>
     64 * length (Contacts m) \<le> mem \<and> list_all wf_contact (Contacts m)"

text \<open>What a contact becomes on the wire: its IPv4 address in four bytes and its port modulo \<open>2\<^sup>1\<^sup>6\<close>.\<close>

definition wire_contact :: "Contact \<Rightarrow> Contact" where
  "wire_contact c = c\<lparr>IP := To4 (IP c), Port := Port c mod 65536\<rparr>"

lemma length_To4: "To4 ip \<noteq> [] \<Longrightarrow> length (To4 ip) = 4"
  by (auto simp: To4_def split: if_splits)

lemma To4_4 [simp]: "length ip = 4 \<Longrightarrow> To4 ip = ip"
  by (simp add: To4_def)

lemma uint_port: "uint (word_of_int p :: u16) = p mod 65536"
  by (simp add: uint_word_of_int)

lemma decode_encode_contact:
  "To4 (IP c) \<noteq> [] \<Longrightarrow> decode_contact (encode_contact c @ r) = Ok (wire_contact c, r)"
  using length_To4 [of "IP c"]
  by (cases c) (simp add: decode_contact_def encode_contact_def idLength_def wire_contact_def uint_port)

lemma wire_contact_id: "wf_contact c \<Longrightarrow> wire_contact c = c"
  by (simp add: wf_contact_def wire_contact_def)

interpretation contact: byte_codec encode_contact decode_contact wf_contact
proof unfold_locales
  fix c r assume "wf_contact c"
  moreover from this have "To4 (IP c) \<noteq> []" by (auto simp: wf_contact_def)
  ultimately show "decode_contact (encode_contact c @ r) = Ok (c, r)"
    by (simp add: decode_encode_contact wire_contact_id)
next
  fix p c r assume "decode_contact p = Ok (c, r)"
  then obtain i a q where p: "p = i @ a @ q @ r" "length i = 32" "length a = 4" "length q = 2"
    and c: "c = \<lparr>ID = node_id i, IP = a, Port = int (unat (Uint16 q))\<rparr>"
    by (auto simp: decode_contact_def obind_Ok_iff split_at_Ok_iff idLength_def)
  have "uint (Uint16 q) < 65536" using unsigned_less [of "Uint16 q", where ?'a = int] by simp
  moreover have "PutUint16 (of_int (int (unat (Uint16 q)))) = q"
    using PutUint16_Uint16 [OF p(4)] by simp
  ultimately show "wf_contact c \<and> p = encode_contact c @ r"
    using p by (simp add: c wf_contact_def encode_contact_def)
qed

lemma Encode_Cons: "Encode m @ r = magicBytePrefix # id_bytes (MessageID m) @ msg_OpCode m #
     id_bytes (SelfNodeId m) @ id_bytes (Key m) @ PutUint64 (ValueLength m) @ Value m @
     PutUint64 (ContactsLength m) @ concat (map encode_contact (Contacts m)) @ r"
  by (simp add: Encode_def)

lemma Decode_rest_Encode_header:
  assumes "length (Value m) = unat (ValueLength m)" "64 * unat (ContactsLength m) \<le> mem"
  shows "Decode_rest mem (Encode m @ r) =
    obind (decode_n decode_contact (unat (ContactsLength m)) (concat (map encode_contact (Contacts m)) @ r))
      (\<lambda>(cs, r'). Ok (m\<lparr>Contacts := cs\<rparr>, r'))"
  unfolding Encode_Cons Decode_rest_def using assms
  by (cases m) (simp add: idLength_def makeslice_def)

interpretation message: byte_codec Encode "Decode_rest mem" "wf_msg mem" for mem
proof unfold_locales
  fix m r assume "wf_msg mem m"
  then show "Decode_rest mem (Encode m @ r) = Ok (m, r)"
    using contact.decode_n_enc [of "Contacts m" r]
    by (simp add: Decode_rest_Encode_header wf_msg_def)
next
  fix p m r assume "Decode_rest mem p = Ok (m, r)"
  then obtain i oc s ky vl v cl cs q where p: "p = magicBytePrefix # i @ oc # s @ ky @ vl @ v @ cl @ q"
      and len: "length i = 32" "length s = 32" "length ky = 32" "length vl = 8"
        "length v = unat (Uint64 vl)" "length cl = 8" "64 * unat (Uint64 cl) \<le> mem"
      and q: "decode_n decode_contact (unat (Uint64 cl)) q = Ok (cs, r)"
      and m: "m = \<lparr>MessageID = node_id i, msg_OpCode = oc, SelfNodeId = node_id s, Key = node_id ky,
        ValueLength = Uint64 vl, Value = v, ContactsLength = Uint64 cl, Contacts = cs\<rparr>"
    by (auto simp: Decode_rest_def obind_Ok_iff split_at_Ok_iff pop_byte_Ok_iff makeslice_Ok_iff
        idLength_def split: if_splits)
  show "wf_msg mem m \<and> p = Encode m @ r"
    using contact.decode_n_sound [OF q] len
    by (simp add: p m wf_msg_def Encode_def PutUint64_Uint64)
qed

lemma decode_contact_not_Err: "decode_contact p \<noteq> Err e"
  by (simp add: decode_contact_def obind_Err_iff)

lemma Decode_rest_not_Err: "p \<noteq> [] \<Longrightarrow> hd p = magicBytePrefix \<Longrightarrow> Decode_rest mem p \<noteq> Err e"
  by (simp add: Decode_rest_def obind_Err_iff decode_n_not_Err decode_contact_not_Err)

lemma Decode_Ok_iff: "Decode mem p = Ok m \<longleftrightarrow> (\<exists>r. Decode_rest mem p = Ok (m, r))"
  by (auto simp: Decode_def obind_Ok_iff)

lemma Decode_iff: "Decode mem p = Ok m \<longleftrightarrow> wf_msg mem m \<and> (\<exists>r. p = Encode m @ r)"
  unfolding Decode_Ok_iff using message.dec_enc message.dec_sound by metis

lemma Decode_not_Err: "p \<noteq> [] \<Longrightarrow> hd p = magicBytePrefix \<Longrightarrow> Decode mem p \<noteq> Err e"
  by (simp add: Decode_def obind_Err_iff Decode_rest_not_Err)

subsection \<open>Contacts without an IPv4 address\<close>

lemma length_encode_contact: "length (encode_contact c) \<le> 38 \<and> (To4 (IP c) = [] \<longrightarrow> length (encode_contact c) < 38)"
  using length_To4 [of "IP c"] by (cases "To4 (IP c) = []") (simp_all add: encode_contact_def)

lemma length_encode_contacts:
  "length (concat (map encode_contact cs)) \<le> 38 * length cs"
  "\<exists>c \<in> set cs. To4 (IP c) = [] \<Longrightarrow> length (concat (map encode_contact cs)) < 38 * length cs"
proof -
  show le: "length (concat (map encode_contact cs)) \<le> 38 * length cs" for cs
  proof (induction cs)
    case (Cons c cs)
    with length_encode_contact [of c] show ?case by simp
  qed simp
  show "length (concat (map encode_contact cs)) < 38 * length cs" if "\<exists>c \<in> set cs. To4 (IP c) = []"
    using that
  proof (induction cs)
    case (Cons c cs)
    then show ?case
      using length_encode_contact [of c] le [of cs] by (cases "To4 (IP c) = []") auto
  qed simp
qed

lemma decode_contacts_length:
  "decode_n decode_contact n p = Ok (cs, r) \<Longrightarrow> length p = 38 * n + length r"
proof -
  assume "decode_n decode_contact n p = Ok (cs, r)"
  then have cs: "list_all wf_contact cs" "length cs = n" "p = concat (map encode_contact cs) @ r"
    using contact.decode_n_sound by blast+
  have "length (concat (map encode_contact cs)) = 38 * length cs"
    using cs(1) by (induction cs) (auto simp: encode_contact_def wf_contact_def)
  with cs show ?thesis by simp
qed

lemma Decode_Encode:
  assumes "length (Value m) = unat (ValueLength m)" "length (Contacts m) = unat (ContactsLength m)"
    and "64 * length (Contacts m) \<le> mem" "\<forall>c \<in> set (Contacts m). To4 (IP c) \<noteq> []"
  shows "Decode mem (Encode m) = Ok (m\<lparr>Contacts := map wire_contact (Contacts m)\<rparr>)"
proof -
  have "decode_n decode_contact (length cs) (concat (map encode_contact cs) @ r) = Ok (map wire_contact cs, r)"
    if "\<forall>c \<in> set cs. To4 (IP c) \<noteq> []" for cs r
    using that by (induction cs) (simp_all add: decode_encode_contact)
  from this [of "Contacts m" "[]"] show ?thesis
    using assms Decode_rest_Encode_header [of m mem "[]"] by (simp add: Decode_def)
qed

subsection \<open>Properties\<close>

text \<open>
  C11. \<open>Decode\<close> accepts exactly the encodings of well-formed messages, followed by anything, and returns that
  message: what it returns re-encodes to the bytes it read, and every well-formed message is
  recovered from its encoding.
\<close>

theorem rpc_roundtrip:
  "Decode mem p = Ok m \<longleftrightarrow> wf_msg mem m \<and> (\<exists>r. p = Encode m @ r)"
  by (rule Decode_iff)

text \<open>
  Encoding normalises contacts: a message whose lengths are right and whose contacts all have IPv4
  addresses, in the four-byte or the sixteen-byte form, and any ports, is decoded with the
  addresses in four bytes and the ports modulo \<open>2\<^sup>1\<^sup>6\<close>; nothing else changes.
\<close>

theorem rpc_wire_form:
  assumes "length (Value m) = unat (ValueLength m)" "length (Contacts m) = unat (ContactsLength m)"
    and "64 * length (Contacts m) \<le> mem" "\<forall>c \<in> set (Contacts m). To4 (IP c) \<noteq> []"
  shows "Decode mem (Encode m) = Ok (m\<lparr>Contacts := map wire_contact (Contacts m)\<rparr>)"
  using assms by (rule Decode_Encode)

theorem rpc_wire_form_witness:
  "let c = \<lparr>ID = id_of_nat 5, IP = replicate 10 0 @ [255, 255, 10, 0, 0, 1], Port = 65537\<rparr>;
       m = \<lparr>MessageID = id_of_nat 1, msg_OpCode = FindNodeResponse, SelfNodeId = id_of_nat 2, Key = id_of_nat 3,
            ValueLength = 0, Value = [], ContactsLength = 1, Contacts = [c]\<rparr>
   in Decode 1000 (Encode m) = Ok (m\<lparr>Contacts := [\<lparr>ID = id_of_nat 5, IP = [10, 0, 0, 1], Port = 1\<rparr>]\<rparr>)"
proof -
  let ?c = "\<lparr>ID = id_of_nat 5, IP = replicate 10 0 @ [255, 255, 10, 0, 0, 1], Port = 65537\<rparr>"
  have "To4 (IP ?c) = [10, 0, 0, 1]" by (simp add: To4_def nth_append)
  moreover from this have "wire_contact ?c = \<lparr>ID = id_of_nat 5, IP = [10, 0, 0, 1], Port = 1\<rparr>"
    by (simp add: wire_contact_def)
  ultimately show ?thesis unfolding Let_def by (subst rpc_wire_form) simp_all
qed

text \<open>
  C21. A truncated packet crashes the receiver: on every proper, non-empty prefix of the encoding of a
  well-formed message \<open>Decode\<close> panics; it never reports an error once the first byte matches.
\<close>

theorem truncated_packet_panics:
  assumes "wf_msg mem m" "Encode m = p @ q" "p \<noteq> []" "q \<noteq> []"
  shows "Decode mem p = Panic"
proof (cases "Decode mem p")
  case (Ok m')
  then obtain r where "wf_msg mem m'" "p = Encode m' @ r" by (auto simp: Decode_iff)
  then have "Encode m' @ r @ q = Encode m @ []" using assms(2) by simp
  then have "r @ q = []"
    using message.enc_prefix_free [OF \<open>wf_msg mem m'\<close> assms(1)] by blast
  with assms(4) show ?thesis by simp
next
  case (Err e)
  have "hd p = magicBytePrefix" using assms(2,3) by (cases p) (auto simp: Encode_def)
  with Decode_not_Err assms(3) Err show ?thesis by blast
qed

theorem truncated_packet_panics_witness:
  "Decode 1000 [magicBytePrefix] = Panic"
proof -
  let ?m = "\<lparr>MessageID = id_of_nat 1, msg_OpCode = Ping, SelfNodeId = id_of_nat 2, Key = id_of_nat 3,
            ValueLength = 0, Value = [], ContactsLength = 0, Contacts = []\<rparr>"
  have "wf_msg 1000 ?m" by (simp add: wf_msg_def)
  moreover have "Encode ?m = [magicBytePrefix] @ tl (Encode ?m)" "tl (Encode ?m) \<noteq> []"
    by (simp_all add: Encode_def)
  ultimately show ?thesis by (intro truncated_packet_panics) auto
qed

text \<open>
  A contact without an IPv4 address corrupts the message that carries it: its address is encoded in no
  bytes at all, and the peer that decodes the message panics.
\<close>

theorem ipv6_contact_panics:
  assumes "length (Value m) = unat (ValueLength m)" "length (Contacts m) = unat (ContactsLength m)"
    and "c \<in> set (Contacts m)" "To4 (IP c) = []"
  shows "Decode mem (Encode m) = Panic"
proof (cases "Decode mem (Encode m)")
  case (Ok m')
  then have mem: "64 * unat (ContactsLength m) \<le> mem"
    using assms(1) unfolding Decode_Ok_iff Decode_rest_def
    by (auto simp: Encode_def idLength_def obind_Ok_iff makeslice_Ok_iff)
  let ?p = "concat (map encode_contact (Contacts m))"
  obtain cs r where "decode_n decode_contact (unat (ContactsLength m)) ?p = Ok (cs, r)"
    using Ok Decode_rest_Encode_header [OF assms(1) mem, of "[]"]
    by (auto simp: Decode_Ok_iff obind_Ok_iff)
  then have "length ?p \<ge> 38 * length (Contacts m)"
    using decode_contacts_length assms(2) by fastforce
  moreover have "length ?p < 38 * length (Contacts m)"
    using assms(3,4) by (intro length_encode_contacts(2)) blast
  ultimately show ?thesis by simp
next
  case (Err e)
  with Decode_not_Err [of "Encode m"] show ?thesis by (simp add: Encode_def)
qed

theorem ipv6_contact_panics_witness:
  "let c = \<lparr>ID = id_of_nat 5, IP = [32, 1, 13, 184, 0, 0, 0, 0, 0, 0, 0, 0, 0, 0, 0, 1], Port = 9000\<rparr>;
       m = \<lparr>MessageID = id_of_nat 1, msg_OpCode = FindNodeResponse, SelfNodeId = id_of_nat 2, Key = id_of_nat 3,
            ValueLength = 0, Value = [], ContactsLength = 1, Contacts = [c]\<rparr>
   in Decode 1000 (Encode m) = Panic"
  unfolding Let_def by (rule ipv6_contact_panics) (auto simp: To4_def)

end
