(* ===== verification/Rpc_Network.thy ===== *)
theory Rpc_Network
  imports Dht_Node Rpc_Codec
begin

text \<open>
  The UDP network (\<open>src/kademlia/network.go\<close>): the client side of the four RPCs, the dispatch of
  incoming messages and the packet loop.
  \<^item> \<open>UDPNetwork\<close> holds the map of pending calls and the channels. A channel is a number; \<open>chans\<close> gives the
    responses waiting in it. Every response channel has capacity 1.
  \<^item> A client call writes a packet and then waits in a \<open>select\<close> while the rest of the program runs. Its
    parameter \<open>io\<close> stands for the socket and the rest of the program: it takes the packet, its address, the
    call's channel and the network, and gives the network at the end of the wait and what ended it.
  \<^item> \<open>handleIncomingRequest\<close> gives the new state and the packets it writes, or \<open>SendBlocks\<close> when it sends
    to a full channel, where the worker goroutine stays until somebody receives.
  \<^item> A packet is sent in one datagram of at most \<open>maxDatagram\<close> bytes, which IPv4 and UDP leave of 65535; a longer one is not sent. The listener reads at most
    \<open>MaxUDPPacketSize\<close> bytes of it.
  Left out: logging, the ports' opening and closing, the timers behind the contexts.
\<close>

record UDPAddr =
  addr_IP :: bytes
  addr_Port :: int

record rpcResponse =
  resp_Contacts :: "Contact list"
  resp_Value :: bytes

record UDPNetwork =
  pending :: "NodeId \<rightharpoonup> nat"
  chans :: "nat \<Rightarrow> rpcResponse list"
  next_chan :: nat
  PublicAddr :: "UDPAddr option"
  publicAddrCh :: "UDPAddr list"
  requestQueue :: "(RpcMessage \<times> UDPAddr) list"

definition MaxUDPPacketSize :: nat where
  "MaxUDPPacketSize = 65535"

definition packetBufferLimit :: nat where
  "packetBufferLimit = 1024"

definition NewUDPNetwork :: UDPNetwork where
  "NewUDPNetwork =
     \<lparr>pending = Map.empty, chans = \<lambda>_. [], next_chan = 0, PublicAddr = None, publicAddrCh = [],
      requestQueue = []\<rparr>"

text \<open>\<open>make(chan rpcResponse, 1)\<close>, and the guarded changes of the map of pending calls.\<close>

definition make_chan :: "UDPNetwork \<Rightarrow> nat \<times> UDPNetwork" where
  "make_chan network = (next_chan network, network\<lparr>next_chan := next_chan network + 1\<rparr>)"

definition set_pending :: "NodeId \<Rightarrow> nat option \<Rightarrow> UDPNetwork \<Rightarrow> UDPNetwork" where
  "set_pending i ch network = network\<lparr>pending := (pending network)(i := ch)\<rparr>"

datatype waited = WriteFailed string | Received rpcResponse | CtxDone

type_synonym exchange = "bytes \<Rightarrow> UDPAddr \<Rightarrow> nat \<Rightarrow> UDPNetwork \<Rightarrow> UDPNetwork \<times> waited"

subsection \<open>The client side\<close>

definition UDP_FindNode ::
  "NodeId \<Rightarrow> exchange \<Rightarrow> UDPNetwork \<Rightarrow> Contact \<Rightarrow> Contact \<Rightarrow> NodeId \<Rightarrow> UDPNetwork \<times> Contact list outcome" where
  "UDP_FindNode randomId io network requester recipient targetID =
     (let (resultsChan, network) = make_chan network;
          rpcMessage = \<lparr>MessageID = randomId, msg_OpCode = FindNodeRequest, SelfNodeId = ID requester,
            Key = targetID, ValueLength = 0, Value = [], ContactsLength = 0, Contacts = []\<rparr>;
          network = set_pending (MessageID rpcMessage) (Some resultsChan) network;
          msgToSend = Encode rpcMessage;
          (network, ended) = io msgToSend \<lparr>addr_IP = IP recipient, addr_Port = Port recipient\<rparr> resultsChan network;
          network = set_pending (MessageID rpcMessage) None network
      in (network,
          case ended of
            WriteFailed err \<Rightarrow> Err (''error writing to udp: '' @ err)
          | Received result \<Rightarrow>
              Ok (filter (\<lambda>contact. ID contact \<noteq> ID requester) (resp_Contacts result))
          | CtxDone \<Rightarrow> Err ''timeout waiting for FindNode response''))"

definition UDP_FindValue ::
  "NodeId \<Rightarrow> exchange \<Rightarrow> UDPNetwork \<Rightarrow> Contact \<Rightarrow> Contact \<Rightarrow> NodeId \<Rightarrow>
     UDPNetwork \<times> (bytes \<times> Contact list) outcome" where
  "UDP_FindValue randomId io network requester recipient key =
     (let (resultsChan, network) = make_chan network;
          rpcMessage = \<lparr>MessageID = randomId, msg_OpCode = FindValueRequest, SelfNodeId = ID requester,
            Key = key, ValueLength = 0, Value = [], ContactsLength = 0, Contacts = []\<rparr>;
          network = set_pending (MessageID rpcMessage) (Some resultsChan) network;
          msgToSend = Encode rpcMessage;
          (network, ended) = io msgToSend \<lparr>addr_IP = IP recipient, addr_Port = Port recipient\<rparr> resultsChan network;
          network = set_pending (MessageID rpcMessage) None network
      in (network,
          case ended of
            WriteFailed err \<Rightarrow> Err (''error writing to udp: '' @ err)
          | Received result \<Rightarrow>
              if length (resp_Value result) \<noteq> 0 then Ok (resp_Value result, [])
              else Ok ([], filter (\<lambda>contact. ID contact \<noteq> ID requester) (resp_Contacts result))
          | CtxDone \<Rightarrow> Err ''timeout waiting for FindValue response''))"

definition UDP_Ping ::
  "NodeId \<Rightarrow> exchange \<Rightarrow> UDPNetwork \<Rightarrow> Contact \<Rightarrow> Contact \<Rightarrow> UDPNetwork \<times> unit outcome" where
  "UDP_Ping randomId io network requester recipient =
     (let (resultsChan, network) = make_chan network;
          rpcMessage = \<lparr>MessageID = randomId, msg_OpCode = Rpc_Codec.Ping, SelfNodeId = ID requester,
            Key = zero_id, ValueLength = 0, Value = [], ContactsLength = 0, Contacts = []\<rparr>;
          network = set_pending (MessageID rpcMessage) (Some resultsChan) network;
          msgToSend = Encode rpcMessage;
          (network, ended) = io msgToSend \<lparr>addr_IP = IP recipient, addr_Port = Port recipient\<rparr> resultsChan network;
          network = set_pending (MessageID rpcMessage) None network
      in (network,
          case ended of
            WriteFailed err \<Rightarrow> Err (''error writing to udp: '' @ err)
          | Received _ \<Rightarrow> Ok ()
          | CtxDone \<Rightarrow> Err ''timeout waiting for Pong''))"

definition UDP_Store ::
  "NodeId \<Rightarrow> exchange \<Rightarrow> UDPNetwork \<Rightarrow> Contact \<Rightarrow> Contact \<Rightarrow> NodeId \<Rightarrow> bytes \<Rightarrow> UDPNetwork \<times> unit outcome" where
  "UDP_Store randomId io network requester recipient key value =
     (let (resultsChan, network) = make_chan network;
          rpcMessage = \<lparr>MessageID = randomId, msg_OpCode = StoreRequest, SelfNodeId = ID requester,
            Key = key, ValueLength = of_nat (length value), Value = value, ContactsLength = 0, Contacts = []\<rparr>;
          network = set_pending (MessageID rpcMessage) (Some resultsChan) network;
          msgToSend = Encode rpcMessage;
          (network, ended) = io msgToSend \<lparr>addr_IP = IP recipient, addr_Port = Port recipient\<rparr> resultsChan network;
          network = set_pending (MessageID rpcMessage) None network
      in (network,
          case ended of
            WriteFailed err \<Rightarrow> Err (''error writing to udp: '' @ err)
          | CtxDone \<Rightarrow> Err ''request timed out''
          | Received _ \<Rightarrow> Ok ()))"

subsection \<open>Incoming messages\<close>

datatype 'a handled = Handled 'a | SendBlocks

type_synonym 's served = "(UDPNetwork \<times> 's \<times> (bytes \<times> UDPAddr) list) handled"

text \<open>Look up the pending call of a response and send to its channel.\<close>

definition respond :: "NodeId \<Rightarrow> rpcResponse \<Rightarrow> UDPNetwork \<Rightarrow> UDPNetwork handled" where
  "respond i r network =
     (case pending network i of
        None \<Rightarrow> Handled network
      | Some ch \<Rightarrow>
          if chans network ch = [] then Handled (network\<lparr>chans := (chans network)(ch := [r])\<rparr>)
          else SendBlocks)"

definition responded :: "UDPNetwork handled \<Rightarrow> 's \<Rightarrow> 's served" where
  "responded x s = (case x of Handled network \<Rightarrow> Handled (network, s, []) | SendBlocks \<Rightarrow> SendBlocks)"

definition UDP_handleIncomingRequest ::
  "'s DHTHandler \<Rightarrow> bool \<Rightarrow> UDPNetwork \<Rightarrow> 's \<Rightarrow> RpcMessage \<Rightarrow> UDPAddr \<Rightarrow> 's served" where
  "UDP_handleIncomingRequest h cancelled network s message addr =
     (let requester = \<lparr>ID = SelfNodeId message, IP = addr_IP addr, Port = addr_Port addr\<rparr>;
          op = msg_OpCode message
      in
      if cancelled then Handled (network, s, [])
      else if op = Rpc_Codec.Ping then
        let (s, _) = handle_ping h s requester;
            pingResponse = \<lparr>MessageID = MessageID message, msg_OpCode = Pong, SelfNodeId = SelfNodeId message,
              Key = Key message, ValueLength = 0, Value = [], ContactsLength = 0, Contacts = []\<rparr>
        in Handled (network, s, [(Encode pingResponse, addr)])
      else if op = FindNodeRequest then
        let (s, contacts) = handle_find_node h s requester (Key message);
            findNodeResponse = \<lparr>MessageID = MessageID message, msg_OpCode = FindNodeResponse,
              SelfNodeId = SelfNodeId message, Key = Key message, ValueLength = 0, Value = [],
              ContactsLength = of_nat (length contacts), Contacts = contacts\<rparr>
        in Handled (network, s, [(Encode findNodeResponse, addr)])
      else if op = FindValueRequest then
        let (s, value, contacts) = handle_find_value h s requester (Key message);
            findValueResponse = \<lparr>MessageID = MessageID message, msg_OpCode = FindValueResponse,
              SelfNodeId = SelfNodeId message, Key = Key message,
              ValueLength = of_nat (length value), Value = value,
              ContactsLength = of_nat (length contacts), Contacts = contacts\<rparr>
        in Handled (network, s, [(Encode findValueResponse, addr)])
      else if op = StoreRequest then
        let s = handle_store h s requester (Key message) (Value message);
            storeResponse = \<lparr>MessageID = MessageID message, msg_OpCode = StoreResponse,
              SelfNodeId = SelfNodeId message, Key = Key message, ValueLength = 0, Value = [],
              ContactsLength = 0, Contacts = []\<rparr>
        in Handled (network, s, [(Encode storeResponse, addr)])
      else if op = Pong then
        responded (respond (MessageID message) \<lparr>resp_Contacts = [], resp_Value = []\<rparr> network) s
      else if op = StoreResponse then
        responded (respond (MessageID message) \<lparr>resp_Contacts = [], resp_Value = []\<rparr> network) s
      else if op = FindNodeResponse then
        responded (respond (MessageID message) \<lparr>resp_Contacts = Contacts message, resp_Value = []\<rparr> network) s
      else if op = FindValueResponse then
        responded (respond (MessageID message)
          \<lparr>resp_Contacts = Contacts message, resp_Value = Value message\<rparr> network) s
      else Handled (network, s, []))"

text \<open>One turn of a worker: without a handler the request is dropped.\<close>

definition UDP_requestHandlerWorker ::
  "'s DHTHandler option \<Rightarrow> bool \<Rightarrow> UDPNetwork \<Rightarrow> 's \<Rightarrow> 's served option" where
  "UDP_requestHandlerWorker dhtHandler cancelled network s =
     (case requestQueue network of
        [] \<Rightarrow> None
      | (message, address) # rest \<Rightarrow>
          let network = network\<lparr>requestQueue := rest\<rparr> in
          Some (case dhtHandler of
              None \<Rightarrow> Handled (network, s, [])
            | Some h \<Rightarrow> UDP_handleIncomingRequest h cancelled network s message address))"

text \<open>
  One packet in the loop of \<open>Listen\<close>, read into a buffer of 65535 bytes. The STUN library is a parameter: whether a packet is a STUN message and
  the address it carries. Sending to the full channel \<open>publicAddrCh\<close> blocks the loop.
\<close>

definition UDP_Listen_packet ::
  "(bytes \<Rightarrow> bool) \<Rightarrow> (bytes \<Rightarrow> UDPAddr option) \<Rightarrow> nat \<Rightarrow> UDPNetwork \<Rightarrow> bytes \<Rightarrow> UDPAddr \<Rightarrow>
     UDPNetwork handled outcome" where
  "UDP_Listen_packet stun_IsMessage stun_xorAddr mem network packet addr =
     (let data = take MaxUDPPacketSize packet in
      if stun_IsMessage data then
        (case stun_xorAddr data of
           None \<Rightarrow> Ok (Handled network)
         | Some a \<Rightarrow>
             let network = network\<lparr>PublicAddr := Some a\<rparr> in
             if length (publicAddrCh network) < 1
             then Ok (Handled (network\<lparr>publicAddrCh := publicAddrCh network @ [a]\<rparr>))
             else Ok SendBlocks)
      else
        (case Decode mem data of
           Panic \<Rightarrow> Panic
         | Err _ \<Rightarrow> Ok (Handled network)
         | Ok decodedMessage \<Rightarrow>
             if length (requestQueue network) < packetBufferLimit
             then Ok (Handled (network\<lparr>requestQueue := requestQueue network @ [(decodedMessage, addr)]\<rparr>))
             else Ok (Handled network)))"

subsection \<open>Names for logging\<close>

definition truncateID :: "NodeId \<Rightarrow> bytes" where
  "truncateID i =
     (let s = NodeId_String i in if length s > 8 then take 8 s @ str ''...'' else s)"

definition formatContacts :: "Contact list \<Rightarrow> bytes" where
  "formatContacts cs =
     (if length cs = 0 then str ''[]''
      else str ''['' @
        concat (map (\<lambda>(i, c). (if i > 0 then str '', '' else []) @ truncateID (ID c)) (enumerate 0 cs)) @
        str '']'')"

subsection \<open>A call and its answer\<close>

text \<open>
  The exchange of a call with one peer over a network that loses nothing: the peer decodes the packet,
  handles it and replies; the caller's own worker decodes the reply and handles it; then the
  caller receives from its channel. Any other course ends with the context. A UDP datagram over IPv4 carries at most 65507 bytes: \<open>WriteToUDP\<close> of more
  fails, which a caller returns and a peer only logs. What is sent is read into a buffer of 65535 bytes.
\<close>

definition maxDatagram :: nat where
  "maxDatagram = 65507"

definition datagram :: "bytes \<Rightarrow> bytes option" where
  "datagram packet = (if length packet \<le> maxDatagram then Some (take MaxUDPPacketSize packet) else None)"

abbreviation seen_as :: "Contact \<Rightarrow> UDPAddr \<Rightarrow> Contact" where
  "seen_as me src \<equiv> \<lparr>ID = ID me, IP = addr_IP src, Port = addr_Port src\<rparr>"

definition answer :: "nat \<Rightarrow> 's DHTHandler \<Rightarrow> UDPNetwork \<Rightarrow> 's \<Rightarrow> UDPAddr \<Rightarrow> bytes \<Rightarrow> bytes option" where
  "answer mem h pnet s src packet =
     (case Decode mem packet of
        Ok m \<Rightarrow> (case UDP_handleIncomingRequest h False pnet s m src of
            Handled (_, _, (reply, _) # _) \<Rightarrow> Some reply
          | _ \<Rightarrow> None)
      | _ \<Rightarrow> None)"

definition receive :: "nat \<Rightarrow> UDPNetwork \<Rightarrow> UDPNetwork \<times> waited" where
  "receive ch network =
     (case chans network ch of
        [] \<Rightarrow> (network, CtxDone)
      | r # rs \<Rightarrow> (network\<lparr>chans := (chans network)(ch := rs)\<rparr>, Received r))"

definition peer_exchange ::
  "nat \<Rightarrow> 's DHTHandler \<Rightarrow> UDPNetwork \<Rightarrow> 's \<Rightarrow> UDPAddr \<Rightarrow> 'c DHTHandler \<Rightarrow> 'c \<Rightarrow> exchange" where
  "peer_exchange mem h pnet s src own c packet addr ch network =
     (case datagram packet of
        None \<Rightarrow> (network, WriteFailed ''message too long'')
      | Some packet \<Rightarrow>
          (case Option.bind (answer mem h pnet s src packet) datagram of
             None \<Rightarrow> (network, CtxDone)
           | Some reply \<Rightarrow>
               (case Decode mem reply of
                  Ok m \<Rightarrow> (case UDP_handleIncomingRequest own False network c m addr of
                      Handled (network', _, _) \<Rightarrow> receive ch network'
                    | SendBlocks \<Rightarrow> (network, CtxDone))
                | _ \<Rightarrow> (network, CtxDone))))"

text \<open>The packet of a \<open>Store\<close> call, and the peer's state after its worker has handled a packet.\<close>

definition store_packet :: "NodeId \<Rightarrow> Contact \<Rightarrow> NodeId \<Rightarrow> bytes \<Rightarrow> bytes" where
  "store_packet rid requester key value =
     Encode \<lparr>MessageID = rid, msg_OpCode = StoreRequest, SelfNodeId = ID requester,
       Key = key, ValueLength = of_nat (length value), Value = value, ContactsLength = 0, Contacts = []\<rparr>"

definition state_after :: "nat \<Rightarrow> 's DHTHandler \<Rightarrow> UDPNetwork \<Rightarrow> 's \<Rightarrow> UDPAddr \<Rightarrow> bytes \<Rightarrow> 's" where
  "state_after mem h pnet s src packet =
     (case datagram packet of
        None \<Rightarrow> s
      | Some packet \<Rightarrow>
          (case Decode mem packet of
             Ok m \<Rightarrow> (case UDP_handleIncomingRequest h False pnet s m src of
                 Handled (_, s', _) \<Rightarrow> s'
               | SendBlocks \<Rightarrow> s)
           | _ \<Rightarrow> s))"

lemma length_Encode:
  "length (Encode m) = 114 + length (Value m) + sum_list (map (\<lambda>c. length (encode_contact c)) (Contacts m))"
  by (simp add: Encode_def length_concat comp_def)

lemma datagram_Encode:
  assumes "length (Value m) + 38 * length (Contacts m) \<le> 65393"
  shows "datagram (Encode m) = Some (Encode m)"
proof -
  have "sum_list (map (\<lambda>c. length (encode_contact c)) cs) \<le> 38 * length cs" for cs
  proof (induction cs)
    case (Cons c cs)
    then show ?case using length_encode_contact [of c] by simp
  qed simp
  from this [of "Contacts m"] have "length (Encode m) \<le> 65507" using assms by (simp add: length_Encode)
  then show ?thesis by (simp add: datagram_def maxDatagram_def MaxUDPPacketSize_def)
qed

lemma Decode_no_contacts:
  "length (Value m) = unat (ValueLength m) \<Longrightarrow> ContactsLength m = 0 \<Longrightarrow> Contacts m = [] \<Longrightarrow>
     Decode mem (Encode m) = Ok m"
  using Decode_Encode [of m mem] by (cases m) simp

lemma unat_of_length: "64 * length cs \<le> mem \<Longrightarrow> mem < 2 ^ 64 \<Longrightarrow> unat (of_nat (length cs) :: u64) = length cs"
  by (simp add: unat_of_nat take_bit_nat_eq_self)

lemma unat_of_length_bytes: "length v < 2 ^ 64 \<Longrightarrow> unat (of_nat (length v) :: u64) = length v"
  by (simp add: unat_of_nat take_bit_nat_eq_self)

lemma receive_response:
  "pending network i = Some ch \<Longrightarrow> chans network ch = [] \<Longrightarrow>
   (case responded (respond i r network) c of
      Handled (network', _, _) \<Rightarrow> receive ch network' | SendBlocks \<Rightarrow> x) =
   (network, Received r)"
  by (simp add: respond_def responded_def receive_def fun_upd_idem)

lemmas rpc_simps = Let_def make_chan_def set_pending_def peer_exchange_def answer_def
  UDP_handleIncomingRequest_def opcodes receive_response Decode_no_contacts datagram_Encode

lemma FindNode_answered:
  fixes network :: UDPNetwork
  assumes reply: "handle_find_node h s \<lparr>ID = ID me, IP = addr_IP src, Port = addr_Port src\<rparr> t = (s', cs)"
    and ipv4: "\<forall>c \<in> set cs. To4 (IP c) \<noteq> []" and mem: "64 * length cs \<le> mem" "mem < 2 ^ 64" and fits: "length cs \<le> 1024"
    and fresh: "chans network (next_chan network) = []"
  shows "UDP_FindNode rid (peer_exchange mem h pnet s src own c) network me peer t =
    (network\<lparr>pending := (pending network)(rid := None), next_chan := next_chan network + 1\<rparr>,
     Ok (filter (\<lambda>c. ID c \<noteq> ID me) (map wire_contact cs)))"
proof -
  let ?m = "\<lparr>MessageID = rid, msg_OpCode = FindNodeResponse, SelfNodeId = ID me, Key = t,
    ValueLength = 0, Value = [], ContactsLength = of_nat (length cs), Contacts = cs\<rparr>"
  have "Decode mem (Encode ?m) = Ok (?m\<lparr>Contacts := map wire_contact cs\<rparr>)"
    using Decode_Encode [of ?m mem] ipv4 mem unat_of_length [OF mem] by simp
  then show ?thesis
    using reply fresh fits unfolding UDP_FindNode_def by (simp add: rpc_simps)
qed

lemma FindValue_answered:
  fixes network :: UDPNetwork
  assumes reply: "handle_find_value h s \<lparr>ID = ID me, IP = addr_IP src, Port = addr_Port src\<rparr> t = (s', v, cs)"
    and ipv4: "\<forall>c \<in> set cs. To4 (IP c) \<noteq> []" and mem: "64 * length cs \<le> mem" "mem < 2 ^ 64"
    and fits: "length v + 38 * length cs \<le> 65393"
    and fresh: "chans network (next_chan network) = []"
  shows "UDP_FindValue rid (peer_exchange mem h pnet s src own c) network me peer t =
    (network\<lparr>pending := (pending network)(rid := None), next_chan := next_chan network + 1\<rparr>,
     Ok (if v \<noteq> [] then (v, []) else ([], filter (\<lambda>c. ID c \<noteq> ID me) (map wire_contact cs))))"
proof -
  let ?m = "\<lparr>MessageID = rid, msg_OpCode = FindValueResponse, SelfNodeId = ID me, Key = t,
    ValueLength = of_nat (length v), Value = v, ContactsLength = of_nat (length cs), Contacts = cs\<rparr>"
  have "Decode mem (Encode ?m) = Ok (?m\<lparr>Contacts := map wire_contact cs\<rparr>)"
    using Decode_Encode [of ?m mem] ipv4 mem unat_of_length [OF mem] unat_of_length_bytes [of v] fits by simp
  then show ?thesis
    using reply fresh fits unfolding UDP_FindValue_def by (simp add: rpc_simps)
qed

lemma Store_answered:
  fixes network :: UDPNetwork
  assumes v: "length v \<le> 65393" and fresh: "chans network (next_chan network) = []"
  shows "UDP_Store rid (peer_exchange mem h pnet s src own c) network me peer key v =
    (network\<lparr>pending := (pending network)(rid := None), next_chan := next_chan network + 1\<rparr>, Ok ())"
  using fresh v unat_of_length_bytes [of v] unfolding UDP_Store_def by (simp add: rpc_simps)

lemma Ping_answered:
  fixes network :: UDPNetwork
  assumes "chans network (next_chan network) = []"
  shows "UDP_Ping rid (peer_exchange mem h pnet s src own c) network me peer =
    (network\<lparr>pending := (pending network)(rid := None), next_chan := next_chan network + 1\<rparr>, Ok ())"
  using assms unfolding UDP_Ping_def by (cases "handle_ping h s \<lparr>ID = ID me, IP = addr_IP src, Port = addr_Port src\<rparr>")
    (simp add: rpc_simps)

lemma length_FindClosest: "length (FindClosest rt t n) \<le> k_size"
  by (simp add: FindClosest_eq)

lemma stored_value_found:
  assumes "hashes_ok hs" "\<not> ctx_err e" "\<not> ctx_err e'"
    and "v = store_value (case Storage node key of None \<Rightarrow> [] | Some x \<Rightarrow> x) (put_payload self (join comma hs))"
  shows "\<exists>s. HandleFindValue e' (HandleStore e node c key (put_payload self (join comma hs))) c' key = (s, v, [])"
    and "\<exists>t. tv_view (parseTopicValue v) (NodeId_String self) = Some t \<and> set hs \<subseteq> t" and "v \<noteq> []"
proof -
  show "\<exists>s. HandleFindValue e' (HandleStore e node c key (put_payload self (join comma hs))) c' key = (s, v, [])"
    using assms(2-4) by (simp add: HandleStore_eq HandleFindValue_def Let_def)
  show t: "\<exists>t. tv_view (parseTopicValue v) (NodeId_String self) = Some t \<and> set hs \<subseteq> t"
    using stores_keep_entry [OF assms(1), of self "[put_payload self (join comma hs)]"] assms(4) by simp
  then show "v \<noteq> []" by (auto simp: parseTopicValue_def)
qed

lemma publish_find_exchange:
  fixes network :: UDPNetwork
  assumes "hashes_ok hs" "\<not> ctx_err e" "\<not> ctx_err e'"
    and "payload = put_payload (ID pub) (join comma hs)" "node' = HandleStore e node (seen_as pub src) key payload"
    and "v = store_value (case Storage node key of None \<Rightarrow> [] | Some x \<Rightarrow> x) payload"
    and "length payload \<le> 65393" "length v \<le> 65393" "mem < 2 ^ 64"
    and "chans network (next_chan network) = []" "chans network' (next_chan network') = []"
  shows "snd (UDP_Store rid (peer_exchange mem (node_handler e) pnet node src own c) network pub peer key payload) = Ok () \<and>
    state_after mem (node_handler e) pnet node src (store_packet rid pub key payload) = node' \<and>
    snd (UDP_FindValue rid' (peer_exchange mem (node_handler e') pnet' node' src' own' c') network' me peer' key) = Ok (v, []) \<and>
    (\<exists>t. tv_view (parseTopicValue v) (NodeId_String (ID pub)) = Some t \<and> set hs \<subseteq> t)"
proof -
  note found = stored_value_found [OF assms(1-3) assms(6) [unfolded assms(4)]]
  obtain s where reply: "handle_find_value (node_handler e') node' (seen_as me src') key = (s, v, [])"
    using found(1) unfolding assms(4,5) by (auto simp: node_handler_def)
  then have "snd (UDP_FindValue rid' (peer_exchange mem (node_handler e') pnet' node' src' own' c') network' me peer' key) = Ok (v, [])"
    using found(3) assms(8,9,11) by (subst FindValue_answered [OF reply]) simp_all
  moreover have "state_after mem (node_handler e) pnet node src (store_packet rid pub key payload) = node'"
    unfolding assms(5) using unat_of_length_bytes [of payload] assms(7)
    by (simp add: state_after_def store_packet_def rpc_simps node_handler_def)
  ultimately show ?thesis using found(2) by (simp add: Store_answered [OF assms(7,10)])
qed

subsection \<open>Properties\<close>

text \<open>
  C22. A \<open>FindNode\<close> call that reaches a node and whose answer comes back returns exactly the contacts the node's
  handler selected for the target, in their order, in wire form and without the caller itself;
  the call leaves no pending entry behind.
\<close>

theorem find_node_rpc:
  fixes network :: UDPNetwork
  assumes "\<not> ctx_err e" "selected = snd (HandleFindNode e node (seen_as me src) t)"
    and "\<forall>c \<in> set selected. To4 (IP c) \<noteq> []"
    and "2048 \<le> mem" "mem < 2 ^ 64" "chans network (next_chan network) = []"
  shows "UDP_FindNode rid (peer_exchange mem (node_handler e) pnet node src own c) network me peer t =
      (network\<lparr>pending := (pending network)(rid := None), next_chan := next_chan network + 1\<rparr>,
       Ok (filter (\<lambda>c. ID c \<noteq> ID me) (map wire_contact selected))) \<and>
    selected = FindClosest (Update (alive e) (node_RoutingTable node) (seen_as me src)) t k_size"
proof -
  have sel: "selected = FindClosest (Update (alive e) (node_RoutingTable node) (seen_as me src)) t k_size"
    using assms(1,2) by (simp add: HandleFindNode_def Let_def)
  then have "length selected \<le> 32" using length_FindClosest [of _ t k_size] by (simp add: k_size_def)
  then have mem: "64 * length selected \<le> mem" using assms(4) by linarith
  have reply: "handle_find_node (node_handler e) node (seen_as me src) t =
      (fst (HandleFindNode e node (seen_as me src) t), selected)"
    by (simp add: node_handler_def assms(2))
  have "length selected \<le> 1024" using \<open>length selected \<le> 32\<close> by simp
  from conjI [OF FindNode_answered [OF reply assms(3) mem assms(5) this assms(6)] sel] show ?thesis .
qed

theorem find_node_rpc_witness:
  "let e = \<lparr>ctx_err = False, alive = \<lambda>_. True\<rparr>; me = \<lparr>ID = id_of_nat 9, IP = [10, 0, 0, 9], Port = 9000\<rparr>;
       node = NewNode zero_id [10, 0, 0, 1] 9000; src = \<lparr>addr_IP = [10, 0, 0, 9], addr_Port = 9000\<rparr>
   in snd (UDP_FindNode (id_of_nat 77) (peer_exchange 4096 (node_handler e) NewUDPNetwork node src (node_handler e) node)
        NewUDPNetwork me (Self node) (id_of_nat 8)) = Ok []"
proof -
  let ?e = "\<lparr>ctx_err = False, alive = \<lambda>_. True\<rparr>" and ?src = "\<lparr>addr_IP = [10, 0, 0, 9], addr_Port = 9000\<rparr>"
  let ?me = "\<lparr>ID = id_of_nat 9, IP = [10, 0, 0, 9], Port = 9000\<rparr> :: Contact" and ?node = "NewNode zero_id [10, 0, 0, 1] 9000"
  have "contacts (Update (\<lambda>_. True) (NewRoutingTable zero_id) ?me) = [?me]"
    by (simp add: Update_eq contacts_def NewRoutingTable_def idLength_def bucket_update_def
        k_size_def concat_update_replicate bucket_index_bounds)
  then have sel: "[?me] = snd (HandleFindNode ?e ?node (seen_as ?me ?src) (id_of_nat 8))"
    by (simp add: HandleFindNode_def Let_def NewNode_def FindClosest_wf Update_wf New_wf k_size_def)
  have ch: "chans NewUDPNetwork (next_chan NewUDPNetwork) = []" by (simp add: NewUDPNetwork_def)
  have "wire_contact ?me = ?me" by (simp add: wire_contact_def)
  then show ?thesis
    unfolding Let_def by (subst find_node_rpc [THEN conjunct1, OF _ sel _ _ _ ch]) simp_all
qed



text \<open>
  A stored value that does not fit into a datagram can no longer be found: the node cannot send its answer, and every \<open>FindValue\<close> call ends with the
  context. Values grow, because a store merges.
\<close>

theorem big_value_not_found:
  fixes network :: UDPNetwork
  assumes "\<not> ctx_err e" "Storage node key = Some v" "65393 < length v"
  shows "snd (UDP_FindValue rid (peer_exchange mem (node_handler e) pnet node src own c) network me peer key) =
    Err ''timeout waiting for FindValue response''"
proof -
  let ?m = "\<lparr>MessageID = rid, msg_OpCode = FindValueResponse, SelfNodeId = ID me, Key = key,
    ValueLength = of_nat (length v), Value = v, ContactsLength = 0, Contacts = []\<rparr>"
  have "datagram (Encode ?m) = None" using assms(3) by (simp add: datagram_def length_Encode maxDatagram_def)
  moreover obtain s where "handle_find_value (node_handler e) node (seen_as me src) key = (s, v, [])"
    using assms(1,2) by (simp add: node_handler_def HandleFindValue_def Let_def)
  ultimately show ?thesis unfolding UDP_FindValue_def by (simp add: rpc_simps)
qed

text \<open>
  A repeated response blocks a worker: while the caller has not yet received, a second response with the
  message identifier of a pending call, whatever kind of response it is, finds the call's channel
  full and its worker goroutine waits in the send.
\<close>

theorem repeated_response_blocks:
  assumes "msg_OpCode m \<in> {Pong, StoreResponse, FindNodeResponse, FindValueResponse}"
    and "msg_OpCode m' \<in> {Pong, StoreResponse, FindNodeResponse, FindValueResponse}"
    and "MessageID m' = MessageID m" "pending network (MessageID m) = Some ch" "chans network ch = []"
  shows "\<exists>network'. UDP_handleIncomingRequest h False network s m addr = Handled (network', s, []) \<and>
    UDP_handleIncomingRequest h False network' s m' addr' = SendBlocks"
  using assms by (auto simp: UDP_handleIncomingRequest_def Let_def opcodes respond_def responded_def)

theorem repeated_response_blocks_witness:
  "let m = \<lparr>MessageID = id_of_nat 1, msg_OpCode = Pong, SelfNodeId = id_of_nat 2, Key = id_of_nat 3,
            ValueLength = 0, Value = [], ContactsLength = 0, Contacts = []\<rparr>;
       e = \<lparr>ctx_err = False, alive = \<lambda>_. True\<rparr>; a = \<lparr>addr_IP = [10, 0, 0, 4], addr_Port = 4\<rparr>;
       network = set_pending (id_of_nat 1) (Some 0) NewUDPNetwork; node = NewNode zero_id [] 1
   in \<exists>network'. UDP_handleIncomingRequest (node_handler e) False network node m a = Handled (network', node, []) \<and>
     UDP_handleIncomingRequest (node_handler e) False network' node m a = SendBlocks"
  unfolding Let_def by (rule repeated_response_blocks) (simp_all add: set_pending_def NewUDPNetwork_def)

text \<open>
  Unsolicited STUN messages stop the packet loop: once one STUN message has been read and nobody has
  received the address, the next one blocks \<open>Listen\<close>, which then reads no further packet.
\<close>

theorem stun_blocks_listener:
  assumes "is_stun d" "xaddr d = Some a" "is_stun d'" "xaddr d' = Some a'" "publicAddrCh network = []"
    and "length d \<le> MaxUDPPacketSize" "length d' \<le> MaxUDPPacketSize"
  shows "\<exists>network'. UDP_Listen_packet is_stun xaddr mem network d addr = Ok (Handled network') \<and>
    UDP_Listen_packet is_stun xaddr mem network' d' addr' = Ok SendBlocks"
  using assms by (simp add: UDP_Listen_packet_def Let_def)

theorem stun_blocks_listener_witness:
  "let a = \<lparr>addr_IP = [10, 0, 0, 4], addr_Port = 4\<rparr> in
   \<exists>network'. UDP_Listen_packet (\<lambda>d. d = [0, 1]) (\<lambda>d. Some a) 100 NewUDPNetwork [0, 1] a = Ok (Handled network') \<and>
    UDP_Listen_packet (\<lambda>d. d = [0, 1]) (\<lambda>d. Some a) 100 network' [0, 1] a = Ok SendBlocks"
  unfolding Let_def by (rule stun_blocks_listener [where a = "\<lparr>addr_IP = [10, 0, 0, 4], addr_Port = 4\<rparr>"
      and a' = "\<lparr>addr_IP = [10, 0, 0, 4], addr_Port = 4\<rparr>"]) (simp_all add: NewUDPNetwork_def MaxUDPPacketSize_def)

end
