(* ===== verification/Quic_Network.thy ===== *)
theory Quic_Network
  imports Rpc_Network
begin

text \<open>
  The QUIC network (\<open>src/kademlia/quic_network.go\<close>). Its RPC layer repeats that of the UDP network on a struct
  with the same state; it is translated on its own here and then shown to agree with it, so that what
  is known about calls and answers carries over. Tasks travel on QUIC streams as length-prefixed
  frames: \<open>RequestTask\<close> and \<open>SendTask\<close> on the calling side, \<open>serve_stream\<close> for the goroutine that
  \<open>Listen\<close> starts for a connection. A stream is what the peer's side gives before it ends, as a function of
  what was written to it (\<open>quic_stream\<close>); quic-go and TLS are outside the model; the certificate and the goroutines of \<open>Listen\<close> are in \<open>Quic_Listener\<close>.
\<close>

type_synonym QUICNetwork = UDPNetwork

definition NewQUICNetwork :: QUICNetwork where
  "NewQUICNetwork =
     \<lparr>pending = Map.empty, chans = \<lambda>_. [], next_chan = 0, PublicAddr = None, publicAddrCh = [],
      requestQueue = []\<rparr>"

subsection \<open>Tasks on streams\<close>

record quic_stream =
  dial_err :: "string option"
  open_err :: "string option"
  write_length_err :: "string option"
  write_data_err :: "string option"
  peer_reply :: "bytes \<Rightarrow> bytes"

text \<open>\<open>io.ReadFull\<close> of \<open>n\<close> bytes: an error when the stream ends before.\<close>

definition ReadFull :: "string \<Rightarrow> nat \<Rightarrow> bytes \<Rightarrow> (bytes \<times> bytes) outcome" where
  "ReadFull err n s = (if n \<le> length s then Ok (take n s, drop n s) else Err err)"

definition RequestTask :: "nat \<Rightarrow> string option \<Rightarrow> quic_stream \<Rightarrow> bytes \<Rightarrow> bytes outcome" where
  "RequestTask mem ctx_Err q data =
     (case ctx_Err of Some e \<Rightarrow> Err e | None \<Rightarrow>
      (case dial_err q of Some e \<Rightarrow> Err (''error dialing quic: '' @ e) | None \<Rightarrow>
      (case open_err q of Some e \<Rightarrow> Err (''error opening quic stream: '' @ e) | None \<Rightarrow>
       let lengthBytes = PutUint64 (of_nat (length data)) in
      (case write_length_err q of Some e \<Rightarrow> Err (''error writing length: '' @ e) | None \<Rightarrow>
      (case write_data_err q of Some e \<Rightarrow> Err (''error writing data: '' @ e) | None \<Rightarrow>
       obind (ReadFull ''error reading response length'' 8 (peer_reply q (lengthBytes @ data)))
         (\<lambda>(responseLengthBytes, str).
       let responseLength = Uint64 responseLengthBytes in
       obind (makeslice mem 1 (unat responseLength)) (\<lambda>_.
       obind (ReadFull ''error reading response'' (unat responseLength) str)
         (\<lambda>(response, _). Ok response))))))))"

definition SendTask :: "nat \<Rightarrow> string option \<Rightarrow> quic_stream \<Rightarrow> bytes \<Rightarrow> bytes outcome" where
  "SendTask mem ctx_Err q data =
     (case ctx_Err of Some e \<Rightarrow> Err e | None \<Rightarrow>
      (case dial_err q of Some e \<Rightarrow> Err (''error dialing quic: '' @ e) | None \<Rightarrow>
      (case open_err q of Some e \<Rightarrow> Err (''error opening quic stream: '' @ e) | None \<Rightarrow>
       let lengthBytes = PutUint64 (of_nat (length data)) in
      (case write_length_err q of Some e \<Rightarrow> Err (''error writing length: '' @ e) | None \<Rightarrow>
      (case write_data_err q of Some e \<Rightarrow> Err (''error writing data: '' @ e) | None \<Rightarrow>
       obind (ReadFull ''error reading response length'' 8 (peer_reply q (lengthBytes @ data)))
         (\<lambda>(responseLengthBytes, str).
       let responseLength = Uint64 responseLengthBytes in
       obind (makeslice mem 1 (unat responseLength)) (\<lambda>_.
       obind (ReadFull ''error reading response'' (unat responseLength) str)
         (\<lambda>(response, _). Ok response))))))))"

text \<open>
  The goroutine of a connection: it reads one request and writes one response. Where the code logs an error
  and returns, nothing is written. The result also gives the handler's new state.
\<close>

definition serve_stream :: "nat \<Rightarrow> (bytes \<Rightarrow> 's \<Rightarrow> (bytes outcome \<times> 's)) \<Rightarrow> 's \<Rightarrow> bytes \<Rightarrow> (bytes \<times> 's) outcome" where
  "serve_stream mem HandleMessage s packet =
     (case ReadFull ''error reading request length'' 8 packet of
        Ok (lengthBytes, packet) \<Rightarrow>
          let requestLength = Uint64 lengthBytes in
          obind (makeslice mem 1 (unat requestLength)) (\<lambda>_.
          (case ReadFull ''error reading request'' (unat requestLength) packet of
             Ok (request, _) \<Rightarrow>
               (case HandleMessage request s of
                  (Ok response, s) \<Rightarrow> Ok (PutUint64 (of_nat (length response)) @ response, s)
                | (Err _, s) \<Rightarrow> Ok ([], s)
                | (Panic, _) \<Rightarrow> Panic)
           | _ \<Rightarrow> Ok ([], s)))
      | _ \<Rightarrow> Ok ([], s))"

subsection \<open>The RPC layer\<close>

definition QUIC_FindNode ::
  "NodeId \<Rightarrow> exchange \<Rightarrow> QUICNetwork \<Rightarrow> Contact \<Rightarrow> Contact \<Rightarrow> NodeId \<Rightarrow> QUICNetwork \<times> Contact list outcome" where
  "QUIC_FindNode randomId io network requester recipient targetID =
     (let (resultsChan, network) = make_chan network;
          rpcMessage = \<lparr>MessageID = randomId, msg_OpCode = FindNodeRequest, SelfNodeId = ID requester,
            Key = targetID, ValueLength = 0, Value = [], ContactsLength = 0, Contacts = []\<rparr>;
          network = set_pending (MessageID rpcMessage) (Some resultsChan) network;
          msgToSend = Encode rpcMessage;
          (network, ended) = io msgToSend \<lparr>addr_IP = IP recipient, addr_Port = Port recipient\<rparr> resultsChan network;
          network = set_pending (MessageID rpcMessage) None network
      in (network,
          case ended of
            WriteFailed err \<Rightarrow> Err (''error writing to udp: '' @ err)
          | Received result \<Rightarrow>
              Ok (filter (\<lambda>contact. ID contact \<noteq> ID requester) (resp_Contacts result))
          | CtxDone \<Rightarrow> Err ''timeout waiting for FindNode response''))"

definition QUIC_FindValue ::
  "NodeId \<Rightarrow> exchange \<Rightarrow> QUICNetwork \<Rightarrow> Contact \<Rightarrow> Contact \<Rightarrow> NodeId \<Rightarrow>
     QUICNetwork \<times> (bytes \<times> Contact list) outcome" where
  "QUIC_FindValue randomId io network requester recipient key =
     (let (resultsChan, network) = make_chan network;
          rpcMessage = \<lparr>MessageID = randomId, msg_OpCode = FindValueRequest, SelfNodeId = ID requester,
            Key = key, ValueLength = 0, Value = [], ContactsLength = 0, Contacts = []\<rparr>;
          network = set_pending (MessageID rpcMessage) (Some resultsChan) network;
          msgToSend = Encode rpcMessage;
          (network, ended) = io msgToSend \<lparr>addr_IP = IP recipient, addr_Port = Port recipient\<rparr> resultsChan network;
          network = set_pending (MessageID rpcMessage) None network
      in (network,
          case ended of
            WriteFailed err \<Rightarrow> Err (''error writing to udp: '' @ err)
          | Received result \<Rightarrow>
              if length (resp_Value result) \<noteq> 0 then Ok (resp_Value result, [])
              else Ok ([], filter (\<lambda>contact. ID contact \<noteq> ID requester) (resp_Contacts result))
          | CtxDone \<Rightarrow> Err ''timeout waiting for FindValue response''))"

definition QUIC_Ping ::
  "NodeId \<Rightarrow> exchange \<Rightarrow> QUICNetwork \<Rightarrow> Contact \<Rightarrow> Contact \<Rightarrow> QUICNetwork \<times> unit outcome" where
  "QUIC_Ping randomId io network requester recipient =
     (let (resultsChan, network) = make_chan network;
          rpcMessage = \<lparr>MessageID = randomId, msg_OpCode = Rpc_Codec.Ping, SelfNodeId = ID requester,
            Key = zero_id, ValueLength = 0, Value = [], ContactsLength = 0, Contacts = []\<rparr>;
          network = set_pending (MessageID rpcMessage) (Some resultsChan) network;
          msgToSend = Encode rpcMessage;
          (network, ended) = io msgToSend \<lparr>addr_IP = IP recipient, addr_Port = Port recipient\<rparr> resultsChan network;
          network = set_pending (MessageID rpcMessage) None network
      in (network,
          case ended of
            WriteFailed err \<Rightarrow> Err (''error writing to udp: '' @ err)
          | Received _ \<Rightarrow> Ok ()
          | CtxDone \<Rightarrow> Err ''timeout waiting for Pong''))"

definition QUIC_Store ::
  "NodeId \<Rightarrow> exchange \<Rightarrow> QUICNetwork \<Rightarrow> Contact \<Rightarrow> Contact \<Rightarrow> NodeId \<Rightarrow> bytes \<Rightarrow> QUICNetwork \<times> unit outcome" where
  "QUIC_Store randomId io network requester recipient key value =
     (let (resultsChan, network) = make_chan network;
          rpcMessage = \<lparr>MessageID = randomId, msg_OpCode = StoreRequest, SelfNodeId = ID requester,
            Key = key, ValueLength = of_nat (length value), Value = value, ContactsLength = 0, Contacts = []\<rparr>;
          network = set_pending (MessageID rpcMessage) (Some resultsChan) network;
          msgToSend = Encode rpcMessage;
          (network, ended) = io msgToSend \<lparr>addr_IP = IP recipient, addr_Port = Port recipient\<rparr> resultsChan network;
          network = set_pending (MessageID rpcMessage) None network
      in (network,
          case ended of
            WriteFailed err \<Rightarrow> Err (''error writing to udp: '' @ err)
          | CtxDone \<Rightarrow> Err ''request timed out''
          | Received _ \<Rightarrow> Ok ()))"

definition QUIC_handleIncomingRequest ::
  "'s DHTHandler \<Rightarrow> bool \<Rightarrow> QUICNetwork \<Rightarrow> 's \<Rightarrow> RpcMessage \<Rightarrow> UDPAddr \<Rightarrow> 's served" where
  "QUIC_handleIncomingRequest h cancelled network s message addr =
     (let requester = \<lparr>ID = SelfNodeId message, IP = addr_IP addr, Port = addr_Port addr\<rparr>;
          op = msg_OpCode message
      in
      if cancelled then Handled (network, s, [])
      else if op = Rpc_Codec.Ping then
        let (s, _) = handle_ping h s requester;
            pingResponse = \<lparr>MessageID = MessageID message, msg_OpCode = Pong, SelfNodeId = SelfNodeId message,
              Key = Key message, ValueLength = 0, Value = [], ContactsLength = 0, Contacts = []\<rparr>
        in Handled (network, s, [(Encode pingResponse, addr)])
      else if op = FindNodeRequest then
        let (s, contacts) = handle_find_node h s requester (Key message);
            findNodeResponse = \<lparr>MessageID = MessageID message, msg_OpCode = FindNodeResponse,
              SelfNodeId = SelfNodeId message, Key = Key message, ValueLength = 0, Value = [],
              ContactsLength = of_nat (length contacts), Contacts = contacts\<rparr>
        in Handled (network, s, [(Encode findNodeResponse, addr)])
      else if op = FindValueRequest then
        let (s, value, contacts) = handle_find_value h s requester (Key message);
            findValueResponse = \<lparr>MessageID = MessageID message, msg_OpCode = FindValueResponse,
              SelfNodeId = SelfNodeId message, Key = Key message,
              ValueLength = of_nat (length value), Value = value,
              ContactsLength = of_nat (length contacts), Contacts = contacts\<rparr>
        in Handled (network, s, [(Encode findValueResponse, addr)])
      else if op = StoreRequest then
        let s = handle_store h s requester (Key message) (Value message);
            storeResponse = \<lparr>MessageID = MessageID message, msg_OpCode = StoreResponse,
              SelfNodeId = SelfNodeId message, Key = Key message, ValueLength = 0, Value = [],
              ContactsLength = 0, Contacts = []\<rparr>
        in Handled (network, s, [(Encode storeResponse, addr)])
      else if op = Pong then
        responded (respond (MessageID message) \<lparr>resp_Contacts = [], resp_Value = []\<rparr> network) s
      else if op = StoreResponse then
        responded (respond (MessageID message) \<lparr>resp_Contacts = [], resp_Value = []\<rparr> network) s
      else if op = FindNodeResponse then
        responded (respond (MessageID message) \<lparr>resp_Contacts = Contacts message, resp_Value = []\<rparr> network) s
      else if op = FindValueResponse then
        responded (respond (MessageID message)
          \<lparr>resp_Contacts = Contacts message, resp_Value = Value message\<rparr> network) s
      else Handled (network, s, []))"

definition QUIC_requestHandlerWorker ::
  "'s DHTHandler option \<Rightarrow> bool \<Rightarrow> QUICNetwork \<Rightarrow> 's \<Rightarrow> 's served option" where
  "QUIC_requestHandlerWorker dhtHandler cancelled network s =
     (if cancelled then None
      else case requestQueue network of
        [] \<Rightarrow> None
      | (message, address) # rest \<Rightarrow>
          let network = network\<lparr>requestQueue := rest\<rparr> in
          Some (case dhtHandler of
              None \<Rightarrow> Handled (network, s, [])
            | Some h \<Rightarrow> QUIC_handleIncomingRequest h cancelled network s message address))"

text \<open>
  One packet in the goroutine that reads packets that are not QUIC. It logs \<open>data[0]\<close> first, which panics on an
  empty packet, and it ignores packets that are neither STUN nor start with the magic byte.
\<close>

definition QUIC_Listen_packet ::
  "(bytes \<Rightarrow> bool) \<Rightarrow> (bytes \<Rightarrow> UDPAddr option) \<Rightarrow> nat \<Rightarrow> QUICNetwork \<Rightarrow> bytes \<Rightarrow> UDPAddr \<Rightarrow>
     QUICNetwork handled outcome" where
  "QUIC_Listen_packet stun_IsMessage stun_xorAddr mem network packet addr =
     (let data = take MaxUDPPacketSize packet in
      if data = [] then Panic
      else if stun_IsMessage data then
        (case stun_xorAddr data of
           None \<Rightarrow> Ok (Handled network)
         | Some a \<Rightarrow>
             let network = network\<lparr>PublicAddr := Some a\<rparr> in
             if length (publicAddrCh network) < 1
             then Ok (Handled (network\<lparr>publicAddrCh := publicAddrCh network @ [a]\<rparr>))
             else Ok SendBlocks)
      else if hd data = magicBytePrefix then
        (case Decode mem data of
           Panic \<Rightarrow> Panic
         | Err _ \<Rightarrow> Ok (Handled network)
         | Ok decodedMessage \<Rightarrow>
             if length (requestQueue network) < packetBufferLimit
             then Ok (Handled (network\<lparr>requestQueue := requestQueue network @ [(decodedMessage, addr)]\<rparr>))
             else Ok (Handled network))
      else Ok (Handled network))"

subsection \<open>Agreement with the UDP network\<close>

lemma QUIC_FindNode_eq: "QUIC_FindNode = UDP_FindNode"
  by (intro ext) (simp add: QUIC_FindNode_def UDP_FindNode_def)

lemma QUIC_FindValue_eq: "QUIC_FindValue = UDP_FindValue"
  by (intro ext) (simp add: QUIC_FindValue_def UDP_FindValue_def)

lemma QUIC_Ping_eq: "QUIC_Ping = UDP_Ping"
  by (intro ext) (simp add: QUIC_Ping_def UDP_Ping_def)

lemma QUIC_Store_eq: "QUIC_Store = UDP_Store"
  by (intro ext) (simp add: QUIC_Store_def UDP_Store_def)

lemma QUIC_handleIncomingRequest_eq: "QUIC_handleIncomingRequest = UDP_handleIncomingRequest"
  unfolding QUIC_handleIncomingRequest_def UDP_handleIncomingRequest_def by (rule refl)

lemmas QUIC_eqs = QUIC_FindNode_eq QUIC_FindValue_eq QUIC_Ping_eq QUIC_Store_eq QUIC_handleIncomingRequest_eq

lemma Decode_wrong_magic: "d \<noteq> [] \<Longrightarrow> hd d \<noteq> magicBytePrefix \<Longrightarrow> \<exists>e. Decode mem d = Err e"
  by (simp add: Decode_def Decode_rest_def)

lemma QUIC_Listen_packet_eq:
  assumes "d \<noteq> []"
  shows "QUIC_Listen_packet is_stun xaddr mem network d addr = UDP_Listen_packet is_stun xaddr mem network d addr"
proof -
  define t where "t = take MaxUDPPacketSize d"
  have t: "t \<noteq> []" using assms by (simp add: t_def MaxUDPPacketSize_def)
  show ?thesis
  proof (cases "is_stun t \<or> hd t = magicBytePrefix")
    case True
    with t show ?thesis unfolding QUIC_Listen_packet_def UDP_Listen_packet_def t_def [symmetric] by (auto simp: Let_def)
  next
    case False
    then obtain e where "Decode mem t = Err e" using Decode_wrong_magic [OF t] by blast
    with False t show ?thesis unfolding QUIC_Listen_packet_def UDP_Listen_packet_def t_def [symmetric] by simp
  qed
qed

subsection \<open>Frames\<close>

definition write_frame :: "bytes \<Rightarrow> bytes" where
  "write_frame data = PutUint64 (of_nat (length data)) @ data"

definition read_frame :: "string \<Rightarrow> string \<Rightarrow> nat \<Rightarrow> bytes \<Rightarrow> (bytes \<times> bytes) outcome" where
  "read_frame e1 e2 mem s =
     obind (ReadFull e1 8 s) (\<lambda>(l, s).
     obind (makeslice mem 1 (unat (Uint64 l))) (\<lambda>_. ReadFull e2 (unat (Uint64 l)) s))"

lemma ReadFull_Ok_iff: "ReadFull e n s = Ok (x, r) \<longleftrightarrow> s = x @ r \<and> length x = n"
  by (auto simp: ReadFull_def split: if_splits)

lemma ReadFull_append [simp]: "length x = n \<Longrightarrow> ReadFull e n (x @ r) = Ok (x, r)"
  by (simp add: ReadFull_def)

interpretation frame: byte_codec write_frame "read_frame e1 e2 mem" "\<lambda>d. length d \<le> mem \<and> length d < 2 ^ 64"
  for e1 e2 mem
proof unfold_locales
  fix d r :: bytes assume "length d \<le> mem \<and> length d < 2 ^ 64"
  then show "read_frame e1 e2 mem (write_frame d @ r) = Ok (d, r)"
    using unat_of_length_bytes [of d] by (simp add: read_frame_def write_frame_def makeslice_def)
next
  fix p d r assume "read_frame e1 e2 mem p = Ok (d, r)"
  then obtain l where "p = l @ d @ r" "length l = 8" "length d = unat (Uint64 l)" "length d \<le> mem"
    by (auto simp: read_frame_def obind_Ok_iff ReadFull_Ok_iff makeslice_Ok_iff)
  moreover from this have "length d < 2 ^ 64"
    using unsigned_less [of "Uint64 l", where ?'a = nat] by simp
  ultimately show "(length d \<le> mem \<and> length d < 2 ^ 64) \<and> p = write_frame d @ r"
    by (simp add: write_frame_def PutUint64_Uint64)
qed

lemma RequestTask_frames:
  assumes "dial_err q = None" "open_err q = None" "write_length_err q = None" "write_data_err q = None"
  shows "RequestTask mem None q data =
    obind (read_frame ''error reading response length'' ''error reading response'' mem (peer_reply q (write_frame data)))
      (\<lambda>(response, _). Ok response)"
  using assms
  by (cases "ReadFull ''error reading response length'' 8 (peer_reply q (write_frame data))")
    (auto simp: RequestTask_def read_frame_def write_frame_def Let_def makeslice_def)

lemma SendTask_eq: "SendTask = RequestTask"
  by (intro ext) (simp add: SendTask_def RequestTask_def)

lemma serve_stream_frame:
  assumes "length request \<le> mem" "length request < 2 ^ 64"
  shows "serve_stream mem handle s (write_frame request @ r) =
    (case handle request s of
       (Ok response, s) \<Rightarrow> Ok (write_frame response, s)
     | (Err _, s) \<Rightarrow> Ok ([], s)
     | (Panic, _) \<Rightarrow> Panic)"
  using assms unat_of_length_bytes [OF assms(2)]
  by (simp add: serve_stream_def write_frame_def makeslice_def Let_def split: prod.split outcome.split)

subsection \<open>Properties\<close>

text \<open>
  C26. A task request and its answer survive the stream: when the peer's handler answers a request, the caller's
  \<open>RequestTask\<close>, and likewise \<open>SendTask\<close>, returns exactly the handler's bytes; when the handler fails, the
  call returns an error and never a truncated or empty answer.
\<close>

theorem task_stream_roundtrip:
  assumes "dial_err q = None" "open_err q = None" "write_length_err q = None" "write_data_err q = None"
    and "serve_stream mem' handle s (write_frame data) = Ok (out, s')" "peer_reply q (write_frame data) = out"
    and "length data \<le> mem'" "length data < 2 ^ 64"
  shows "(\<forall>response. fst (handle data s) = Ok response \<and> length response \<le> mem \<and> length response < 2 ^ 64 \<longrightarrow>
        RequestTask mem None q data = Ok response \<and> SendTask mem None q data = Ok response) \<and>
    (\<forall>e. fst (handle data s) = Err e \<longrightarrow>
        RequestTask mem None q data = Err ''error reading response length'' \<and> SendTask mem None q data = RequestTask mem None q data)"
proof (cases "handle data s")
  case (Pair result s'')
  have out: "(case handle data s of (Ok response, s) \<Rightarrow> Ok (write_frame response, s)
      | (Err _, s) \<Rightarrow> Ok ([], s) | (Panic, _) \<Rightarrow> Panic) = Ok (out, s')"
    using serve_stream_frame [OF assms(7,8), of handle s "[]"] assms(5) by simp
  show ?thesis
  proof (cases result)
    case (Ok response)
    with out Pair have "out = write_frame response" by simp
    then show ?thesis
      using Ok Pair frame.dec_enc [of response mem _ _ "[]"]
      by (simp add: SendTask_eq RequestTask_frames [OF assms(1-4)] assms(6))
  next
    case (Err e)
    with out Pair have "out = []" by simp
    then show ?thesis
      using Err Pair by (simp add: SendTask_eq RequestTask_frames [OF assms(1-4)] assms(6) read_frame_def ReadFull_def)
  qed (use out Pair in simp)
qed

theorem task_stream_roundtrip_witness:
  "let handle = (\<lambda>d n. (Ok (rev d), n + 1)) :: bytes \<Rightarrow> nat \<Rightarrow> bytes outcome \<times> nat;
       q = \<lparr>dial_err = None, open_err = None, write_length_err = None, write_data_err = None,
            peer_reply = \<lambda>_. write_frame [3, 2, 1]\<rparr>
   in RequestTask 100 None q [1, 2, 3] = Ok [3, 2, 1]"
proof -
  let ?handle = "(\<lambda>d n. (Ok (rev d), n + 1)) :: bytes \<Rightarrow> nat \<Rightarrow> bytes outcome \<times> nat"
  let ?q = "\<lparr>dial_err = None, open_err = None, write_length_err = None, write_data_err = None,
            peer_reply = \<lambda>_. write_frame [3, 2, 1]\<rparr>"
  have "serve_stream 100 ?handle 0 (write_frame [1, 2, 3]) = Ok (write_frame [3, 2, 1], 1)"
    using serve_stream_frame [of "[1, 2, 3]" 100 ?handle 0 "[]"] by simp
  then show ?thesis
    unfolding Let_def using task_stream_roundtrip [of ?q 100 ?handle 0 "[1, 2, 3]" _ _ 100] by simp
qed

text \<open>
  A length prefix crashes the server: eight bytes that announce more than can be allocated, with nothing
  behind them, make the goroutine of the connection panic before it has read the request.
\<close>

theorem length_prefix_panics:
  assumes "length l = 8" "mem < unat (Uint64 l)"
  shows "serve_stream mem handle s (l @ r) = Panic"
  using assms by (simp add: serve_stream_def Let_def makeslice_def)

theorem length_prefix_panics_witness:
  "serve_stream (2 ^ 48) (\<lambda>d s. (Ok d, s)) () ([255, 0, 0, 0, 0, 0, 0, 0] @ []) = Panic"
  by (rule length_prefix_panics) (simp_all add: Uint64_def)

text \<open>
  The QUIC network answers like the UDP network: its four client calls and its dispatch of incoming
  messages compute the same states, packets and results, and its packet loop treats every non-empty packet
  alike. On an empty packet the QUIC loop panics, where the UDP loop goes on.
\<close>

theorem quic_agrees_with_udp:
  "QUIC_FindNode rid io network me peer t = UDP_FindNode rid io network me peer t \<and>
   QUIC_FindValue rid io network me peer t = UDP_FindValue rid io network me peer t \<and>
   QUIC_Ping rid io network me peer = UDP_Ping rid io network me peer \<and>
   QUIC_Store rid io network me peer t v = UDP_Store rid io network me peer t v \<and>
   QUIC_handleIncomingRequest h cancelled network s m addr = UDP_handleIncomingRequest h cancelled network s m addr \<and>
   QUIC_Listen_packet is_stun xaddr mem network (b # d) addr = UDP_Listen_packet is_stun xaddr mem network (b # d) addr \<and>
   QUIC_Listen_packet is_stun xaddr mem network [] addr = Panic \<and>
   UDP_Listen_packet (\<lambda>_. False) xaddr mem network [] addr = Ok (Handled network)"
  by (simp add: QUIC_eqs QUIC_Listen_packet_eq)
    (simp add: QUIC_Listen_packet_def UDP_Listen_packet_def Decode_def Decode_rest_def)

end
