(* ===== verification/Quic_Listener.thy ===== *)
theory Quic_Listener
  imports Quic_Network "HOL-Library.Sublist"
begin

text \<open>
  \<open>Listen\<close> of the QUIC network (\<open>src/kademlia/quic_network.go\<close>) with the goroutines it starts: the pool of workers that handle DHT requests, the goroutine that
  reads the packets that are not QUIC, the loop that accepts connections and one goroutine for each of them. They are the rules of the
  step relation \<open>ql_step\<close>, taken in any order. A panic ends the process: after it there is no step. Also here: the certificate, and the two
  functions of \<open>network.go\<close> that find out addresses.

  Parameters: key generation, \<open>x509.CreateCertificate\<close> and the calendar; the STUN library; sockets and \<open>quic-go\<close>, by what their calls return; the handlers of
  DHT requests and of task messages.
\<close>

subsection \<open>The certificate\<close>

record x509_Certificate =
  SerialNumber :: int
  CommonName :: string
  Organization :: "string list"
  NotBefore :: int
  NotAfter :: int
  IsCA :: bool
  BasicConstraintsValid :: bool
  KeyUsage :: "string list"
  ExtKeyUsage :: "string list"
  IPAddresses :: "bytes list"

record 'k tls_Certificate =
  tls_chain :: "bytes list"
  PrivateKey :: 'k

text \<open>
  \<open>clock\<close> are the values of the two calls of \<open>time.Now\<close>, \<open>AddDate\<close> adds a day. The second error is formatted from \<open>err\<close>, which is \<open>nil\<close> there;
  \<open>%v\<close> prints it as \<open><nil>\<close>.
\<close>

definition generateTLSCertificate ::
  "('p \<times> 'k) outcome \<Rightarrow> (x509_Certificate \<Rightarrow> x509_Certificate \<Rightarrow> 'p \<Rightarrow> 'k \<Rightarrow> bytes outcome) \<Rightarrow> (int \<Rightarrow> int) \<Rightarrow> int \<times> int \<Rightarrow>
     'k tls_Certificate outcome" where
  "generateTLSCertificate GenerateKey CreateCertificate AddDate clock =
     (case GenerateKey of
        Panic \<Rightarrow> Panic
      | Err e \<Rightarrow> Err (''error generating private public key pair: '' @ e)
      | Ok (pub, priv) \<Rightarrow>
          let ca = \<lparr>SerialNumber = 2026, CommonName = ''hasotti'', Organization = [''Haso, INC.''], NotBefore = fst clock, NotAfter = AddDate (snd clock),
                IsCA = True, BasicConstraintsValid = True, KeyUsage = [''CertSign'', ''CRLSign''], ExtKeyUsage = [''ClientAuth'', ''ServerAuth''],
                IPAddresses = [[127, 0, 0, 1]]\<rparr>
          in (case CreateCertificate ca ca pub priv of
                Panic \<Rightarrow> Panic
              | Err certErr \<Rightarrow> Err (''failed to create certificate: '' @ ''<nil>'')
              | Ok bytes \<Rightarrow> Ok \<lparr>tls_chain = [bytes], PrivateKey = priv\<rparr>))"

subsection \<open>The goroutines of Listen\<close>

definition workerPoolSize :: nat where
  "workerPoolSize = 32"

datatype reader = Reads | ReaderBlocked | ReaderEnded

datatype accepter = Accepting | ListenReturned string

text \<open>
  \<open>ql_dht\<close> is the state of the node and \<open>ql_task\<close> that behind the task handler; \<open>ql_dht_set\<close> and \<open>ql_task_set\<close> say whether the handlers are registered already, which \<open>run\<close> does only
  after it has started \<open>Listen\<close>. \<open>ql_workers\<close> counts the workers that are not blocked, \<open>ql_conns\<close> the connections accepted and not yet served. The last three fields are not part of the
  program: the requests decoded from packets, the addresses of the STUN messages, and what happened to the node's state: requests that a worker gave to the handler, in the
  surroundings the handler saw, requests discarded for want of a handler, and changes the node made itself.
\<close>

datatype ('e, 's) dht_action = Served 'e RpcMessage UDPAddr | Discarded RpcMessage UDPAddr | Own "'s \<Rightarrow> 's"

record ('e, 's, 't) listener =
  ql_net :: QUICNetwork
  ql_dht :: 's
  ql_task :: 't
  ql_dht_set :: bool
  ql_task_set :: bool
  ql_reader :: reader
  ql_workers :: nat
  ql_conns :: nat
  ql_main :: accepter
  ql_read :: "(RpcMessage \<times> UDPAddr) list"
  ql_addrs :: "UDPAddr list"
  ql_history :: "('e, 's) dht_action list"

text \<open>The workers and the reader are started before the certificate is made and \<open>tr.Listen\<close> called, and an error of those does not stop them.\<close>

definition Listen_start :: "'k tls_Certificate outcome \<Rightarrow> string option \<Rightarrow> QUICNetwork \<Rightarrow> 's \<Rightarrow> 't \<Rightarrow> ('e, 's, 't) listener outcome" where
  "Listen_start certificate listen_err network s t =
     (let st = \<lparr>ql_net = network, ql_dht = s, ql_task = t, ql_dht_set = False, ql_task_set = False, ql_reader = Reads, ql_workers = workerPoolSize,
            ql_conns = 0, ql_main = Accepting, ql_read = [], ql_addrs = [], ql_history = []\<rparr>
      in (case certificate of
            Panic \<Rightarrow> Panic
          | Err certErr \<Rightarrow> Ok (st\<lparr>ql_main := ListenReturned certErr\<rparr>)
          | Ok _ \<Rightarrow>
              (case listen_err of
                 Some err \<Rightarrow> Ok (st\<lparr>ql_main := ListenReturned (''error listening quic: '' @ err)\<rparr>)
               | None \<Rightarrow> Ok st)))"

definition SetDHTHandler :: "('e, 's, 't) listener \<Rightarrow> ('e, 's, 't) listener" where
  "SetDHTHandler st = st\<lparr>ql_dht_set := True\<rparr>"

definition SetTaskHandler :: "('e, 's, 't) listener \<Rightarrow> ('e, 's, 't) listener" where
  "SetTaskHandler st = st\<lparr>ql_task_set := True\<rparr>"

text \<open>The goroutine of a connection: \<open>accepted\<close> is what \<open>AcceptStream\<close> returns, the bytes of the stream or an error.\<close>

definition serve_connection :: "nat \<Rightarrow> (bytes \<Rightarrow> 't \<Rightarrow> (bytes outcome \<times> 't)) \<Rightarrow> bytes outcome \<Rightarrow> 't \<Rightarrow> (bytes \<times> 't) outcome" where
  "serve_connection mem HandleMessage accepted t =
     (case accepted of Ok packet \<Rightarrow> serve_stream mem HandleMessage t packet | Err _ \<Rightarrow> Ok ([], t) | Panic \<Rightarrow> Panic)"

text \<open>The request that a packet carries, and the address, if any.\<close>

definition packet_requests :: "(bytes \<Rightarrow> bool) \<Rightarrow> nat \<Rightarrow> bytes \<Rightarrow> UDPAddr \<Rightarrow> (RpcMessage \<times> UDPAddr) list" where
  "packet_requests is_stun mem packet addr =
     (let data = take MaxUDPPacketSize packet in
      if is_stun data then [] else case Decode mem data of Ok m \<Rightarrow> [(m, addr)] | _ \<Rightarrow> [])"

definition packet_addrs :: "(bytes \<Rightarrow> bool) \<Rightarrow> (bytes \<Rightarrow> UDPAddr option) \<Rightarrow> bytes \<Rightarrow> UDPAddr list" where
  "packet_addrs is_stun xaddr packet =
     (let data = take MaxUDPPacketSize packet in
      if is_stun data then (case xaddr data of Some a \<Rightarrow> [a] | None \<Rightarrow> []) else [])"

text \<open>What a worker does with the first request of the queue: without a handler it takes the request and discards it.\<close>

definition worker_action :: "('e, 's, 't) listener \<Rightarrow> 'e \<Rightarrow> ('e, 's) dht_action" where
  "worker_action st e =
     (let (m, a) = hd (requestQueue (ql_net st)) in if ql_dht_set st then Served e m a else Discarded m a)"

abbreviation worker_run :: "('e \<Rightarrow> 's DHTHandler) \<Rightarrow> 'e \<Rightarrow> ('e, 's, 't) listener \<Rightarrow> 's served option" where
  "worker_run h e st \<equiv> QUIC_requestHandlerWorker (if ql_dht_set st then Some (h e) else None) False (ql_net st) (ql_dht st)"

text \<open>
  The rules: the reader reads a packet, blocks on the full channel of addresses, or ends; the handlers are registered; a worker takes a request and handles it, blocks, or ends with the
  context; a call of the node's own, in another goroutine, changes the pending calls, and the node changes its own state; \<open>Accept\<close> gives a connection, fails while the context is alive, or
  ends the loop with the context; a connection is served, which panics when its message arrives before the task handler is registered. No
  rule receives from the channel of addresses, because no code does. Serving one request is one step.
\<close>

inductive ql_step :: "(bytes \<Rightarrow> bool) \<Rightarrow> (bytes \<Rightarrow> UDPAddr option) \<Rightarrow> nat \<Rightarrow> ('e \<Rightarrow> 's DHTHandler) \<Rightarrow>
    (bytes \<Rightarrow> 't \<Rightarrow> (bytes outcome \<times> 't)) \<Rightarrow> ('e, 's, 't) listener \<Rightarrow> ('e, 's, 't) listener \<Rightarrow> bool" for is_stun xaddr mem h handle where
  ql_packet: "ql_reader st = Reads \<Longrightarrow> QUIC_Listen_packet is_stun xaddr mem (ql_net st) packet addr = Ok (Handled network) \<Longrightarrow>
    ql_step is_stun xaddr mem h handle st (st\<lparr>ql_net := network, ql_read := ql_read st @ packet_requests is_stun mem packet addr,
      ql_addrs := ql_addrs st @ packet_addrs is_stun xaddr packet\<rparr>)"
| ql_packet_blocks: "ql_reader st = Reads \<Longrightarrow> QUIC_Listen_packet is_stun xaddr mem (ql_net st) packet addr = Ok SendBlocks \<Longrightarrow>
    ql_step is_stun xaddr mem h handle st (st\<lparr>ql_net := (ql_net st)\<lparr>PublicAddr := xaddr (take MaxUDPPacketSize packet)\<rparr>, ql_reader := ReaderBlocked,
      ql_addrs := ql_addrs st @ packet_addrs is_stun xaddr packet\<rparr>)"
| ql_read_failed: "ql_reader st = Reads \<Longrightarrow> ql_step is_stun xaddr mem h handle st (st\<lparr>ql_reader := ReaderEnded\<rparr>)"
| ql_set_dht: "ql_step is_stun xaddr mem h handle st (SetDHTHandler st)"
| ql_set_task: "ql_step is_stun xaddr mem h handle st (SetTaskHandler st)"
| ql_request: "0 < ql_workers st \<Longrightarrow> worker_run h e st = Some (Handled (network, s, replies)) \<Longrightarrow>
    ql_step is_stun xaddr mem h handle st (st\<lparr>ql_net := network, ql_dht := s, ql_history := ql_history st @ [worker_action st e]\<rparr>)"
| ql_request_blocks: "0 < ql_workers st \<Longrightarrow> worker_run h e st = Some SendBlocks \<Longrightarrow>
    ql_step is_stun xaddr mem h handle st
      (st\<lparr>ql_net := (ql_net st)\<lparr>requestQueue := tl (requestQueue (ql_net st))\<rparr>, ql_workers := ql_workers st - 1,
          ql_history := ql_history st @ [worker_action st e]\<rparr>)"
| ql_worker_ends: "0 < ql_workers st \<Longrightarrow> ql_step is_stun xaddr mem h handle st (st\<lparr>ql_workers := ql_workers st - 1\<rparr>)"
| ql_call: "ql_step is_stun xaddr mem h handle st (st\<lparr>ql_net := (ql_net st)\<lparr>pending := p, chans := c, next_chan := n\<rparr>\<rparr>)"
| ql_own: "ql_step is_stun xaddr mem h handle st (st\<lparr>ql_dht := f (ql_dht st), ql_history := ql_history st @ [Own f]\<rparr>)"
| ql_accept: "ql_main st = Accepting \<Longrightarrow> ql_step is_stun xaddr mem h handle st (st\<lparr>ql_conns := ql_conns st + 1\<rparr>)"
| ql_accept_failed: "ql_main st = Accepting \<Longrightarrow> ql_step is_stun xaddr mem h handle st st"
| ql_cancelled: "ql_main st = Accepting \<Longrightarrow> ql_step is_stun xaddr mem h handle st (st\<lparr>ql_main := ListenReturned e\<rparr>)"
| ql_connection: "0 < ql_conns st \<Longrightarrow>
    serve_connection mem (if ql_task_set st then handle else (\<lambda>_ t. (Panic, t))) accepted (ql_task st) = Ok (reply, t) \<Longrightarrow>
    ql_step is_stun xaddr mem h handle st (st\<lparr>ql_conns := ql_conns st - 1, ql_task := t\<rparr>)"

inductive_cases ql_stepE: "ql_step is_stun xaddr mem h handle st st'"

definition ql_init :: "'s \<Rightarrow> ('e, 's, 't) listener \<Rightarrow> bool" where
  "ql_init s st \<longleftrightarrow> (\<exists>certificate :: unit tls_Certificate outcome. \<exists>listen_err t. Listen_start certificate listen_err NewQUICNetwork s t = Ok st)"

subsection \<open>Addresses\<close>

text \<open>
  \<open>SendSTUNRequest\<close>: what resolving and writing return, and the network at the moment when the \<open>select\<close> goes on, with whether it takes the end of the context. Without that it
  can only go on by receiving.
\<close>

definition SendSTUNRequest :: "UDPAddr outcome \<Rightarrow> (UDPAddr \<Rightarrow> string option) \<Rightarrow> (UDPNetwork \<Rightarrow> UDPNetwork \<times> bool) \<Rightarrow> UDPNetwork \<Rightarrow> UDPNetwork \<times> unit outcome" where
  "SendSTUNRequest ResolveUDPAddr WriteToUDP wait network =
     (case ResolveUDPAddr of
        Panic \<Rightarrow> (network, Panic)
      | Err resolveErr \<Rightarrow> (network, Err (''error parsing stun server uri : '' @ resolveErr))
      | Ok uri \<Rightarrow>
          (case WriteToUDP uri of
             Some err \<Rightarrow> (network, Err (''error sending stun request: '' @ err))
           | None \<Rightarrow>
               let (network, done) = wait network in
               if done \<or> publicAddrCh network = [] then (network, Err ''timeout waiting for stun response'')
               else (network\<lparr>publicAddrCh := tl (publicAddrCh network)\<rparr>, Ok ())))"

definition GetOutboundIP :: "string option \<Rightarrow> UDPAddr outcome \<Rightarrow> bytes outcome" where
  "GetOutboundIP ctx_Err Dial =
     (case ctx_Err of
        Some e \<Rightarrow> Err e
      | None \<Rightarrow> (case Dial of Panic \<Rightarrow> Panic | Err e \<Rightarrow> Err (''error dialing: '' @ e) | Ok localAddr \<Rightarrow> Ok (addr_IP localAddr)))"

subsection \<open>The specification: requests served one after the other\<close>

definition request_of :: "RpcMessage \<Rightarrow> dht_request option" where
  "request_of m =
     (if msg_OpCode m = Rpc_Codec.Ping then Some ReqPing
      else if msg_OpCode m = FindNodeRequest then Some (ReqFindNode (Key m))
      else if msg_OpCode m = FindValueRequest then Some (ReqFindValue (Key m))
      else if msg_OpCode m = StoreRequest then Some (ReqStore (Key m) (Value m))
      else None)"

fun apply_action :: "('e \<Rightarrow> 's DHTHandler) \<Rightarrow> ('e, 's) dht_action \<Rightarrow> 's \<Rightarrow> 's" where
  "apply_action h (Served e m a) s =
     (case request_of m of None \<Rightarrow> s | Some r \<Rightarrow> serve (h e) \<lparr>ID = SelfNodeId m, IP = addr_IP a, Port = addr_Port a\<rparr> r s)"
| "apply_action h (Discarded m a) s = s"
| "apply_action h (Own f) s = f s"

fun taken_of :: "('e, 's) dht_action \<Rightarrow> (RpcMessage \<times> UDPAddr) list" where
  "taken_of (Served e m a) = [(m, a)]"
| "taken_of (Discarded m a) = [(m, a)]"
| "taken_of (Own f) = []"

abbreviation taken :: "('e, 's) dht_action list \<Rightarrow> (RpcMessage \<times> UDPAddr) list" where
  "taken acts \<equiv> concat (map taken_of acts)"

lemma responded_frame:
  "responded (respond i r network) s = Handled (network', s', rs) \<Longrightarrow>
     requestQueue network' = requestQueue network \<and> publicAddrCh network' = publicAddrCh network \<and> s' = s"
  by (auto simp: responded_def respond_def split: handled.splits option.splits if_splits)

lemma handleIncomingRequest_frame:
  assumes "QUIC_handleIncomingRequest h False network s m a = Handled (network', s', rs)"
  shows "requestQueue network' = requestQueue network \<and> publicAddrCh network' = publicAddrCh network \<and>
    s' = (case request_of m of None \<Rightarrow> s | Some r \<Rightarrow> serve h \<lparr>ID = SelfNodeId m, IP = addr_IP a, Port = addr_Port a\<rparr> r s)"
  using assms
  by (auto simp: QUIC_handleIncomingRequest_def request_of_def Let_def split: if_splits prod.splits dest!: responded_frame)

lemma handleIncomingRequest_blocks: "QUIC_handleIncomingRequest h False network s m a = SendBlocks \<Longrightarrow> request_of m = None"
  by (auto simp: QUIC_handleIncomingRequest_def request_of_def Let_def opcodes split: if_splits prod.splits)

text \<open>A worker takes the first request of the queue and does to the node's state what serving it does.\<close>

lemma worker_takes:
  assumes "worker_run h e st = Some r"
  obtains q rest where "requestQueue (ql_net st) = q # rest" "taken_of (worker_action st e) = [q]"
    and "\<And>network s rs. r = Handled (network, s, rs) \<Longrightarrow>
      requestQueue network = rest \<and> publicAddrCh network = publicAddrCh (ql_net st) \<and> s = apply_action h (worker_action st e) (ql_dht st)"
    and "r = SendBlocks \<Longrightarrow> apply_action h (worker_action st e) (ql_dht st) = ql_dht st"
proof -
  obtain m a rest where q: "requestQueue (ql_net st) = (m, a) # rest"
    using assms by (auto simp: QUIC_requestHandlerWorker_def split: if_splits list.splits)
  show ?thesis
  proof (rule that [OF q])
    show "taken_of (worker_action st e) = [(m, a)]" by (simp add: worker_action_def q)
    show "requestQueue network = rest \<and> publicAddrCh network = publicAddrCh (ql_net st) \<and> s = apply_action h (worker_action st e) (ql_dht st)"
      if "r = Handled (network, s, rs)" for network s rs
      using assms q that
      by (auto simp: QUIC_requestHandlerWorker_def worker_action_def Let_def split: if_splits dest!: handleIncomingRequest_frame)
    show "apply_action h (worker_action st e) (ql_dht st) = ql_dht st" if "r = SendBlocks"
      using assms q that
      by (auto simp: QUIC_requestHandlerWorker_def worker_action_def Let_def split: if_splits dest!: handleIncomingRequest_blocks)
  qed
qed

lemma Listen_packet_effect:
  assumes "QUIC_Listen_packet is_stun xaddr mem network packet addr = Ok (Handled network')"
  shows "requestQueue network' = (if length (requestQueue network) < packetBufferLimit
      then requestQueue network @ packet_requests is_stun mem packet addr else requestQueue network)"
    and "length (packet_requests is_stun mem packet addr) \<le> 1"
    and "packet_addrs is_stun xaddr packet \<noteq> [] \<Longrightarrow> publicAddrCh network = []"
    and "publicAddrCh network' = publicAddrCh network @ packet_addrs is_stun xaddr packet"
  using assms Decode_wrong_magic [of "take MaxUDPPacketSize packet" mem]
  by (auto simp: QUIC_Listen_packet_def packet_requests_def packet_addrs_def Let_def split: if_splits option.splits outcome.splits)

lemma Listen_packet_blocks:
  "QUIC_Listen_packet is_stun xaddr mem network packet addr = Ok SendBlocks \<Longrightarrow>
     publicAddrCh network \<noteq> [] \<and> length (packet_addrs is_stun xaddr packet) = 1"
  by (auto simp: QUIC_Listen_packet_def packet_addrs_def Let_def split: if_splits option.splits outcome.splits)

subsection \<open>Invariants\<close>

text \<open>
  Every request in the queue or taken from it was read, once and in order, and nothing is dropped before more than 1024 requests were read; the node is in the state that its history
  gives; and the reader is blocked exactly when it has read a second address.
\<close>

definition queue_ok :: "('e, 's, 't) listener \<Rightarrow> bool" where
  "queue_ok st \<longleftrightarrow>
     length (requestQueue (ql_net st)) \<le> packetBufferLimit \<and>
     subseq (taken (ql_history st) @ requestQueue (ql_net st)) (ql_read st) \<and>
     (length (ql_read st) \<le> packetBufferLimit \<longrightarrow> taken (ql_history st) @ requestQueue (ql_net st) = ql_read st)"

definition history_ok :: "('e \<Rightarrow> 's DHTHandler) \<Rightarrow> 's \<Rightarrow> ('e, 's, 't) listener \<Rightarrow> bool" where
  "history_ok h s0 st \<longleftrightarrow>
     ql_dht st = fold (apply_action h) (ql_history st) s0 \<and>
     (\<exists>before after. ql_history st = before @ after \<and> (\<forall>e m a. Served e m a \<notin> set before) \<and> (\<forall>m a. Discarded m a \<notin> set after) \<and>
        (\<not> ql_dht_set st \<longrightarrow> after = []))"

definition addrs_ok :: "('e, 's, 't) listener \<Rightarrow> bool" where
  "addrs_ok st \<longleftrightarrow> length (ql_addrs st) \<le> 2 \<and> publicAddrCh (ql_net st) = take 1 (ql_addrs st) \<and>
     (ql_reader st = ReaderBlocked \<longleftrightarrow> length (ql_addrs st) = 2)"

lemma queue_ok_read:
  assumes "queue_ok st" "length r \<le> 1" "ql_read st' = ql_read st @ r" "ql_history st' = ql_history st"
    and "requestQueue (ql_net st') = (if length (requestQueue (ql_net st)) < packetBufferLimit then requestQueue (ql_net st) @ r else requestQueue (ql_net st))"
  shows "queue_ok st'"
proof (cases "length (requestQueue (ql_net st)) < packetBufferLimit")
  case True
  have "subseq ((taken (ql_history st) @ requestQueue (ql_net st)) @ r) (ql_read st @ r)"
    using assms(1) by (intro list_emb_append_mono) (simp_all add: queue_ok_def)
  with True assms show ?thesis by (auto simp: queue_ok_def)
next
  case False
  have "subseq (taken (ql_history st) @ requestQueue (ql_net st)) (ql_read st @ r)"
    using assms(1) by (auto simp: queue_ok_def intro: subseq_rev_drop_many)
  moreover have "packetBufferLimit \<le> length (ql_read st)"
    using False assms(1) list_emb_length [of "(=)" "taken (ql_history st) @ requestQueue (ql_net st)" "ql_read st"] by (simp add: queue_ok_def)
  then have "r = []" if "length (ql_read st @ r) \<le> packetBufferLimit" using that by (cases r) auto
  ultimately show ?thesis using False assms by (auto simp: queue_ok_def)
qed

lemma queue_ok_taken:
  assumes "queue_ok st" "requestQueue (ql_net st) = q # rest" "requestQueue (ql_net st') = rest" "taken_of act = [q]"
    and "ql_read st' = ql_read st" "ql_history st' = ql_history st @ [act]"
  shows "queue_ok st'"
  using assms by (simp add: queue_ok_def)

lemma history_ok_action:
  assumes "history_ok h s0 st" "ql_history st' = ql_history st @ [act]" "ql_dht st' = apply_action h act (ql_dht st)" "ql_dht_set st' = ql_dht_set st"
    and "if ql_dht_set st then \<forall>m a. act \<noteq> Discarded m a else \<forall>e m a. act \<noteq> Served e m a"
  shows "history_ok h s0 st'"
proof -
  obtain before after where h: "ql_history st = before @ after" "\<forall>e m a. Served e m a \<notin> set before" "\<forall>m a. Discarded m a \<notin> set after"
    "\<not> ql_dht_set st \<longrightarrow> after = []" using assms(1) by (auto simp: history_ok_def)
  have "ql_dht st' = fold (apply_action h) (ql_history st') s0" using assms(1-3) by (simp add: history_ok_def)
  moreover have "\<exists>b a. ql_history st' = b @ a \<and> (\<forall>e m x. Served e m x \<notin> set b) \<and> (\<forall>m x. Discarded m x \<notin> set a) \<and> (\<not> ql_dht_set st' \<longrightarrow> a = [])"
  proof (cases "ql_dht_set st")
    case True
    with h assms(2,4,5) show ?thesis by (intro exI [of _ before] exI [of _ "after @ [act]"]) auto
  next
    case False
    with h assms(2,4,5) show ?thesis by (intro exI [of _ "before @ [act]"] exI [of _ "[]"]) auto
  qed
  ultimately show ?thesis unfolding history_ok_def by blast
qed

definition ql_inv :: "('e \<Rightarrow> 's DHTHandler) \<Rightarrow> 's \<Rightarrow> ('e, 's, 't) listener \<Rightarrow> bool" where
  "ql_inv h s0 st \<longleftrightarrow> queue_ok st \<and> history_ok h s0 st \<and> addrs_ok st"

lemma ql_inv_frame:
  assumes "ql_inv h s0 st" "requestQueue (ql_net st') = requestQueue (ql_net st)" "publicAddrCh (ql_net st') = publicAddrCh (ql_net st)"
    and "ql_read st' = ql_read st" "ql_history st' = ql_history st" "ql_dht st' = ql_dht st" "ql_dht_set st \<longrightarrow> ql_dht_set st'"
    and "ql_addrs st' = ql_addrs st" "ql_reader st' = ReaderBlocked \<longleftrightarrow> ql_reader st = ReaderBlocked"
  shows "ql_inv h s0 st'"
proof -
  have "history_ok h s0 st'" using assms(1,5-7) unfolding ql_inv_def history_ok_def by (metis append_Nil2)
  with assms show ?thesis by (simp add: ql_inv_def queue_ok_def addrs_ok_def)
qed

lemma worker_step_inv:
  assumes "ql_inv h s0 st" "worker_run h e st = Some r" "ql_history st' = ql_history st @ [worker_action st e]"
    and "requestQueue (ql_net st') = tl (requestQueue (ql_net st))" "publicAddrCh (ql_net st') = publicAddrCh (ql_net st)"
    and "ql_dht st' = apply_action h (worker_action st e) (ql_dht st)" "ql_dht_set st' = ql_dht_set st"
    and "ql_read st' = ql_read st" "ql_addrs st' = ql_addrs st" "ql_reader st' = ql_reader st"
  shows "ql_inv h s0 st'"
proof -
  obtain q rest where q: "requestQueue (ql_net st) = q # rest" "taken_of (worker_action st e) = [q]"
    using assms(2) by (rule worker_takes)
  have "queue_ok st'" by (rule queue_ok_taken [where act = "worker_action st e" and st = st]) (use assms q in \<open>simp_all add: ql_inv_def\<close>)
  moreover have "history_ok h s0 st'"
    by (rule history_ok_action [where act = "worker_action st e" and st = st])
      (use assms in \<open>simp_all add: ql_inv_def worker_action_def split: prod.split\<close>)
  ultimately show ?thesis using assms by (simp add: ql_inv_def addrs_ok_def)
qed

lemma ql_step_inv:
  assumes "ql_step is_stun xaddr mem h handle st st'" "ql_inv h s0 st"
  shows "ql_inv h s0 st'"
  using assms(1)
proof (cases rule: ql_step.cases)
  case (ql_packet packet addr network)
  note e = Listen_packet_effect [OF ql_packet(3)]
  have "queue_ok st'"
    by (rule queue_ok_read [where st = st and r = "packet_requests is_stun mem packet addr"])
      (use assms(2) e(1,2) in \<open>simp_all add: ql_packet(1) ql_inv_def\<close>)
  moreover have "addrs_ok st'"
  proof (cases "packet_addrs is_stun xaddr packet")
    case Nil
    with assms(2) e(4) ql_packet show ?thesis by (simp add: ql_inv_def addrs_ok_def)
  next
    case (Cons a as)
    with e(3) assms(2) have "ql_addrs st = []" by (cases "ql_addrs st") (auto simp: ql_inv_def addrs_ok_def)
    moreover have "as = []" using Cons by (auto simp: packet_addrs_def Let_def split: if_splits option.splits)
    ultimately show ?thesis using Cons e(3,4) ql_packet by (simp add: addrs_ok_def)
  qed
  ultimately show ?thesis using assms(2) by (simp add: ql_packet(1) ql_inv_def history_ok_def)
next
  case (ql_packet_blocks packet addr)
  note b = Listen_packet_blocks [OF ql_packet_blocks(3)]
  have "length (ql_addrs st) = 1"
    using assms(2) b ql_packet_blocks(2) by (cases "ql_addrs st") (auto simp: ql_inv_def addrs_ok_def le_Suc_eq)
  then have "addrs_ok st'" using assms(2) b by (simp add: ql_packet_blocks(1) ql_inv_def addrs_ok_def)
  with assms(2) show ?thesis by (simp add: ql_packet_blocks(1) ql_inv_def queue_ok_def history_ok_def)
next
  case (ql_request e network s replies)
  from ql_request(3) obtain q rest where "requestQueue (ql_net st) = q # rest" "requestQueue network = rest"
    "publicAddrCh network = publicAddrCh (ql_net st)" "s = apply_action h (worker_action st e) (ql_dht st)" by (rule worker_takes) blast
  then show ?thesis by (intro worker_step_inv [OF assms(2) ql_request(3)]) (simp_all add: ql_request(1))
next
  case (ql_request_blocks e)
  from ql_request_blocks(3) have "apply_action h (worker_action st e) (ql_dht st) = ql_dht st" by (rule worker_takes) simp
  then show ?thesis by (intro worker_step_inv [OF assms(2) ql_request_blocks(3)]) (simp_all add: ql_request_blocks(1))
next
  case (ql_own f)
  have "history_ok h s0 st'"
    by (rule history_ok_action [where act = "Own f" and st = st]) (use assms(2) in \<open>simp_all add: ql_own ql_inv_def\<close>)
  with assms(2) show ?thesis by (simp add: ql_own ql_inv_def queue_ok_def addrs_ok_def)
qed (rule ql_inv_frame [OF assms(2)], simp_all add: SetDHTHandler_def SetTaskHandler_def)+

lemma ql_init_inv: "ql_init s0 st \<Longrightarrow> ql_inv h s0 st"
proof -
  assume "ql_init s0 st"
  then obtain certificate :: "unit tls_Certificate outcome" and listen_err t where
    "Listen_start certificate listen_err NewQUICNetwork s0 t = Ok st" by (auto simp: ql_init_def)
  then have "ql_net st = NewQUICNetwork" "ql_read st = []" "ql_history st = []" "ql_addrs st = []" "ql_reader st = Reads" "ql_dht st = s0"
    by (cases certificate; cases listen_err; force simp: Listen_start_def)+
  then show ?thesis by (simp add: ql_inv_def queue_ok_def history_ok_def addrs_ok_def NewQUICNetwork_def)
qed

interpretation ql: invariant_system "ql_init s0" "ql_step is_stun xaddr mem h handle" "ql_inv h s0" for s0 is_stun xaddr mem h handle
  by unfold_locales (rule ql_init_inv ql_step_inv, assumption+)+

lemma blocked_reader_steps:
  "(ql_step is_stun xaddr mem h handle)\<^sup>*\<^sup>* st st' \<Longrightarrow> ql_reader st = ReaderBlocked \<Longrightarrow> ql_reader st' = ReaderBlocked \<and> ql_read st' = ql_read st"
proof (induction rule: rtranclp_induct)
  case (step u v)
  from step.hyps(2) step.IH [OF step.prems] show ?case
    by cases (auto simp: SetDHTHandler_def SetTaskHandler_def)
qed simp

subsection \<open>Properties\<close>


text \<open>
  C25. The second STUN message with an address ends the DHT of a node for ever: nobody receives from the channel of addresses of the QUIC network, so that the goroutine that reads is
  blocked exactly when it has read two of them, it never reads a third, and no DHT request is read afterwards, whatever happens.
\<close>

theorem stun_messages_end_dht:
  assumes "reach (ql_init s) (ql_step is_stun xaddr mem h handle) st"
  shows "length (ql_addrs st) \<le> 2 \<and> (ql_reader st = ReaderBlocked \<longleftrightarrow> length (ql_addrs st) = 2) \<and>
    (ql_reader st = ReaderBlocked \<longrightarrow>
      (\<forall>st'. (ql_step is_stun xaddr mem h handle)\<^sup>*\<^sup>* st st' \<longrightarrow> ql_reader st' = ReaderBlocked \<and> ql_read st' = ql_read st))"
  using ql.reach_inv [OF assms] blocked_reader_steps unfolding ql_inv_def addrs_ok_def by blast

text \<open>Samples: a store request after the handler is registered, and two STUN messages \<open>[0]\<close>.\<close>

definition sample_listener :: "'s \<Rightarrow> ('e, 's, unit) listener" where
  "sample_listener s = \<lparr>ql_net = NewQUICNetwork, ql_dht = s, ql_task = (), ql_dht_set = False, ql_task_set = False, ql_reader = Reads, ql_workers = workerPoolSize,
     ql_conns = 0, ql_main = Accepting, ql_read = [], ql_addrs = [], ql_history = []\<rparr>"

lemma sample_start: "ql_init s (sample_listener s)"
  unfolding ql_init_def
  by (intro exI [of _ "Ok \<lparr>tls_chain = [], PrivateKey = ()\<rparr>"] exI [of _ None] exI [of _ "()"]) (simp add: Listen_start_def sample_listener_def)

definition sample_store :: RpcMessage where
  "sample_store = \<lparr>MessageID = id_of_nat 9, msg_OpCode = StoreRequest, SelfNodeId = id_of_nat 3, Key = id_of_nat 7, ValueLength = 3, Value = str ''n:h'',
     ContactsLength = 0, Contacts = []\<rparr>"

definition sample_addr :: UDPAddr where
  "sample_addr = \<lparr>addr_IP = [10, 0, 0, 4], addr_Port = 4\<rparr>"


theorem stun_messages_end_dht_witness:
  "\<exists>st. reach (ql_init ()) (ql_step (\<lambda>d. d = [0]) (\<lambda>_. Some sample_addr) 100 (\<lambda>_. undefined) (\<lambda>_ t. (Ok [], t))) (st :: (unit, unit, unit) listener) \<and>
     ql_addrs st = [sample_addr, sample_addr] \<and> ql_reader st = ReaderBlocked"
proof -
  let ?step = "ql_step (\<lambda>d. d = [0]) (\<lambda>_. Some sample_addr) 100 (\<lambda>_. undefined) (\<lambda>_ t. (Ok [], t)) :: (unit, unit, unit) listener \<Rightarrow> _"
  let ?n = "NewQUICNetwork\<lparr>PublicAddr := Some sample_addr, publicAddrCh := [sample_addr]\<rparr>"
  let ?a = "sample_listener ()" and ?b = "(sample_listener ())\<lparr>ql_net := ?n, ql_addrs := [sample_addr]\<rparr>"
  let ?c = "?b\<lparr>ql_reader := ReaderBlocked, ql_addrs := [sample_addr, sample_addr]\<rparr>"
  have "?step ?a ?b"
    using ql_packet [of ?a "\<lambda>d. d = [0]" "\<lambda>_. Some sample_addr" 100 "[0]" sample_addr ?n]
    by (simp add: QUIC_Listen_packet_def packet_requests_def packet_addrs_def sample_listener_def NewQUICNetwork_def MaxUDPPacketSize_def)
  moreover have "?step ?b ?c"
    using ql_packet_blocks [of ?b "\<lambda>d. d = [0]" "\<lambda>_. Some sample_addr" 100 "[0]" sample_addr]
    by (simp add: QUIC_Listen_packet_def packet_requests_def packet_addrs_def sample_listener_def NewQUICNetwork_def MaxUDPPacketSize_def)
  ultimately have r: "reach (ql_init ()) ?step ?c" using reach_init [of "ql_init ()", OF sample_start] by (meson reach_step)
  from stun_messages_end_dht [OF r] r show ?thesis by (intro exI [of _ ?c]) simp
qed

text \<open>
  A failing \<open>Accept\<close> keeps the loop of \<open>Listen\<close> busy: as long as the context is alive it goes on without a pause, any number of times, and never returns the error.
\<close>

theorem accept_error_spins:
  assumes "ql_main st = Accepting"
  shows "(ql_step is_stun xaddr mem h handle ^^ n) st st"
  by (induction n) (use ql_accept_failed [OF assms] in auto)

text \<open>Why \<open>CreateCertificate\<close> failed is never reported.\<close>

theorem certificate_error_lost:
  assumes "CreateCertificate = (\<lambda>_ _ _ _. Err why)"
  shows "generateTLSCertificate (Ok (pub, priv)) CreateCertificate AddDate clock = Err ''failed to create certificate: <nil>''"
  using assms by (simp add: generateTLSCertificate_def)

text \<open>
  A STUN request on the UDP network whose answer arrives succeeds with the address of the answer, and leaves the channel empty, so that the listener can
  take the next answer.
\<close>

theorem stun_request_answered:
  assumes "publicAddrCh network = []" "is_stun data" "xaddr data = Some a" "length data \<le> MaxUDPPacketSize"
    and "UDP_Listen_packet is_stun xaddr mem network data addr = Ok (Handled network')"
  shows "SendSTUNRequest (Ok uri) (\<lambda>_. None) (\<lambda>_. (network', False)) network = (network'\<lparr>publicAddrCh := []\<rparr>, Ok ()) \<and> PublicAddr network' = Some a"
  using assms by (auto simp: SendSTUNRequest_def UDP_Listen_packet_def Let_def)

end
