(* ===== verification/Lookup.thy ===== *)
theory Lookup
  imports Dht_Node
begin

text \<open>
  The iterative lookups of a node (\<open>Lookup\<close>, \<open>ValueLookup\<close>, \<open>Join\<close>, \<open>Get\<close> and \<open>Put\<close> of \<open>src/kademlia/node.go\<close>).
  A lookup keeps at most three queries in flight; its goroutines and its results channel are modelled by
  \<open>outstanding\<close>, the contacts that were queried and whose result was not yet received. Between two
  receives the loop runs without waiting, so a step of the machine is the arrival of one result, or the end of
  the context, followed by the code up to the next \<open>select\<close>. Which results arrive, and in which
  order, is open: a query may answer with any contacts. In \<open>ValueLookup\<close> a failed query sends nothing; this is the
  step \<open>vl_failed\<close>. SHA-256 is a parameter of \<open>Get\<close> and \<open>Put\<close>, like the network they call.
\<close>

datatype lookup_status = Waiting | Finished

record lookup =
  shortlist :: ContactSorter
  queried :: "NodeId set"
  inFlightCounter :: nat
  outstanding :: "Contact list"
  lk_table :: RoutingTable
  lk_status :: lookup_status
  lk_value :: bytes

fun findNextUnqueriedContact :: "Contact list \<Rightarrow> NodeId set \<Rightarrow> (Contact \<times> NodeId set) option" where
  "findNextUnqueriedContact [] queryMap = None"
| "findNextUnqueriedContact (contact # contactList) queryMap =
     (if ID contact \<in> queryMap then findNextUnqueriedContact contactList queryMap
      else Some (contact, insert (ID contact) queryMap))"

text \<open>\<open>inFlightCounter++; go query(resultsChan, *nodeToQuery)\<close>.\<close>

definition start_query :: "Contact \<Rightarrow> NodeId set \<Rightarrow> lookup \<Rightarrow> lookup" where
  "start_query c q st =
     st\<lparr>queried := q, inFlightCounter := inFlightCounter st + 1, outstanding := outstanding st @ [c]\<rparr>"

definition next_contact :: "lookup \<Rightarrow> (Contact \<times> NodeId set) option" where
  "next_contact st = findNextUnqueriedContact (active (shortlist st)) (queried st)"

text \<open>The inner loops at the head of the two lookups: \<open>Lookup\<close> breaks out of the inner loop only.\<close>

function Lookup_fill :: "lookup \<Rightarrow> lookup" where
  "Lookup_fill st =
     (if inFlightCounter st < maxConcurrentRequests then
        (case next_contact st of
           None \<Rightarrow> st
         | Some (nodeToQuery, q) \<Rightarrow> Lookup_fill (start_query nodeToQuery q st))
      else st)"
  by pat_completeness auto
termination
  by (relation "measure (\<lambda>st. maxConcurrentRequests - inFlightCounter st)") (auto simp: start_query_def)

function ValueLookup_fill :: "lookup \<Rightarrow> lookup" where
  "ValueLookup_fill st =
     (if inFlightCounter st < maxConcurrentRequests then
        (case next_contact st of
           None \<Rightarrow> st\<lparr>lk_status := Finished\<rparr>
         | Some (nodeToQuery, q) \<Rightarrow> ValueLookup_fill (start_query nodeToQuery q st))
      else st)"
  by pat_completeness auto
termination
  by (relation "measure (\<lambda>st. maxConcurrentRequests - inFlightCounter st)") (auto simp: start_query_def)

declare Lookup_fill.simps [simp del] ValueLookup_fill.simps [simp del]

definition new_lookup :: "RoutingTable \<Rightarrow> NodeId \<Rightarrow> lookup" where
  "new_lookup rt targetID =
     \<lparr>shortlist = Add (NewContactSorter targetID) (FindClosest rt targetID maxConcurrentRequests),
      queried = {}, inFlightCounter = 0, outstanding = [], lk_table = rt, lk_status = Waiting, lk_value = []\<rparr>"

text \<open>From the start to the first \<open>select\<close>; \<open>None\<close> when the table gave no contact.\<close>

definition Lookup_start :: "RoutingTable \<Rightarrow> NodeId \<Rightarrow> lookup option" where
  "Lookup_start rt targetID =
     (let st = new_lookup rt targetID in
      if Length (shortlist st) = 0 then None else Some (Lookup_fill st))"

definition ValueLookup_start :: "RoutingTable \<Rightarrow> NodeId \<Rightarrow> lookup option" where
  "ValueLookup_start rt key =
     (let st = new_lookup rt key in
      if Length (shortlist st) = 0 then None else Some (ValueLookup_fill st))"

text \<open>The result of the query of \<open>c\<close> is received; the new contacts enter the shortlist and the routing table.\<close>

definition take_result :: "Contact \<Rightarrow> lookup \<Rightarrow> lookup" where
  "take_result c st =
     st\<lparr>inFlightCounter := inFlightCounter st - 1, outstanding := remove1 c (outstanding st)\<rparr>"

definition learn :: "(Contact \<Rightarrow> bool) \<Rightarrow> Contact list \<Rightarrow> lookup \<Rightarrow> lookup" where
  "learn ping cs st =
     st\<lparr>shortlist := Add (shortlist st) cs, lk_table := foldl (Update ping) (lk_table st) cs\<rparr>"

definition Lookup_receive :: "(Contact \<Rightarrow> bool) \<Rightarrow> Contact \<Rightarrow> Contact list \<Rightarrow> lookup \<Rightarrow> lookup" where
  "Lookup_receive ping c result st =
     (let st = take_result c st in
      if length result = 0 then
        if inFlightCounter st > 0 then Lookup_fill st else st\<lparr>lk_status := Finished\<rparr>
      else
        let st = learn ping result st in
        case next_contact st of
          None \<Rightarrow> st\<lparr>lk_status := Finished\<rparr>
        | Some (nodeToQuery, q) \<Rightarrow> Lookup_fill (start_query nodeToQuery q st))"

definition ValueLookup_receive ::
  "(Contact \<Rightarrow> bool) \<Rightarrow> Contact \<Rightarrow> bytes \<Rightarrow> Contact list \<Rightarrow> lookup \<Rightarrow> lookup" where
  "ValueLookup_receive ping c val result st =
     (let st = take_result c st in
      if length val \<noteq> 0 then st\<lparr>lk_status := Finished, lk_value := val\<rparr>
      else if length result = 0 then
        if inFlightCounter st > 0 then ValueLookup_fill st else st\<lparr>lk_status := Finished\<rparr>
      else
        let st = learn ping result st in
        case next_contact st of
          None \<Rightarrow> st\<lparr>lk_status := Finished\<rparr>
        | Some (nodeToQuery, q) \<Rightarrow> ValueLookup_fill (start_query nodeToQuery q st))"

inductive lk_step :: "lookup \<Rightarrow> lookup \<Rightarrow> bool" where
  lk_result:
    "lk_status st = Waiting \<Longrightarrow> c \<in> set (outstanding st) \<Longrightarrow> lk_step st (Lookup_receive ping c result st)"
| lk_done:
    "lk_status st = Waiting \<Longrightarrow> lk_step st (st\<lparr>lk_status := Finished\<rparr>)"

inductive vl_step :: "lookup \<Rightarrow> lookup \<Rightarrow> bool" where
  vl_result:
    "lk_status st = Waiting \<Longrightarrow> c \<in> set (outstanding st) \<Longrightarrow>
     vl_step st (ValueLookup_receive ping c val result st)"
| vl_failed:
    "c \<in> set (outstanding st) \<Longrightarrow> vl_step st (st\<lparr>outstanding := remove1 c (outstanding st)\<rparr>)"
| vl_done:
    "lk_status st = Waiting \<Longrightarrow> vl_step st (st\<lparr>lk_status := Finished\<rparr>)"

inductive_cases lk_stepE: "lk_step st st'"
inductive_cases vl_stepE: "vl_step st st'"

subsection \<open>The operations on top\<close>

text \<open>
  \<open>lookup\<close> and \<open>valueLookup\<close> stand for a run of the machines above: the contacts and the value it returned, and
  the routing table it left.
\<close>

definition Join :: "string option \<Rightarrow> (Contact \<Rightarrow> bool) \<Rightarrow> (RoutingTable \<Rightarrow> NodeId \<Rightarrow> RoutingTable) \<Rightarrow>
    Node \<Rightarrow> Contact \<Rightarrow> Node \<times> unit outcome" where
  "Join ctx_Err ping lookup node bootstrapNode =
     (case ctx_Err of
        Some e \<Rightarrow> (node, Err e)
      | None \<Rightarrow>
          let node = node\<lparr>node_RoutingTable := Update ping (node_RoutingTable node) bootstrapNode\<rparr>;
              node = node\<lparr>node_RoutingTable := lookup (node_RoutingTable node) (ID (Self node))\<rparr>;
              node = SetState node StateActive
          in (node, Ok ()))"

definition dht_Get :: "(bytes \<Rightarrow> NodeId) \<Rightarrow> (NodeId \<Rightarrow> (Contact list \<times> bytes) outcome) \<Rightarrow> bytes \<Rightarrow> bytes outcome" where
  "dht_Get sha256 valueLookup key =
     (case valueLookup (sha256 key) of
        Ok (_, value) \<Rightarrow> Ok value
      | Err _ \<Rightarrow> Err ''error finding value for key''
      | Panic \<Rightarrow> Panic)"

definition dht_Put :: "(bytes \<Rightarrow> NodeId) \<Rightarrow> (NodeId \<Rightarrow> Contact list) \<Rightarrow> Node \<Rightarrow> bytes \<Rightarrow> bytes \<Rightarrow>
    unit outcome \<times> (Contact \<times> NodeId \<times> bytes) list" where
  "dht_Put sha256 lookup node key value =
     (let hashedKey = sha256 key;
          payload = put_payload (ID (Self node)) value;
          closestContacts = lookup hashedKey
      in if length closestContacts = 0
         then (Err ''error finding closest nodes for put: length is equal to 0'', [])
         else (Ok (), map (\<lambda>contact. (contact, hashedKey, payload)) closestContacts))"

subsection \<open>Choosing the next contact\<close>

lemma findNext_None_iff: "findNextUnqueriedContact cs q = None \<longleftrightarrow> ID ` set cs \<subseteq> q"
  by (induction cs) auto

lemma findNext_SomeD:
  "findNextUnqueriedContact cs q = Some (c, q') \<Longrightarrow> c \<in> set cs \<and> ID c \<notin> q \<and> q' = insert (ID c) q"
  by (induction cs) (auto split: if_splits)

lemma next_contact_None_iff: "next_contact st = None \<longleftrightarrow> ID ` set (active (shortlist st)) \<subseteq> queried st"
  by (simp add: next_contact_def findNext_None_iff)

lemma next_contact_SomeD:
  "next_contact st = Some (c, q) \<Longrightarrow> c \<in> set (active (shortlist st)) \<and> ID c \<notin> queried st \<and> q = insert (ID c) (queried st)"
  unfolding next_contact_def by (rule findNext_SomeD)

subsection \<open>The invariant of a lookup\<close>

text \<open>
  \<open>lk_credit\<close> bounds the queries a lookup can still make: 32 places, each worth the distance of its contact,
  one more while the contact was not queried, and 256 while the place is free.
\<close>

definition lk_credit :: "lookup \<Rightarrow> int" where
  "lk_credit st = credit (dist_to (TargetID (shortlist st))) (\<lambda>c. if ID c \<in> queried st then 0 else 1)
     k_size 256 (active (shortlist st))"

definition lk_base :: "lookup \<Rightarrow> bool" where
  "lk_base st \<longleftrightarrow> wf_sorter (shortlist st) \<and> wf_rt (lk_table st) \<and>
     length (outstanding st) \<le> inFlightCounter st \<and> inFlightCounter st \<le> maxConcurrentRequests \<and>
     distinct (map ID (outstanding st)) \<and> ID ` set (outstanding st) \<subseteq> queried st \<and> finite (queried st) \<and>
     lk_credit st + int (card (queried st)) \<le> 8192"

lemma dist_to_bounds: "0 \<le> dist_to t c" "dist_to t c \<le> 255"
proof -
  have "XorDistance (ID c) t < 256" by simp
  then show "dist_to t c \<le> 255" unfolding dist_to_def by linarith
qed (simp add: dist_to_def)

lemma lk_credit_nonneg: "wf_sorter (shortlist st) \<Longrightarrow> 0 \<le> lk_credit st"
  unfolding lk_credit_def
  by (intro credit_nonneg) (auto simp: dist_to_bounds wf_sorter_def active_def)

lemma lk_base_card: "lk_base st \<Longrightarrow> card (queried st) \<le> 8192"
  using lk_credit_nonneg [of st] by (simp add: lk_base_def)

lemma base_start_query:
  assumes "lk_base st" "inFlightCounter st < maxConcurrentRequests" "next_contact st = Some (c, q)"
  shows "lk_base (start_query c q st)"
proof -
  have c: "c \<in> set (active (shortlist st))" "ID c \<notin> queried st" "q = insert (ID c) (queried st)"
    using next_contact_SomeD [OF assms(3)] by auto
  have "lk_credit (start_query c q st) + 1 \<le> lk_credit st"
    unfolding lk_credit_def using c
    by (simp add: start_query_def) (rule credit_less_by_one [of _ _ _ c], auto)
  moreover have "ID c \<notin> ID ` set (outstanding st)" using assms(1) c(2) by (auto simp: lk_base_def)
  ultimately show ?thesis
    using assms(1,2) c(2,3) by (auto simp: lk_base_def start_query_def)
qed

lemma base_take_result:
  "lk_base st \<Longrightarrow> c \<in> set (outstanding st) \<Longrightarrow> lk_base (take_result c st)"
  using set_remove1_subset [of c "outstanding st"]
  by (auto simp: lk_base_def take_result_def lk_credit_def length_remove1 distinct_map intro: distinct_remove1
      elim: inj_on_subset)

lemma credit_Add:
  "wf_sorter cs \<Longrightarrow> (\<And>y. 0 \<le> u y \<and> u y \<le> 1) \<Longrightarrow>
   credit (dist_to (TargetID cs)) u k_size 256 (active (Add cs xs)) \<le> credit (dist_to (TargetID cs)) u k_size 256 (active cs)"
proof (induction xs arbitrary: cs)
  case (Cons x xs)
  have "credit (dist_to (TargetID cs)) u k_size 256 (active (add_one cs x)) \<le> credit (dist_to (TargetID cs)) u k_size 256 (active cs)"
    unfolding add_one_active [OF Cons.prems(1)] using Cons.prems dist_to_bounds(2) [of "TargetID cs" x]
    by (intro credit_add_spec) (auto simp: wf_sorter_def active_def add_mono [of _ 255 _ 1, simplified])
  with Cons.IH [OF add_one_wf [OF Cons.prems(1)] Cons.prems(2), of x] show ?case by simp
qed simp

lemma Updates_wf: "wf_rt rt \<Longrightarrow> wf_rt (foldl (Update ping) rt cs)"
  by (induction cs arbitrary: rt) (auto simp: Update_wf)

lemma base_learn: "lk_base st \<Longrightarrow> lk_base (learn ping cs st)"
proof -
  assume b: "lk_base st"
  then have wf: "wf_sorter (shortlist st)" by (simp add: lk_base_def)
  have "lk_credit (learn ping cs st) \<le> lk_credit st"
    unfolding lk_credit_def learn_def using Add_wf [OF wf] credit_Add [OF wf] by simp
  with b Add_wf [OF wf] Updates_wf show ?thesis by (simp add: lk_base_def learn_def)
qed

lemma base_status: "lk_base (st\<lparr>lk_status := s\<rparr>) = lk_base st" "lk_base (st\<lparr>lk_value := v\<rparr>) = lk_base st"
  by (simp_all add: lk_base_def lk_credit_def)

subsection \<open>The budget\<close>

definition budget :: "lookup \<Rightarrow> nat" where
  "budget st = 8192 - card (queried st) + inFlightCounter st"

lemma budget_start_query:
  assumes "lk_base st" "inFlightCounter st < maxConcurrentRequests" "next_contact st = Some (c, q)"
  shows "budget (start_query c q st) = budget st"
proof -
  have "card (queried (start_query c q st)) \<le> 8192" using base_start_query [OF assms] by (rule lk_base_card)
  moreover have "card (queried (start_query c q st)) = Suc (card (queried st))"
    using next_contact_SomeD [OF assms(3)] assms(1) by (simp add: start_query_def lk_base_def)
  ultimately show ?thesis by (simp add: budget_def start_query_def)
qed

lemma budget_take_result: "lk_base st \<Longrightarrow> c \<in> set (outstanding st) \<Longrightarrow> Suc (budget (take_result c st)) = budget st"
  by (cases "outstanding st") (auto simp: budget_def take_result_def lk_base_def)

lemma budget_simps [simp]: "budget (learn ping cs st) = budget st" "budget (st\<lparr>lk_status := s\<rparr>) = budget st"
  "budget (st\<lparr>lk_value := v\<rparr>) = budget st"
  by (simp_all add: budget_def learn_def)

lemma start_query_simps [simp]:
  "shortlist (start_query c q st) = shortlist st" "lk_status (start_query c q st) = lk_status st"
  "lk_table (start_query c q st) = lk_table st"
  "inFlightCounter (start_query c q st) = Suc (inFlightCounter st)"
  "outstanding (start_query c q st) = outstanding st @ [c]"
  by (simp_all add: start_query_def)

text \<open>The loop that fills the slots keeps the invariant and the budget.\<close>

lemma Lookup_fill_facts:
  assumes "lk_base st"
  shows "lk_base (Lookup_fill st) \<and> budget (Lookup_fill st) = budget st \<and>
    lk_status (Lookup_fill st) = lk_status st \<and>
    inFlightCounter (Lookup_fill st) - length (outstanding (Lookup_fill st)) = inFlightCounter st - length (outstanding st) \<and>
    (0 < inFlightCounter st \<or> next_contact st \<noteq> None \<longrightarrow> 0 < inFlightCounter (Lookup_fill st)) \<and>
    (inFlightCounter (Lookup_fill st) = maxConcurrentRequests \<or> next_contact (Lookup_fill st) = None)"
  using assms
proof (induction st rule: Lookup_fill.induct)
  case (1 st)
  show ?case
  proof (cases "inFlightCounter st < maxConcurrentRequests")
    case True
    show ?thesis
    proof (cases "next_contact st")
      case None
      with True "1.prems" show ?thesis by (simp add: Lookup_fill.simps [of st])
    next
      case (Some p)
      then obtain c q where p: "next_contact st = Some (c, q)" by (cases p) auto
      have fill: "Lookup_fill st = Lookup_fill (start_query c q st)"
        using True p by (simp add: Lookup_fill.simps [of st])
      have "length (outstanding st) \<le> inFlightCounter st" using "1.prems" by (simp add: lk_base_def)
      with "1.IH" [OF True p refl base_start_query [OF "1.prems" True p]] budget_start_query [OF "1.prems" True p]
      show ?thesis unfolding fill by (simp add: Suc_diff_le)
    qed
  next
    case False
    with "1.prems" show ?thesis by (auto simp: Lookup_fill.simps [of st] lk_base_def maxConcurrentRequests_def)
  qed
qed

lemma ValueLookup_fill_facts:
  assumes "lk_base st"
  shows "lk_base (ValueLookup_fill st) \<and> budget (ValueLookup_fill st) = budget st \<and>
    lk_value (ValueLookup_fill st) = lk_value st \<and>
    (lk_status (ValueLookup_fill st) = Finished \<or>
     lk_status (ValueLookup_fill st) = lk_status st \<and> inFlightCounter (ValueLookup_fill st) = maxConcurrentRequests)"
  using assms
proof (induction st rule: ValueLookup_fill.induct)
  case (1 st)
  show ?case
  proof (cases "inFlightCounter st < maxConcurrentRequests")
    case True
    show ?thesis
    proof (cases "next_contact st")
      case None
      with True "1.prems" show ?thesis by (simp add: ValueLookup_fill.simps [of st] base_status)
    next
      case (Some p)
      then obtain c q where p: "next_contact st = Some (c, q)" by (cases p) auto
      have fill: "ValueLookup_fill st = ValueLookup_fill (start_query c q st)"
        using True p by (simp add: ValueLookup_fill.simps [of st])
      show ?thesis
        using "1.IH" [OF True p refl base_start_query [OF "1.prems" True p]] budget_start_query [OF "1.prems" True p]
        unfolding fill by (simp add: start_query_def)
    qed
  next
    case False
    with "1.prems" show ?thesis by (auto simp: ValueLookup_fill.simps [of st] lk_base_def maxConcurrentRequests_def)
  qed
qed

lemma new_lookup_base: "wf_rt rt \<Longrightarrow> lk_base (new_lookup rt t) \<and> budget (new_lookup rt t) = 8192"
proof -
  assume rt: "wf_rt rt"
  let ?u = "\<lambda>c. if ID c \<in> {} then 0 else 1 :: int"
  have "credit (dist_to t) ?u k_size 256 (active (Add (NewContactSorter t) cs)) \<le> 8192" for cs
    using credit_Add [OF wf_New [of t], of ?u cs] by (simp add: credit_def k_size_def)
  with rt show ?thesis
    by (simp add: lk_base_def new_lookup_def Add_wf lk_credit_def budget_def)
qed

subsection \<open>Lookup\<close>

definition lk_inv :: "lookup \<Rightarrow> bool" where
  "lk_inv st \<longleftrightarrow> lk_base st \<and> inFlightCounter st = length (outstanding st) \<and>
     (lk_status st = Waiting \<longrightarrow> outstanding st \<noteq> [])"

definition lk_init :: "lookup \<Rightarrow> bool" where
  "lk_init st \<longleftrightarrow> (\<exists>rt t. wf_rt rt \<and> Lookup_start rt t = Some st)"

lemma fill_inv:
  assumes "lk_base st" "inFlightCounter st = length (outstanding st)" "outstanding st \<noteq> [] \<or> next_contact st \<noteq> None"
  shows "lk_inv (Lookup_fill st) \<and> budget (Lookup_fill st) = budget st"
proof -
  note f = Lookup_fill_facts [OF assms(1)]
  have "length (outstanding (Lookup_fill st)) \<le> inFlightCounter (Lookup_fill st)" using f by (simp add: lk_base_def)
  moreover have "0 < inFlightCounter (Lookup_fill st)" using f assms(2,3) by auto
  ultimately show ?thesis using f assms(2) by (auto simp: lk_inv_def)
qed

lemma Lookup_receive_inv:
  assumes "lk_inv st" "c \<in> set (outstanding st)"
  shows "lk_inv (Lookup_receive ping c r st) \<and> Suc (budget (Lookup_receive ping c r st)) = budget st"
proof -
  let ?st = "take_result c st"
  have b: "lk_base ?st" "Suc (budget ?st) = budget st"
    using assms base_take_result budget_take_result by (auto simp: lk_inv_def)
  have n: "inFlightCounter ?st = length (outstanding ?st)"
    using assms by (simp add: lk_inv_def take_result_def length_remove1)
  show ?thesis
  proof (cases "r = []")
    case True
    show ?thesis
    proof (cases "inFlightCounter ?st > 0")
      case pos: True
      then have "outstanding ?st \<noteq> []" using n by auto
      with fill_inv [OF b(1) n] b(2) True pos show ?thesis by (simp add: Lookup_receive_def Let_def)
    next
      case False
      with True b n show ?thesis by (simp add: Lookup_receive_def Let_def lk_inv_def base_status)
    qed
  next
    case False
    let ?l = "learn ping r ?st"
    have l: "lk_base ?l" "inFlightCounter ?l = length (outstanding ?l)"
      using base_learn [OF b(1)] n by (simp_all add: learn_def)
    have lt: "inFlightCounter ?l < maxConcurrentRequests"
      using assms by (cases "outstanding st") (auto simp: learn_def take_result_def lk_inv_def lk_base_def)
    show ?thesis
    proof (cases "next_contact ?l")
      case None
      with False b l show ?thesis by (simp add: Lookup_receive_def Let_def lk_inv_def base_status)
    next
      case (Some p)
      then obtain c' q where p: "next_contact ?l = Some (c', q)" by (cases p) auto
      have "lk_inv (Lookup_fill (start_query c' q ?l)) \<and>
          budget (Lookup_fill (start_query c' q ?l)) = budget (start_query c' q ?l)"
        using fill_inv [OF base_start_query [OF l(1) lt p]] l(2) by simp
      with False p b(2) budget_start_query [OF l(1) lt p] show ?thesis
        by (simp add: Lookup_receive_def Let_def)
    qed
  qed
qed

lemma lk_step_inv: "lk_inv st \<Longrightarrow> lk_step st st' \<Longrightarrow> lk_inv st'"
  using Lookup_receive_inv by (auto elim!: lk_stepE simp: lk_inv_def base_status)

lemma Lookup_start_inv: "wf_rt rt \<Longrightarrow> Lookup_start rt t = Some st \<Longrightarrow> lk_inv st \<and> budget st = 8192"
proof -
  assume rt: "wf_rt rt" and st: "Lookup_start rt t = Some st"
  let ?n = "new_lookup rt t"
  have b: "lk_base ?n" "budget ?n = 8192" using new_lookup_base [OF rt] by auto
  have len: "Length (shortlist ?n) \<noteq> 0" and s: "st = Lookup_fill ?n"
    using st by (auto simp: Lookup_start_def Let_def split: if_splits)
  have "length (active (shortlist ?n)) = Length (shortlist ?n)" using b(1) by (simp add: lk_base_def)
  then have "active (shortlist ?n) \<noteq> []" using len by auto
  then have "next_contact ?n \<noteq> None" by (simp add: next_contact_None_iff) (simp add: new_lookup_def)
  with fill_inv [OF b(1)] b(2) show ?thesis by (simp add: s new_lookup_def)
qed

definition lk_measure :: "lookup \<Rightarrow> nat" where
  "lk_measure st = (case lk_status st of Waiting \<Rightarrow> Suc (budget st) | Finished \<Rightarrow> 0)"

lemma lk_step_measure: "lk_inv st \<Longrightarrow> lk_step st st' \<Longrightarrow> lk_measure st' < lk_measure st"
proof (erule lk_stepE)
  fix c ping r
  assume "lk_inv st" "st' = Lookup_receive ping c r st" "lk_status st = Waiting" "c \<in> set (outstanding st)"
  with Lookup_receive_inv [of st c ping r] show ?thesis by (auto simp: lk_measure_def split: lookup_status.split)
qed (simp add: lk_measure_def)

interpretation lk: ranked_system lk_init lk_step lk_inv lk_measure
  using Lookup_start_inv lk_step_inv lk_step_measure by unfold_locales (auto simp: lk_init_def)

subsection \<open>ValueLookup\<close>

definition vl_inv :: "lookup \<Rightarrow> bool" where
  "vl_inv st \<longleftrightarrow> lk_base st \<and> (lk_status st = Waiting \<longrightarrow> inFlightCounter st = maxConcurrentRequests)"

definition vl_init :: "lookup \<Rightarrow> bool" where
  "vl_init st \<longleftrightarrow> (\<exists>rt t. wf_rt rt \<and> ValueLookup_start rt t = Some st)"

lemma vfill_inv:
  "lk_base st \<Longrightarrow> vl_inv (ValueLookup_fill st) \<and> budget (ValueLookup_fill st) = budget st"
  using ValueLookup_fill_facts [of st] by (auto simp: vl_inv_def)

lemma ValueLookup_receive_inv:
  assumes "lk_base st" "c \<in> set (outstanding st)"
  shows "vl_inv (ValueLookup_receive ping c v r st) \<and> Suc (budget (ValueLookup_receive ping c v r st)) = budget st"
proof -
  let ?st = "take_result c st" and ?l = "learn ping r (take_result c st)"
  have b: "lk_base ?st" "Suc (budget ?st) = budget st"
    using assms base_take_result budget_take_result by auto
  have l: "lk_base ?l" using base_learn [OF b(1)] .
  have lt: "inFlightCounter ?l < maxConcurrentRequests"
    using assms by (cases "outstanding st") (auto simp: learn_def take_result_def lk_base_def)
  consider (val) "v \<noteq> []" | (none) "v = []" "r = []" | (last) "v = []" "r \<noteq> []" "next_contact ?l = None"
    | (more) c' q where "v = []" "r \<noteq> []" "next_contact ?l = Some (c', q)" by fastforce
  then show ?thesis
  proof cases
    case (more c' q)
    with vfill_inv [OF base_start_query [OF l lt more(3)]] budget_start_query [OF l lt more(3)] b(2)
    show ?thesis by (simp add: ValueLookup_receive_def Let_def)
  qed (use b l vfill_inv [OF b(1)] in \<open>auto simp: ValueLookup_receive_def Let_def vl_inv_def base_status\<close>)
qed

lemma base_failed: "lk_base st \<Longrightarrow> lk_base (st\<lparr>outstanding := remove1 c (outstanding st)\<rparr>)"
  using set_remove1_subset [of c "outstanding st"]
  by (auto simp: lk_base_def lk_credit_def length_remove1 distinct_map intro: distinct_remove1 elim: inj_on_subset)

lemma vl_step_inv: "vl_inv st \<Longrightarrow> vl_step st st' \<Longrightarrow> vl_inv st'"
proof (erule vl_stepE)
  fix c assume "vl_inv st" "st' = st\<lparr>outstanding := remove1 c (outstanding st)\<rparr>"
  then show ?thesis using base_failed by (simp add: vl_inv_def)
qed (use ValueLookup_receive_inv in \<open>auto simp: vl_inv_def base_status\<close>)

definition vl_measure :: "lookup \<Rightarrow> nat" where
  "vl_measure st = (case lk_status st of Waiting \<Rightarrow> 4 * Suc (budget st) | Finished \<Rightarrow> 0) + length (outstanding st)"

lemma base_outstanding: "lk_base st \<Longrightarrow> length (outstanding st) \<le> 3"
  by (simp add: lk_base_def maxConcurrentRequests_def)

lemma vl_step_measure: "vl_inv st \<Longrightarrow> vl_step st st' \<Longrightarrow> vl_measure st' < vl_measure st"
proof (erule vl_stepE)
  fix c ping v r
  assume a: "vl_inv st" "st' = ValueLookup_receive ping c v r st" "lk_status st = Waiting" "c \<in> set (outstanding st)"
  then have r: "vl_inv st'" "Suc (budget st') = budget st"
    using ValueLookup_receive_inv [of st c ping v r] by (auto simp: vl_inv_def)
  then have "length (outstanding st') \<le> 3" using base_outstanding by (simp add: vl_inv_def)
  with r(2) a(3) show ?thesis by (simp add: vl_measure_def split: lookup_status.split)
next
  fix c assume "st' = st\<lparr>outstanding := remove1 c (outstanding st)\<rparr>" "c \<in> set (outstanding st)"
  then show ?thesis
    using length_pos_if_in_set [of c "outstanding st"]
    by (auto simp: vl_measure_def budget_def length_remove1 split: lookup_status.split)
qed (simp add: vl_measure_def)

lemma ValueLookup_start_inv: "wf_rt rt \<Longrightarrow> ValueLookup_start rt t = Some st \<Longrightarrow> vl_inv st \<and> budget st = 8192"
  using new_lookup_base [of rt t] vfill_inv [of "new_lookup rt t"]
  by (auto simp: ValueLookup_start_def Let_def split: if_splits)

interpretation vl: ranked_system vl_init vl_step vl_inv vl_measure
  using ValueLookup_start_inv vl_step_inv vl_step_measure by unfold_locales (auto simp: vl_init_def)

subsection \<open>How far the first queries of ValueLookup go\<close>

definition unqueried :: "lookup \<Rightarrow> nat" where
  "unqueried st = card (ID ` set (active (shortlist st)) - queried st)"

lemma unqueried_None: "next_contact st = None \<longleftrightarrow> unqueried st = 0"
  by (auto simp: next_contact_None_iff unqueried_def)

lemma unqueried_start_query: "next_contact st = Some (c, q) \<Longrightarrow> Suc (unqueried (start_query c q st)) = unqueried st"
proof -
  assume "next_contact st = Some (c, q)"
  then have c: "ID c \<in> ID ` set (active (shortlist st)) - queried st" "q = insert (ID c) (queried st)"
    using next_contact_SomeD by auto
  have "queried (start_query c q st) = insert (ID c) (queried st)" by (simp add: start_query_def c)
  then have "ID ` set (active (shortlist st)) - queried (start_query c q st) =
      (ID ` set (active (shortlist st)) - queried st) - {ID c}" by blast
  then show ?thesis using card_Suc_Diff1 [OF _ c(1)] by (simp add: unqueried_def)
qed

lemma ValueLookup_fill_extent:
  assumes "inFlightCounter st \<le> maxConcurrentRequests" "lk_status st = Waiting"
  shows "length (outstanding (ValueLookup_fill st)) =
      length (outstanding st) + min (unqueried st) (maxConcurrentRequests - inFlightCounter st) \<and>
    lk_status (ValueLookup_fill st) =
      (if unqueried st < maxConcurrentRequests - inFlightCounter st then Finished else Waiting)"
  using assms
proof (induction st rule: ValueLookup_fill.induct)
  case (1 st)
  show ?case
  proof (cases "inFlightCounter st < maxConcurrentRequests")
    case True
    show ?thesis
    proof (cases "next_contact st")
      case None
      with True show ?thesis using unqueried_None [of st] by (simp add: ValueLookup_fill.simps [of st])
    next
      case (Some p)
      then obtain c q where p: "next_contact st = Some (c, q)" by (cases p) auto
      have "ValueLookup_fill st = ValueLookup_fill (start_query c q st)"
        using True p by (simp add: ValueLookup_fill.simps [of st])
      with "1.IH" [OF True p refl] True "1.prems" unqueried_start_query [OF p] show ?thesis by auto
    qed
  next
    case False
    with "1.prems" show ?thesis by (simp add: ValueLookup_fill.simps [of st])
  qed
qed

lemma unqueried_new:
  assumes "wf_rt rt"
  shows "unqueried (new_lookup rt t) = min 3 (length (contacts rt))"
    and "Length (shortlist (new_lookup rt t)) = min 3 (length (contacts rt))"
proof -
  let ?fc = "FindClosest rt t maxConcurrentRequests" and ?cs = "shortlist (new_lookup rt t)"
  have fc: "?fc = take 3 (sort_key (dist_to t) (contacts rt))"
    using assms by (simp add: FindClosest_wf maxConcurrentRequests_def k_size_def)
  have "distinct (map ID (sort_key (dist_to t) (contacts rt)))"
    using wf_rt_distinct [OF assms] by (metis mset_eq_imp_distinct_iff mset_map mset_sort)
  then have d: "distinct (map ID ?fc)" unfolding fc by (rule distinct_map_take)
  have wf: "wf_sorter ?cs" by (simp add: new_lookup_def Add_wf)
  have "active ?cs = take k_size (sort_key (dist_to t) (first_by ID ?fc))"
    by (simp add: new_lookup_def Add_active sorter.fold_add_spec)
  then have len: "length (active ?cs) = min 3 (length (contacts rt))"
    by (simp add: first_by_distinct d) (simp add: fc k_size_def)
  with wf show "Length ?cs = min 3 (length (contacts rt))" by simp
  have "distinct (map ID (active ?cs))" using wf by (simp add: wf_sorter_def)
  then have "card (ID ` set (active ?cs)) = length (active ?cs)"
    by (metis distinct_card length_map list.set_map)
  with len show "unqueried (new_lookup rt t) = min 3 (length (contacts rt))"
    by (simp add: unqueried_def) (simp add: new_lookup_def)
qed

lemma ValueLookup_start_extent:
  assumes "wf_rt rt" "contacts rt \<noteq> []"
  shows "\<exists>st. ValueLookup_start rt key = Some st \<and> lk_value st = [] \<and>
    length (outstanding st) = min 3 (length (contacts rt)) \<and>
    lk_status st = (if length (contacts rt) < 3 then Finished else Waiting)"
proof -
  let ?n = "new_lookup rt key"
  have "lk_value (ValueLookup_fill ?n) = []"
    using ValueLookup_fill_facts [of ?n] new_lookup_base [OF assms(1), of key] by (simp add: new_lookup_def)
  moreover have "Length (shortlist ?n) \<noteq> 0" using assms by (simp add: unqueried_new)
  ultimately show ?thesis
    using ValueLookup_fill_extent [of ?n] unqueried_new(1) [OF assms(1), of key]
    by (simp add: ValueLookup_start_def Let_def) (simp add: new_lookup_def maxConcurrentRequests_def)
qed

subsection \<open>Properties\<close>

text \<open>
  C28. In every reachable state of a lookup, whatever the peers answer and in whatever order: at most three queries
  are outstanding and the counter says how many; no two go to the same identifier, and all queried
  identifiers are recorded; the shortlist and the routing table are well formed; and while the
  lookup waits, a query is outstanding, so that it never waits for nothing.
\<close>

theorem lookup_invariant:
  assumes "reach lk_init lk_step st"
  shows "inFlightCounter st = length (outstanding st) \<and> length (outstanding st) \<le> maxConcurrentRequests \<and>
    distinct (map ID (outstanding st)) \<and> ID ` set (outstanding st) \<subseteq> queried st \<and>
    wf_sorter (shortlist st) \<and> wf_rt (lk_table st) \<and> (lk_status st = Waiting \<longrightarrow> outstanding st \<noteq> [])"
  using lk.reach_inv [OF assms] by (auto simp: lk_inv_def lk_base_def)

lemma one_contact_table:
  "wf_rt (Update (\<lambda>_. True) (NewRoutingTable zero_id) (contact_at 9)) \<and>
   contacts (Update (\<lambda>_. True) (NewRoutingTable zero_id) (contact_at 9)) = [contact_at 9]"
  by (simp add: Update_wf New_wf) (simp add: Update_eq contacts_def NewRoutingTable_def idLength_def
      bucket_update_def k_size_def concat_update_replicate bucket_index_bounds)

theorem lookup_invariant_witness:
  "\<exists>st. reach lk_init lk_step st \<and> lk_status st = Waiting \<and> outstanding st \<noteq> []"
proof -
  let ?rt = "Update (\<lambda>_. True) (NewRoutingTable zero_id) (contact_at 9)"
  have "Length (shortlist (new_lookup ?rt zero_id)) \<noteq> 0"
    using one_contact_table unqueried_new(2) [of ?rt zero_id] by simp
  then obtain st where st: "Lookup_start ?rt zero_id = Some st" "st = Lookup_fill (new_lookup ?rt zero_id)"
    by (auto simp: Lookup_start_def Let_def)
  have "lk_init st" unfolding lk_init_def
    by (intro exI [of _ ?rt] exI [of _ zero_id] conjI conjunct1 [OF one_contact_table] st(1))
  then have r: "reach lk_init lk_step st" by (rule reach_init)
  have "lk_status st = Waiting"
    using Lookup_fill_facts [of "new_lookup ?rt zero_id"] new_lookup_base [of ?rt zero_id] one_contact_table st(2)
    by (simp add: new_lookup_def)
  with lookup_invariant [OF r] r show ?thesis by blast
qed

text \<open>
  C8. A lookup ends: from its start it takes at most 8193 steps, whatever the peers answer, because it can make at
  most 8192 queries (32 places with 256 distances each); and there is no infinite run.
\<close>

theorem lookup_terminates:
  assumes "wf_rt rt" "Lookup_start rt t = Some st"
  shows "((lk_step ^^ n) st st' \<longrightarrow> n \<le> 8193 \<and> card (queried st') \<le> 8192) \<and>
    \<not> (\<exists>f. f 0 = st \<and> (\<forall>i. lk_step (f i) (f (Suc i))))"
proof -
  have i: "lk_inv st" "budget st = 8192" using Lookup_start_inv [OF assms] by auto
  have "n \<le> 8193 \<and> card (queried st') \<le> 8192" if "(lk_step ^^ n) st st'"
  proof -
    have "n \<le> lk_measure st" using lk.steps_bounded [OF that i(1)] by simp
    moreover have "lk_measure st \<le> 8193" using i(2) by (simp add: lk_measure_def split: lookup_status.split)
    moreover have "lk_inv st'" using lk.steps_inv [OF relpowp_imp_rtranclp [OF that] i(1)] .
    ultimately show ?thesis using lk_base_card by (auto simp: lk_inv_def)
  qed
  then show ?thesis using lk.no_infinite_run i(1) by blast
qed

theorem lookup_terminates_witness:
  "\<exists>st. Lookup_start (Update (\<lambda>_. True) (NewRoutingTable zero_id) (contact_at 9)) zero_id = Some st \<and>
     \<not> (\<exists>f. f 0 = st \<and> (\<forall>i. lk_step (f i) (f (Suc i))))"
proof -
  let ?rt = "Update (\<lambda>_. True) (NewRoutingTable zero_id) (contact_at 9)"
  have "Length (shortlist (new_lookup ?rt zero_id)) \<noteq> 0"
    using one_contact_table unqueried_new(2) [of ?rt zero_id] by simp
  then obtain st where "Lookup_start ?rt zero_id = Some st" by (auto simp: Lookup_start_def Let_def)
  with lookup_terminates [OF conjunct1 [OF one_contact_table]] show ?thesis by blast
qed

text \<open>
  A value lookup of a node that knows one or two contacts returns without waiting for any answer: it has just
  sent a query to every contact it knows, and returns that it found no value, even when one of them
  holds the value.
\<close>

theorem value_lookup_gives_up:
  assumes "wf_rt rt" "contacts rt \<noteq> []" "length (contacts rt) < 3"
  shows "\<exists>st. ValueLookup_start rt key = Some st \<and> lk_status st = Finished \<and> lk_value st = [] \<and>
    length (outstanding st) = length (contacts rt)"
  using ValueLookup_start_extent [OF assms(1,2), of key] assms(3) by auto

theorem value_lookup_gives_up_witness:
  "\<exists>st. ValueLookup_start (Update (\<lambda>_. True) (NewRoutingTable zero_id) (contact_at 9)) (id_of_nat 4) = Some st \<and>
     lk_status st = Finished \<and> lk_value st = [] \<and> length (outstanding st) = 1"
  using value_lookup_gives_up [of "Update (\<lambda>_. True) (NewRoutingTable zero_id) (contact_at 9)" "id_of_nat 4"]
    one_contact_table by simp

text \<open>
  C29. A value lookup can wait for results that never come: when the queries to the first three contacts fail,
  nothing is sent to the results channel, and the only step left is the end of the caller's context.
\<close>

theorem value_lookup_hangs:
  assumes "wf_rt rt" "3 \<le> length (contacts rt)"
  shows "\<exists>st st'. ValueLookup_start rt key = Some st \<and> (vl_step ^^ 3) st st' \<and> lk_status st' = Waiting \<and>
    (\<forall>st''. vl_step st' st'' \<longrightarrow> st'' = st'\<lparr>lk_status := Finished\<rparr>)"
proof -
  have "contacts rt \<noteq> []" using assms(2) by auto
  then obtain st where st: "ValueLookup_start rt key = Some st" "length (outstanding st) = 3" "lk_status st = Waiting"
    using ValueLookup_start_extent [OF assms(1), of key] assms(2) by auto
  then obtain a b c where abc: "outstanding st = [a, b, c]" by (auto simp: numeral_3_eq_3 length_Suc_conv)
  have fail: "vl_step s (s\<lparr>outstanding := xs\<rparr>)" if "outstanding s = x # xs" for s x xs
    using vl_failed [of x s] that by simp
  let ?st' = "st\<lparr>outstanding := []\<rparr>"
  have "(vl_step ^^ 3) st ?st'"
    using fail [OF abc] fail [of "st\<lparr>outstanding := [b, c]\<rparr>" b "[c]"] fail [of "st\<lparr>outstanding := [c]\<rparr>" c "[]"]
    by (auto simp: numeral_3_eq_3)
  moreover have "\<forall>st''. vl_step ?st' st'' \<longrightarrow> st'' = ?st'\<lparr>lk_status := Finished\<rparr>"
    by (auto elim: vl_stepE)
  ultimately show ?thesis using st by (intro exI [of _ st] exI [of _ ?st']) simp
qed

lemma full_table_wf: "wf_rt full_table \<and> length (contacts full_table) = 32"
proof -
  have "XorDistance (id_of_nat 0) (id_of_nat n) = 6" if "64 \<le> n" "n < 96" for n
    using XorDistance_small [of 6 n] that by simp
  then have p: "bucket_placed (SelfID (NewRoutingTable (id_of_nat 0))) 6 (map contact_at [64..<96])"
    by (auto simp: bucket_placed_def k_size_def list_all_iff contact_at_def NewRoutingTable_def)
  have d: "distinct (map ID (map contact_at [64..<96]))"
    by (auto simp: distinct_map inj_on_def contact_at_def id_of_nat_eq_iff)
  have "wf_rt full_table" unfolding full_table_def by (rule set_bucket_wf [OF New_wf p d])
  moreover have "contacts full_table = map contact_at [64..<96]"
    by (simp add: contacts_def full_table_def NewRoutingTable_def idLength_def concat_update_replicate)
  ultimately show ?thesis by simp
qed

theorem value_lookup_hangs_witness:
  "\<exists>st st'. ValueLookup_start full_table (id_of_nat 3) = Some st \<and> (vl_step ^^ 3) st st' \<and> lk_status st' = Waiting \<and>
    (\<forall>st''. vl_step st' st'' \<longrightarrow> st'' = st'\<lparr>lk_status := Finished\<rparr>)"
  using value_lookup_hangs [of full_table "id_of_nat 3"] full_table_wf by simp

end
