(* ===== verification/Lookup_Results.thy ===== *)
theory Lookup_Results
  imports Lookup
begin

text \<open>
  What a lookup returns. \<open>lookup_run rt t trace st\<close> is a run of \<open>Lookup\<close> for the target \<open>t\<close> from the routing table \<open>rt\<close>, in which the contacts of
  \<open>trace\<close> answered, in this order, with the contacts next to them; it does not end by its context. The result is the part of the short list in use.
\<close>

inductive lookup_run :: "RoutingTable \<Rightarrow> NodeId \<Rightarrow> (Contact \<times> Contact list) list \<Rightarrow> lookup \<Rightarrow> bool" for rt t where
  run_start: "Lookup_start rt t = Some st \<Longrightarrow> lookup_run rt t [] st"
| run_result: "lookup_run rt t trace st \<Longrightarrow> lk_status st = Waiting \<Longrightarrow> c \<in> set (outstanding st) \<Longrightarrow>
    lookup_run rt t (trace @ [(c, result)]) (Lookup_receive ping c result st)"

lemma run_steps: "lookup_run rt t trace st \<Longrightarrow> wf_rt rt \<Longrightarrow> reach lk_init lk_step st"
proof (induction rule: lookup_run.induct)
  case (run_start st)
  then show ?case by (auto intro!: reach_init simp: lk_init_def)
next
  case (run_result trace st c result ping)
  then show ?case by (meson lk_result reach_step)
qed

subsection \<open>What the loops leave alone\<close>

text \<open>Filling the slots queries contacts of the short list, as many as there are slots, and records them.\<close>

lemma Lookup_fill_extent:
  assumes "inFlightCounter st \<le> maxConcurrentRequests"
  shows "\<exists>new. shortlist (Lookup_fill st) = shortlist st \<and> lk_status (Lookup_fill st) = lk_status st \<and>
    outstanding (Lookup_fill st) = outstanding st @ new \<and> queried (Lookup_fill st) = queried st \<union> ID ` set new \<and>
    length new = min (unqueried st) (maxConcurrentRequests - inFlightCounter st) \<and>
    unqueried (Lookup_fill st) = unqueried st - length new"
  using assms
proof (induction st rule: Lookup_fill.induct)
  case (1 st)
  show ?case
  proof (cases "inFlightCounter st < maxConcurrentRequests \<and> next_contact st \<noteq> None")
    case True
    then obtain c q where p: "next_contact st = Some (c, q)" by auto
    have fill: "Lookup_fill st = Lookup_fill (start_query c q st)"
      using True p by (simp add: Lookup_fill.simps [of st])
    have q: "queried (start_query c q st) = insert (ID c) (queried st)" using next_contact_SomeD [OF p] by (simp add: start_query_def)
    have u: "unqueried st = Suc (unqueried (start_query c q st))" using unqueried_start_query [OF p] by simp
    have "inFlightCounter st < maxConcurrentRequests" "inFlightCounter (start_query c q st) \<le> maxConcurrentRequests" using True by auto
    from "1.IH" [OF this(1) p refl this(2)] obtain new where
      "shortlist (Lookup_fill st) = shortlist st" "lk_status (Lookup_fill st) = lk_status st"
      "outstanding (Lookup_fill st) = (outstanding st @ [c]) @ new" "queried (Lookup_fill st) = insert (ID c) (queried st) \<union> ID ` set new"
      "length new = min (unqueried (start_query c q st)) (maxConcurrentRequests - Suc (inFlightCounter st))"
      "unqueried (Lookup_fill st) = unqueried (start_query c q st) - length new"
      by (auto simp: fill q)
    then show ?thesis using True u by (intro exI [of _ "c # new"]) auto
  next
    case False
    then have "Lookup_fill st = st" by (cases "next_contact st") (auto simp: Lookup_fill.simps [of st])
    with False "1.prems" show ?thesis using unqueried_None [of st] by auto
  qed
qed

lemma learn_simps [simp]:
  "shortlist (learn ping cs st) = Add (shortlist st) cs" "outstanding (learn ping cs st) = outstanding st" "queried (learn ping cs st) = queried st"
  "inFlightCounter (learn ping cs st) = inFlightCounter st"
  by (simp_all add: learn_def)

lemma take_result_simps [simp]:
  "shortlist (take_result c st) = shortlist st" "outstanding (take_result c st) = remove1 c (outstanding st)" "queried (take_result c st) = queried st"
  "inFlightCounter (take_result c st) = inFlightCounter st - 1"
  by (simp_all add: take_result_def)

lemma next_contact_frame:
  "shortlist st' = shortlist st \<Longrightarrow> queried st' = queried st \<Longrightarrow> next_contact st' = next_contact st"
  by (simp add: next_contact_def)

lemma Add_Nil [simp]: "Add cs [] = cs"
  by (simp add: Add_def)

lemma Add_Add: "Add (Add cs xs) ys = Add cs (xs @ ys)"
  by (simp add: Add_def)

text \<open>
  In every state of a run: the contacts that were queried are those that answered and those still outstanding; and unless a contact of the short list is left
  that was not queried, the lookup is over or uses all its slots.
\<close>

definition asked :: "(Contact \<times> Contact list) list \<Rightarrow> lookup \<Rightarrow> bool" where
  "asked trace st \<longleftrightarrow> queried st = ID ` fst ` set trace \<union> ID ` set (outstanding st) \<and>
     (next_contact st = None \<or> lk_status st = Waiting \<and> inFlightCounter st = maxConcurrentRequests)"

lemma asked_fill:
  assumes "inFlightCounter st \<le> maxConcurrentRequests" "inFlightCounter st = length (outstanding st)" "lk_status st = Waiting"
    and "queried st = ID ` fst ` set trace \<union> ID ` set (outstanding st)" "lk_base st"
  shows "asked trace (Lookup_fill st)"
proof -
  obtain new where new: "lk_status (Lookup_fill st) = Waiting" "outstanding (Lookup_fill st) = outstanding st @ new"
    "queried (Lookup_fill st) = queried st \<union> ID ` set new" using Lookup_fill_extent [OF assms(1)] assms(3) by auto
  have "next_contact (Lookup_fill st) = None \<or> inFlightCounter (Lookup_fill st) = maxConcurrentRequests"
    using Lookup_fill_facts [OF assms(5)] by blast
  with new assms(4) show ?thesis by (auto simp: asked_def)
qed

lemma Lookup_receive_shortlist:
  assumes "lk_inv st" "c \<in> set (outstanding st)"
  shows "shortlist (Lookup_receive ping c result st) = Add (shortlist st) result"
proof -
  have fill: "shortlist (Lookup_fill u) = shortlist u" if "inFlightCounter u \<le> maxConcurrentRequests" for u
    using Lookup_fill_extent [OF that] by blast
  have "inFlightCounter st \<le> maxConcurrentRequests" "0 < inFlightCounter st"
    using assms by (auto simp: lk_inv_def lk_base_def)
  then show ?thesis by (auto simp: Lookup_receive_def Let_def fill split: option.split)
qed

lemma Lookup_receive_asked:
  assumes "lk_inv st" "asked trace st" "lk_status st = Waiting" "c \<in> set (outstanding st)"
  shows "asked (trace @ [(c, result)]) (Lookup_receive ping c result st)"
proof -
  let ?u = "take_result c st" and ?l = "learn ping result (take_result c st)"
  have i: "lk_base st" "inFlightCounter st \<le> maxConcurrentRequests" "inFlightCounter st = length (outstanding st)"
    using assms(1) by (auto simp: lk_inv_def lk_base_def)
  have out: "set (outstanding st) = insert c (set (remove1 c (outstanding st)))"
    using assms(4) by (metis set_mset_mset mset_remove1 insert_DiffM set_mset_add_mset_insert set_mset_mset)
  have n: "0 < length (outstanding st)" "length (remove1 c (outstanding st)) = length (outstanding st) - 1"
    using assms(4) by (auto simp: length_remove1)
  have b: "lk_base ?u" "lk_base ?l" using base_take_result [OF i(1) assms(4)] base_learn by auto
  have q: "queried st = ID ` fst ` set (trace @ [(c, result)]) \<union> ID ` set (remove1 c (outstanding st))"
    using assms(2) unfolding asked_def out by auto
  have w: "lk_status ?u = Waiting" "lk_status ?l = Waiting" using assms(3) by (simp_all add: take_result_def learn_def)
  show ?thesis
  proof (cases "result = []")
    case True
    show ?thesis
    proof (cases "inFlightCounter ?u > 0")
      case pos: True
      have "asked (trace @ [(c, result)]) (Lookup_fill ?u)" by (rule asked_fill) (use i n q w b in auto)
      with True pos show ?thesis by (simp add: Lookup_receive_def)
    next
      case False
      then have "next_contact st = None" using assms(2) i n by (auto simp: asked_def maxConcurrentRequests_def)
      then have "next_contact (?u\<lparr>lk_status := Finished\<rparr>) = None" using next_contact_frame [of "?u\<lparr>lk_status := Finished\<rparr>" st] by simp
      with True False q show ?thesis by (simp add: Lookup_receive_def asked_def)
    qed
  next
    case False
    show ?thesis
    proof (cases "next_contact ?l")
      case None
      then have "next_contact (?l\<lparr>lk_status := Finished\<rparr>) = None" using next_contact_frame [of "?l\<lparr>lk_status := Finished\<rparr>" ?l] by simp
      with None False q show ?thesis by (simp add: Lookup_receive_def asked_def)
    next
      case (Some p)
      then obtain d e where p: "next_contact ?l = Some (d, e)" by (cases p) auto
      have e: "e = insert (ID d) (queried st)" using next_contact_SomeD [OF p] by simp
      have lt: "inFlightCounter ?l < maxConcurrentRequests" using i n(1) by (cases "outstanding st") auto
      have "asked (trace @ [(c, result)]) (Lookup_fill (start_query d e ?l))"
        by (rule asked_fill) (use i n q w base_start_query [OF b(2) lt p] e in \<open>auto simp: start_query_def\<close>)
      with p False show ?thesis by (simp add: Lookup_receive_def)
    qed
  qed
qed

lemma run_facts:
  assumes "lookup_run rt t trace st" "wf_rt rt"
  shows "asked trace st \<and> shortlist st = Add (NewContactSorter t) (FindClosest rt t maxConcurrentRequests @ concat (map snd trace))"
  using assms
proof (induction rule: lookup_run.induct)
  case (run_start st)
  then have st: "st = Lookup_fill (new_lookup rt t)" by (auto simp: Lookup_start_def Let_def split: if_splits)
  have "asked [] (Lookup_fill (new_lookup rt t))"
    by (rule asked_fill) (use new_lookup_base [OF run_start.prems, of t] in \<open>auto simp: new_lookup_def\<close>)
  moreover have "shortlist (Lookup_fill (new_lookup rt t)) = shortlist (new_lookup rt t)"
    using Lookup_fill_extent [of "new_lookup rt t"] by (simp add: new_lookup_def)
  ultimately show ?case by (simp add: st new_lookup_def)
next
  case (run_result trace st c result ping)
  have "lk_inv st" by (rule lk.reach_inv [OF run_steps [OF run_result.hyps(1) run_result.prems]])
  with Lookup_receive_asked [OF this _ run_result.hyps(2,3)] Lookup_receive_shortlist [OF this run_result.hyps(3)] run_result
  show ?case by (simp add: Add_Add)
qed

subsection \<open>Properties\<close>

text \<open>
  C4. A lookup that is not cut off by its context returns the \<open>k\<close> closest contacts, by the coarse distance, of all it ever learned, from its own table and from
  the answers, each identifier once; and it has queried every contact it returns.
\<close>

theorem lookup_result:
  assumes "wf_rt rt" "lookup_run rt t trace st" "lk_status st = Finished"
  shows "active (shortlist st) = take k_size (sort_key (dist_to t) (first_by ID (FindClosest rt t maxConcurrentRequests @ concat (map snd trace)))) \<and>
    ID ` set (active (shortlist st)) \<subseteq> ID ` fst ` set trace \<union> ID ` set (outstanding st)"
proof -
  have a: "asked trace st" "shortlist st = Add (NewContactSorter t) (FindClosest rt t maxConcurrentRequests @ concat (map snd trace))"
    using run_facts [OF assms(2,1)] by blast+
  then have "next_contact st = None" using assms(3) by (simp add: asked_def)
  then have "ID ` set (active (shortlist st)) \<subseteq> ID ` fst ` set trace \<union> ID ` set (outstanding st)"
    using a(1) by (simp add: next_contact_None_iff asked_def)
  moreover have "active (Add (NewContactSorter t) xs) = take k_size (sort_key (dist_to t) (first_by ID xs))" for xs
    by (simp add: Add_active sorter.fold_add_spec)
  ultimately show ?thesis unfolding a(2) by blast
qed

lemma one_contact_start:
  "Lookup_start (Update (\<lambda>_. True) (NewRoutingTable zero_id) (contact_at 9)) zero_id =
     Some (Lookup_fill (new_lookup (Update (\<lambda>_. True) (NewRoutingTable zero_id) (contact_at 9)) zero_id))"
  using one_contact_table unqueried_new(2) [of "Update (\<lambda>_. True) (NewRoutingTable zero_id) (contact_at 9)" zero_id]
  by (simp add: Lookup_start_def Let_def)

theorem lookup_result_witness:
  "\<exists>st c. lookup_run (Update (\<lambda>_. True) (NewRoutingTable zero_id) (contact_at 9)) zero_id [(c, [])] st \<and> lk_status st = Finished \<and>
     ID ` set (active (shortlist st)) \<subseteq> {ID c} \<union> ID ` set (outstanding st)"
proof -
  let ?rt = "Update (\<lambda>_. True) (NewRoutingTable zero_id) (contact_at 9)"
  let ?n = "new_lookup ?rt zero_id"
  have n: "unqueried ?n = 1" "inFlightCounter ?n = 0" "outstanding ?n = []" "lk_status ?n = Waiting"
    using unqueried_new(1) [of ?rt zero_id] one_contact_table by (simp_all add: new_lookup_def)
  then obtain c where c: "outstanding (Lookup_fill ?n) = [c]" "lk_status (Lookup_fill ?n) = Waiting"
    using Lookup_fill_extent [of ?n] by (auto simp: maxConcurrentRequests_def length_Suc_conv)
  have r: "lookup_run ?rt zero_id [] (Lookup_fill ?n)" by (rule run_start [OF one_contact_start])
  have "inFlightCounter (Lookup_fill ?n) = 1"
    using lk.reach_inv [OF run_steps [OF r conjunct1 [OF one_contact_table]]] c(1) by (simp add: lk_inv_def lk_base_def)
  then have f: "lk_status (Lookup_receive (\<lambda>_. True) c [] (Lookup_fill ?n)) = Finished" by (simp add: Lookup_receive_def Let_def)
  have r': "lookup_run ?rt zero_id [(c, [])] (Lookup_receive (\<lambda>_. True) c [] (Lookup_fill ?n))"
    using run_result [OF r c(2), of c "[]"] c(1) by simp
  from lookup_result [OF conjunct1 [OF one_contact_table] r' f] f r' show ?thesis by auto
qed

text \<open>
  A lookup does not wait for the answers that are still missing when it knows no further contact: if the node knows three contacts or more, and the first answer names
  only contacts that the lookup already knows, the lookup ends, and the answers of the two other contacts, however close the contacts they name, are
  never read.
\<close>

theorem lookup_ends_early:
  assumes "wf_rt rt" "3 \<le> length (contacts rt)" "Lookup_start rt t = Some st" "c \<in> set (outstanding st)"
    and "result \<noteq> []" "set result \<subseteq> set (active (shortlist st))"
  shows "lk_status (Lookup_receive ping c result st) = Finished \<and> length (outstanding (Lookup_receive ping c result st)) = 2"
proof -
  let ?n = "new_lookup rt t" and ?l = "learn ping result (take_result c st)"
  have st: "st = Lookup_fill ?n" using assms(3) by (auto simp: Lookup_start_def Let_def split: if_splits)
  have n: "unqueried ?n = 3" using unqueried_new(1) [OF assms(1), of t] assms(2) by simp
  have f: "length (outstanding st) = 3" "unqueried st = 0" "shortlist st = shortlist ?n"
    using Lookup_fill_extent [of ?n] n by (auto simp: st new_lookup_def maxConcurrentRequests_def)
  have wf: "wf_sorter (shortlist st)" unfolding f(3) by (simp add: new_lookup_def Add_wf)
  have "foldl (\<lambda>acc d. add_spec g ID k_size d acc) xs cs = xs" if "set cs \<subseteq> set xs" for g xs cs
    using that by (induction cs) (auto simp: add_spec_def)
  then have "active (Add (shortlist st) result) = active (shortlist st)" using assms(6) by (simp add: Add_active [OF wf])
  then have "next_contact ?l = next_contact st" by (simp add: next_contact_def)
  then have "next_contact ?l = None" using f(2) unqueried_None by simp
  with assms(5) f(1) assms(4) show ?thesis by (auto simp: Lookup_receive_def length_remove1)
qed

theorem lookup_ends_early_witness:
  "\<exists>st c. Lookup_start full_table zero_id = Some st \<and> c \<in> set (outstanding st) \<and>
     lk_status (Lookup_receive (\<lambda>_. True) c (active (shortlist st)) st) = Finished"
proof -
  let ?n = "new_lookup full_table zero_id"
  have n: "unqueried ?n = 3" "Length (shortlist ?n) = 3" using unqueried_new [of full_table zero_id] full_table_wf by auto
  then have st: "Lookup_start full_table zero_id = Some (Lookup_fill ?n)" by (simp add: Lookup_start_def Let_def)
  have f: "length (outstanding (Lookup_fill ?n)) = 3" "shortlist (Lookup_fill ?n) = shortlist ?n"
    using Lookup_fill_extent [of ?n] n by (auto simp: new_lookup_def maxConcurrentRequests_def)
  then obtain c where c: "c \<in> set (outstanding (Lookup_fill ?n))" by (cases "outstanding (Lookup_fill ?n)") auto
  have "active (shortlist (Lookup_fill ?n)) \<noteq> []" using n(1) unfolding f(2) by (auto simp: unqueried_def)
  with lookup_ends_early [OF conjunct1 [OF full_table_wf] _ st c, of "active (shortlist (Lookup_fill ?n))"] full_table_wf st c
  show ?thesis by auto
qed

end
