(* ===== verification/Task_Codec.thy ===== *)
theory Task_Codec
  imports Rpc_Codec
begin

text \<open>
  Tasks and their wire format (\<open>src/runtime/task_runtime.go\<close>, \<open>src/runtime/wasm_runtime.go\<close>). A message is a header
  up to the standard input, followed by three sections that older senders leave out: capabilities, tags
  and topic. The header is read without looking at the length of the message (\<open>Panic\<close> where Go panics); the
  sections are checked and give errors. \<open>time.Duration\<close> is a signed \<open>64 word\<close>; \<open>mem\<close> is the largest
  allocation, and a Go string header takes 16 bytes. The locale \<open>byte_codec\<close> is interpreted for the header and for
  one item of a section. \<open>RunTask\<close> has the WebAssembly engine as a parameter.
\<close>

type_synonym duration = "64 word"

definition TaskTypeBatch :: bytes where "TaskTypeBatch = str ''batch''"
definition TaskTypeStream :: bytes where "TaskTypeStream = str ''stream''"

type_synonym RequestMode = byte

definition RequestModeNeedBatch :: RequestMode where "RequestModeNeedBatch = 0"
definition RequestModeNeedBatchOrStream :: RequestMode where "RequestModeNeedBatchOrStream = 1"

record Task =
  task_OpCode :: OpCode
  TaskID :: NodeId
  JobID :: NodeId
  Type :: bytes
  Topic :: bytes
  task_RequestMode :: RequestMode
  Binary :: bytes
  TTL :: duration
  Result :: bytes
  Stdin :: bytes
  Capabilities :: "bytes list"
  Tags :: "bytes list"

text \<open>\<open>Duration.Abs\<close>: the most negative duration, which has no negation, becomes the largest.\<close>

definition Duration_Abs :: "duration \<Rightarrow> duration" where
  "Duration_Abs d =
     (if 0 \<le> sint d then d
      else if d = 2 ^ 63 then 2 ^ 63 - 1
      else - d)"

text \<open>A byte string with its length in front.\<close>

definition len_prefixed :: "bytes \<Rightarrow> bytes" where
  "len_prefixed s = PutUint64 (of_nat (length s)) @ s"

definition encode_header :: "Task \<Rightarrow> bytes" where
  "encode_header task =
     [task_OpCode task] @ id_bytes (TaskID task) @ id_bytes (JobID task) @
     len_prefixed (Type task) @ [task_RequestMode task] @ len_prefixed (Binary task) @
     PutUint64 (Duration_Abs (TTL task)) @ len_prefixed (Result task) @ len_prefixed (Stdin task)"

definition encode_section :: "bytes list \<Rightarrow> bytes" where
  "encode_section items = PutUint64 (of_nat (length items)) @ concat (map len_prefixed items)"

definition EncodeTask :: "Task \<Rightarrow> bytes" where
  "EncodeTask task =
     encode_header task @ encode_section (Capabilities task) @ encode_section (Tags task) @
     len_prefixed (Topic task)"

text \<open>\<open>n := Uint64(data[:8]); data = data[8:]; x := data[:n]; data = data[n:]\<close>.\<close>

definition take_prefixed :: "bytes \<Rightarrow> (bytes \<times> bytes) outcome" where
  "take_prefixed data =
     obind (split_at 8 data) (\<lambda>(l, data). split_at (unat (Uint64 l)) data)"

definition decode_header :: "bytes \<Rightarrow> (Task \<times> bytes) outcome" where
  "decode_header data =
     obind (pop_byte data) (\<lambda>(opCode, data).
     obind (split_at 32 data) (\<lambda>(taskID, data).
     obind (split_at 32 data) (\<lambda>(jobID, data).
     obind (take_prefixed data) (\<lambda>(taskType, data).
     obind (pop_byte data) (\<lambda>(requestMode, data).
     obind (take_prefixed data) (\<lambda>(wasmBinary, data).
     obind (split_at 8 data) (\<lambda>(ttlNanos, data).
     obind (take_prefixed data) (\<lambda>(result, data).
     obind (take_prefixed data) (\<lambda>(stdin, data).
       Ok (\<lparr>task_OpCode = opCode, TaskID = node_id taskID, JobID = node_id jobID, Type = taskType,
            Topic = [], task_RequestMode = requestMode, Binary = wasmBinary, TTL = Uint64 ttlNanos,
            Result = result, Stdin = stdin, Capabilities = [], Tags = []\<rparr>, data))))))))))"

text \<open>One item of a section, and a section, each with the code's error messages.\<close>

definition decode_item :: "string \<Rightarrow> string \<Rightarrow> bytes \<Rightarrow> (bytes \<times> bytes) outcome" where
  "decode_item missing malformed data =
     (if length data < 8 then Err missing
      else
        let itemLength = unat (Uint64 (take 8 data));
            data = drop 8 data
        in if length data < itemLength then Err malformed
           else Ok (take itemLength data, drop itemLength data))"

definition decode_section ::
  "string \<Rightarrow> string \<Rightarrow> string \<Rightarrow> nat \<Rightarrow> bytes \<Rightarrow> (bytes list \<times> bytes) outcome" where
  "decode_section no_length missing malformed mem data =
     (if length data > 0 then
        if length data < 8 then Err no_length
        else
          let itemsCount = unat (Uint64 (take 8 data));
              data = drop 8 data
          in obind (makeslice mem 16 itemsCount)
               (\<lambda>_. decode_n (decode_item missing malformed) itemsCount data)
      else Ok ([], data))"

definition decode_topic :: "bytes \<Rightarrow> bytes outcome" where
  "decode_topic data =
     (if length data > 0 then
        if length data < 8 then Err ''invalid task payload: missing topic length''
        else
          let topicLength = unat (Uint64 (take 8 data));
              data = drop 8 data
          in if length data < topicLength then Err ''invalid task payload: malformed topic''
             else Ok (take topicLength data)
      else Ok [])"

definition DecodeTask :: "nat \<Rightarrow> bytes \<Rightarrow> Task outcome" where
  "DecodeTask mem data =
     obind (decode_header data) (\<lambda>(task, data).
     obind (decode_section ''invalid task payload: missing capabilities length''
              ''invalid task payload: missing capability length''
              ''invalid task payload: malformed capability'' mem data) (\<lambda>(capabilities, data).
     obind (decode_section ''invalid task payload: missing tags length''
              ''invalid task payload: missing tag length''
              ''invalid task payload: malformed tag'' mem data) (\<lambda>(tags, data).
     obind (decode_topic data) (\<lambda>topic.
       Ok (task\<lparr>Topic := topic, Capabilities := capabilities, Tags := tags\<rparr>)))))"

subsection \<open>Running a task\<close>

text \<open>
  The file system and the engine: whether a path exists and is a directory; errors of the instantiation of
  WASI and of the module; the module's exported function \<open>run\<close>, if it has one, which turns the standard input into
  what was written to the standard output, the values it returned, and possibly an error with the standard error.
  \<open>RunTask\<close> does not look at the returned values.
\<close>

record wasm_engine =
  stat_IsDir :: "bytes \<Rightarrow> bool outcome"
  wasi_err :: "string option"
  instantiate_err :: "bytes \<Rightarrow> string option"
  run_export :: "bytes \<Rightarrow> (bytes \<Rightarrow> bytes \<times> u64 list \<times> string option) option"

definition RunTask :: "wasm_engine \<Rightarrow> bytes \<Rightarrow> bytes \<Rightarrow> bytes \<Rightarrow> bytes outcome" where
  "RunTask en mountDir wasmBinary stdin =
     (if length wasmBinary = 0 then Err ''RunTask: wasmBinary is empty''
      else if mountDir = [] then Err ''RunTask: mountdir is not configured, use --mountdir=<path>''
      else
        case stat_IsDir en mountDir of
          Err e \<Rightarrow> Err (''RunTask: mountdir invalid: '' @ e)
        | Panic \<Rightarrow> Panic
        | Ok isDir \<Rightarrow>
            if \<not> isDir then Err ''RunTask: mountdir is not a directory''
            else case wasi_err en of Some e \<Rightarrow> Err (''RunTask: failed to instantiate WASI: '' @ e) | None \<Rightarrow>
              (case instantiate_err en wasmBinary of Some e \<Rightarrow> Err (''RunTask: instantiate failed: '' @ e) | None \<Rightarrow>
                (case run_export en wasmBinary of
                   None \<Rightarrow> Panic
                 | Some run \<Rightarrow>
                     (case run stdin of
                        (_, _, Some e) \<Rightarrow> Err (''RunTask: run() failed: '' @ e)
                      | (capturedStdout, _, None) \<Rightarrow> Ok capturedStdout))))"

subsection \<open>Length-prefixed strings\<close>

abbreviation fits :: "bytes \<Rightarrow> bool" where
  "fits s \<equiv> length s < 2 ^ 64"

lemma unat_of_nat_fits: "n < 2 ^ 64 \<Longrightarrow> unat (of_nat n :: u64) = n"
  by (simp add: unat_of_nat take_bit_nat_eq_self)

lemma take_prefixed_len_prefixed [simp]: "fits s \<Longrightarrow> take_prefixed (len_prefixed s @ r) = Ok (s, r)"
  by (simp add: take_prefixed_def len_prefixed_def unat_of_nat_fits)

lemma prefixed_sound:
  "length l = 8 \<Longrightarrow> length s = unat (Uint64 l) \<Longrightarrow> fits s \<and> l @ s = len_prefixed s"
  using unsigned_less [of "Uint64 l", where ?'a = nat] by (simp add: len_prefixed_def PutUint64_Uint64)

lemma take_prefixed_Ok_iff: "take_prefixed p = Ok (s, r) \<longleftrightarrow> fits s \<and> p = len_prefixed s @ r"
proof
  assume "take_prefixed p = Ok (s, r)"
  then obtain l where "p = l @ s @ r" "length l = 8" "length s = unat (Uint64 l)"
    by (auto simp: take_prefixed_def obind_Ok_iff split_at_Ok_iff)
  with prefixed_sound [of l s] show "fits s \<and> p = len_prefixed s @ r" by (metis append.assoc)
qed simp

lemma take_prefixed_not_Err [simp]: "take_prefixed p \<noteq> Err e"
  by (simp add: take_prefixed_def obind_Err_iff)

interpretation item: byte_codec len_prefixed "decode_item e1 e2" fits for e1 e2
proof unfold_locales
  fix s r :: bytes assume "fits s"
  then show "decode_item e1 e2 (len_prefixed s @ r) = Ok (s, r)"
    by (simp add: decode_item_def len_prefixed_def unat_of_nat_fits)
next
  fix p s r assume dec: "decode_item e1 e2 p = Ok (s, r)"
  then have "length (take 8 p) = 8" "length s = unat (Uint64 (take 8 p))" "s @ r = drop 8 p"
    by (auto simp: decode_item_def Let_def split: if_splits simp del: drop_drop)
  with prefixed_sound show "fits s \<and> p = len_prefixed s @ r"
    by (metis append.assoc append_take_drop_id)
qed

subsection \<open>The header\<close>

definition wf_header :: "Task \<Rightarrow> bool" where
  "wf_header t \<longleftrightarrow> fits (Type t) \<and> fits (Binary t) \<and> fits (Result t) \<and> fits (Stdin t)"

lemma decode_encode_header:
  "wf_header t \<Longrightarrow> decode_header (encode_header t @ r) =
     Ok (t\<lparr>TTL := Duration_Abs (TTL t), Topic := [], Capabilities := [], Tags := []\<rparr>, r)"
  by (cases t) (simp add: decode_header_def encode_header_def wf_header_def)

lemma decode_header_not_Err [simp]: "decode_header p \<noteq> Err e"
  by (simp add: decode_header_def obind_Err_iff)

lemma decode_header_mono:
  assumes "decode_header p = Ok (t, r)"
  shows "decode_header (p @ q) = Ok (t, r @ q)"
proof -
  obtain x i j ty y bn d re si where p: "p = x # i @ j @ len_prefixed ty @
      y # len_prefixed bn @ d @ len_prefixed re @ len_prefixed si @ r" "length i = 32" "length j = 32" "length d = 8"
      "fits ty" "fits bn" "fits re" "fits si"
    and t: "t = \<lparr>task_OpCode = x, TaskID = node_id i, JobID = node_id j, Type = ty, Topic = [],
      task_RequestMode = y, Binary = bn, TTL = Uint64 d, Result = re, Stdin = si, Capabilities = [], Tags = []\<rparr>"
    using assms
    by (auto simp: decode_header_def obind_Ok_iff split_at_Ok_iff pop_byte_Ok_iff take_prefixed_Ok_iff)
  then show ?thesis by (simp add: decode_header_def)
qed

lemma truncated_header:
  assumes "wf_header t" "encode_header t = p @ q" "q \<noteq> []"
  shows "decode_header p = Panic"
proof (cases "decode_header p")
  case (Ok x)
  then obtain t' r where "decode_header p = Ok (t', r)" by (cases x) auto
  from decode_header_mono [OF this, of q] decode_encode_header [OF assms(1), of "[]"] assms(2,3)
  show ?thesis by simp
qed simp_all

subsection \<open>The sections\<close>

definition wf_section :: "nat \<Rightarrow> bytes list \<Rightarrow> bool" where
  "wf_section mem items \<longleftrightarrow> 16 * length items \<le> mem \<and> length items < 2 ^ 64 \<and> list_all fits items"

lemma decode_encode_section:
  "wf_section mem items \<Longrightarrow> decode_section e0 e1 e2 mem (encode_section items @ r) = Ok (items, r)"
  using item.decode_n_enc [of items e1 e2 r]
  by (simp add: decode_section_def encode_section_def wf_section_def unat_of_nat_fits makeslice_def Let_def)

lemma decode_section_Nil [simp]: "decode_section e0 e1 e2 mem [] = Ok ([], [])"
  by (simp add: decode_section_def)

lemma decode_topic_len_prefixed: "fits s \<Longrightarrow> decode_topic (len_prefixed s @ r) = Ok s"
  by (simp add: decode_topic_def len_prefixed_def unat_of_nat_fits)

lemma decode_item_not_Panic [simp]: "decode_item e1 e2 p \<noteq> Panic"
  by (simp add: decode_item_def Let_def)

lemma decode_n_not_Panic: "(\<And>q. d q \<noteq> Panic) \<Longrightarrow> decode_n d n p \<noteq> Panic"
proof (induction n arbitrary: p)
  case (Suc n)
  then show ?case by (cases "d p") (auto split: prod.splits simp: obind_Panic_iff)
qed simp

definition wf_task :: "nat \<Rightarrow> Task \<Rightarrow> bool" where
  "wf_task mem t \<longleftrightarrow> wf_header t \<and> wf_section mem (Capabilities t) \<and> wf_section mem (Tags t) \<and> fits (Topic t)"

lemma DecodeTask_header:
  "wf_header t \<Longrightarrow> DecodeTask mem (encode_header t @ r) =
     obind (decode_section ''invalid task payload: missing capabilities length''
              ''invalid task payload: missing capability length''
              ''invalid task payload: malformed capability'' mem r) (\<lambda>(capabilities, r).
     obind (decode_section ''invalid task payload: missing tags length''
              ''invalid task payload: missing tag length''
              ''invalid task payload: malformed tag'' mem r) (\<lambda>(tags, r).
     obind (decode_topic r) (\<lambda>topic.
       Ok (t\<lparr>TTL := Duration_Abs (TTL t), Topic := topic, Capabilities := capabilities, Tags := tags\<rparr>))))"
  by (cases t) (simp add: DecodeTask_def decode_encode_header)

lemma DecodeTask_EncodeTask:
  "wf_task mem t \<Longrightarrow> DecodeTask mem (EncodeTask t @ r) = Ok (t\<lparr>TTL := Duration_Abs (TTL t)\<rparr>)"
  by (cases t) (simp add: EncodeTask_def wf_task_def DecodeTask_header decode_encode_section decode_topic_len_prefixed)

lemma sint_Duration_Abs: "sint (Duration_Abs d) = (if d = 2 ^ 63 then 2 ^ 63 - 1 else \<bar>sint d\<bar>)"
proof -
  have m: "sint (2 ^ 63 :: u64) = - (2 ^ 63)" "sint (2 ^ 63 - 1 :: u64) = 2 ^ 63 - 1"
    by (simp_all add: sint64)
  then show ?thesis by (auto simp: Duration_Abs_def sint64_uminus)
qed

lemma Duration_Abs_id: "0 \<le> sint d \<Longrightarrow> Duration_Abs d = d"
  by (simp add: Duration_Abs_def)

subsection \<open>Properties\<close>

text \<open>
  C27. A task survives the wire: every task whose strings fit is decoded from its encoding, with whatever follows it,
  unchanged but for its time to live, which becomes the absolute value (the most negative duration becomes the
  largest); so a task with a non-negative time to live is recovered exactly.
\<close>

theorem task_roundtrip:
  assumes "wf_task mem t"
  shows "DecodeTask mem (EncodeTask t @ r) = Ok (t\<lparr>TTL := Duration_Abs (TTL t)\<rparr>) \<and>
    sint (Duration_Abs (TTL t)) = (if TTL t = 2 ^ 63 then 2 ^ 63 - 1 else \<bar>sint (TTL t)\<bar>) \<and>
    (0 \<le> sint (TTL t) \<longrightarrow> DecodeTask mem (EncodeTask t) = Ok t)"
  using DecodeTask_EncodeTask [OF assms] DecodeTask_EncodeTask [OF assms, of "[]"] Duration_Abs_id
  by (auto simp: sint_Duration_Abs)

definition example_task :: Task where
  "example_task = \<lparr>task_OpCode = LeaseResponse, TaskID = id_of_nat 1, JobID = id_of_nat 2, Type = TaskTypeBatch,
     Topic = [], task_RequestMode = RequestModeNeedBatch, Binary = [0, 97, 115, 109], TTL = 5, Result = [],
     Stdin = str ''in'', Capabilities = [str ''gpu''], Tags = []\<rparr>"

theorem task_roundtrip_witness:
  "wf_task 1000 example_task \<and> DecodeTask 1000 (EncodeTask example_task) = Ok example_task"
proof -
  have wf: "wf_task 1000 example_task"
    by (simp add: example_task_def wf_task_def wf_header_def wf_section_def TaskTypeBatch_def str_def)
  have "0 \<le> sint (TTL example_task)" by (simp add: example_task_def)
  with task_roundtrip [OF wf, of "[]"] wf show ?thesis by blast
qed

text \<open>
  Messages of older senders, which end after the standard input, are still accepted and read as having no
  capabilities, no tags and no topic; a message cut after any complete section is read without
  the later ones.
\<close>

theorem legacy_task_decodes:
  assumes "wf_task mem t"
  shows "DecodeTask mem (encode_header t) =
      Ok (t\<lparr>TTL := Duration_Abs (TTL t), Topic := [], Capabilities := [], Tags := []\<rparr>) \<and>
    DecodeTask mem (encode_header t @ encode_section (Capabilities t)) =
      Ok (t\<lparr>TTL := Duration_Abs (TTL t), Topic := [], Tags := []\<rparr>) \<and>
    DecodeTask mem (encode_header t @ encode_section (Capabilities t) @ encode_section (Tags t)) =
      Ok (t\<lparr>TTL := Duration_Abs (TTL t), Topic := []\<rparr>)"
proof -
  have t: "wf_header t" "wf_section mem (Capabilities t)" "wf_section mem (Tags t)"
    using assms by (auto simp: wf_task_def)
  have s: "decode_section e0 e1 e2 mem (encode_section items) = Ok (items, [])" if "wf_section mem items" for e0 e1 e2 items
    using decode_encode_section [OF that, of e0 e1 e2 "[]"] by simp
  show ?thesis
    using DecodeTask_header [OF t(1), of mem "[]"] t
    by (cases t) (simp add: DecodeTask_header decode_encode_section s decode_topic_def)
qed

theorem legacy_task_decodes_witness:
  "wf_task 1000 example_task \<and>
   DecodeTask 1000 (encode_header example_task) = Ok (example_task\<lparr>Capabilities := []\<rparr>)"
proof -
  have wf: "wf_task 1000 example_task"
    by (simp add: example_task_def wf_task_def wf_header_def wf_section_def TaskTypeBatch_def str_def)
  from legacy_task_decodes [OF this] wf show ?thesis by (simp add: example_task_def Duration_Abs_def)
qed

text \<open>
  A truncated header crashes the receiver: on every proper prefix of a task's header, the empty message included,
  \<open>DecodeTask\<close> panics instead of returning an error.
\<close>

theorem truncated_task_panics:
  assumes "wf_header t" "encode_header t = p @ q" "q \<noteq> []"
  shows "DecodeTask mem p = Panic"
  using truncated_header [OF assms] by (simp add: DecodeTask_def)

theorem truncated_task_panics_witness: "DecodeTask 1000 [] = Panic \<and> DecodeTask 1000 [LeaseResponse] = Panic"
proof -
  have wf: "wf_header example_task"
    by (simp add: example_task_def wf_header_def TaskTypeBatch_def str_def)
  show ?thesis
    using truncated_task_panics [OF wf, of "[]"] truncated_task_panics [OF wf, of "[LeaseResponse]"]
    by (simp add: encode_header_def example_task_def)
qed

text \<open>
  \<open>RunTask\<close> refuses an empty binary and a missing or unusable mount directory before it touches the engine, and returns
  what the module wrote to its standard output when \<open>run\<close> succeeds; a module without an exported \<open>run\<close>
  makes it panic.
\<close>

theorem RunTask_branches:
  "RunTask en dir [] stdin = Err ''RunTask: wasmBinary is empty'' \<and>
   RunTask en [] (b # bin) stdin = Err ''RunTask: mountdir is not configured, use --mountdir=<path>'' \<and>
   (stat_IsDir en (d # dir) = Ok True \<and> wasi_err en = None \<and> instantiate_err en (b # bin) = None \<longrightarrow>
     (run_export en (b # bin) = None \<longrightarrow> RunTask en (d # dir) (b # bin) stdin = Panic) \<and>
     (\<forall>run out vals. run_export en (b # bin) = Some run \<and> run stdin = (out, vals, None) \<longrightarrow>
        RunTask en (d # dir) (b # bin) stdin = Ok out))"
  by (auto simp: RunTask_def)

lemma RunTask_example:
  "let en = \<lparr>stat_IsDir = \<lambda>_. Ok True, wasi_err = None, instantiate_err = \<lambda>_. None,
             run_export = (\<lambda>bin. if bin = [1] then Some (\<lambda>stdin. (rev stdin, [0], None)) else None)\<rparr>
   in RunTask en [47] [1] [5, 6] = Ok [6, 5] \<and> RunTask en [47] [2] [5, 6] = Panic"
  by (simp add: RunTask_def)

end
