(* ===== verification/Go_Encodings.thy ===== *)
theory Go_Encodings
  imports Go_Strings
begin

text \<open>
  What the code uses of Go's packages \<open>strconv\<close>, \<open>encoding/hex\<close> and \<open>encoding/base64\<close>, on byte strings: decimal notation
  and \<open>Atoi\<close>, \<open>hex.DecodeString\<close>, and the standard base64 encoding with padding. \<open>Atoi\<close> reads an optional sign
  and digits and rejects what does not fit 64 bits. The base64 decoder skips carriage returns and line feeds
  everywhere, accepts padding only at the end, and does not check the unused bits of the last
  digit. The lemmas show that each reader undoes its writer.
\<close>

subsection \<open>Decimal notation\<close>

fun decimal_nat :: "nat \<Rightarrow> bytes" where
  "decimal_nat n = (if n < 10 then [of_nat (48 + n)] else decimal_nat (n div 10) @ [of_nat (48 + n mod 10)])"

declare decimal_nat.simps [simp del]

definition decimal :: "int \<Rightarrow> bytes" where
  "decimal i = (if i < 0 then str ''-'' @ decimal_nat (nat (- i)) else decimal_nat (nat i))"

definition digit_val :: "byte \<Rightarrow> nat option" where
  "digit_val b = (if 48 \<le> b \<and> b \<le> 57 then Some (unat b - 48) else None)"

fun digits_val :: "nat \<Rightarrow> bytes \<Rightarrow> nat option" where
  "digits_val acc [] = Some acc"
| "digits_val acc (b # bs) =
     (case digit_val b of None \<Rightarrow> None | Some d \<Rightarrow> digits_val (10 * acc + d) bs)"

definition Atoi :: "bytes \<Rightarrow> int outcome" where
  "Atoi s =
     (let neg = (take 1 s = str ''-'');
          ds = (if take 1 s = str ''-'' \<or> take 1 s = str ''+'' then drop 1 s else s)
      in if ds = [] then Err ''invalid syntax''
         else case digits_val 0 ds of
           None \<Rightarrow> Err ''invalid syntax''
         | Some n \<Rightarrow>
             let i = (if neg then - int n else int n)
             in if - (2 ^ 63) \<le> i \<and> i < 2 ^ 63 then Ok i else Err ''value out of range'')"

lemma digit_byte: "d < 10 \<Longrightarrow> digit_val (of_nat (48 + d)) = Some d"
  by (simp add: digit_val_def word_le_nat_alt unat_of_nat del: of_nat_add)

lemma digits_val_append:
  "digits_val acc (xs @ ys) = (case digits_val acc xs of None \<Rightarrow> None | Some n \<Rightarrow> digits_val n ys)"
  by (induction xs arbitrary: acc) (auto split: option.splits)

lemma digits_val_decimal_nat: "digits_val 0 (decimal_nat n) = Some n"
proof (induction n rule: decimal_nat.induct)
  case (1 n)
  show ?case
  proof (cases "n < 10")
    case True
    then show ?thesis by (subst decimal_nat.simps) (simp add: digit_byte del: of_nat_add)
  next
    case False
    with "1" have ih: "digits_val 0 (decimal_nat (n div 10)) = Some (n div 10)" by simp
    have dec: "decimal_nat n = decimal_nat (n div 10) @ [of_nat (48 + n mod 10)]"
      using False by (subst decimal_nat.simps) (simp del: of_nat_add)
    have "digit_val (of_nat (48 + n mod 10)) = Some (n mod 10)" by (rule digit_byte) simp
    then show ?thesis
      unfolding dec digits_val_append ih by (simp del: of_nat_add)
  qed
qed

lemma decimal_nat_digits: "b \<in> set (decimal_nat n) \<Longrightarrow> 48 \<le> b \<and> b \<le> 57"
proof (induction n rule: decimal_nat.induct)
  case (1 n)
  have d: "48 \<le> (of_nat (48 + d) :: byte) \<and> (of_nat (48 + d) :: byte) \<le> 57" if "d < 10" for d
    using that by (simp add: word_le_nat_alt unat_of_nat del: of_nat_add)
  from "1.prems" show ?case
    by (subst (asm) decimal_nat.simps) (use "1.IH" d in \<open>auto split: if_splits simp del: of_nat_add\<close>)
qed

lemma decimal_nat_not_Nil [simp]: "decimal_nat n \<noteq> []"
  by (subst decimal_nat.simps) simp

lemma Atoi_decimal: "- (2 ^ 63) \<le> i \<Longrightarrow> i < 2 ^ 63 \<Longrightarrow> Atoi (decimal i) = Ok i"
proof -
  assume i: "- (2 ^ 63) \<le> i" "i < 2 ^ 63"
  obtain b bs where d: "decimal_nat (nat (if i < 0 then - i else i)) = b # bs"
    by (metis decimal_nat_not_Nil neq_Nil_conv)
  then have "48 \<le> b" using decimal_nat_digits by (metis list.set_intros(1))
  then have sign: "[b] \<noteq> str ''-''" "[b] \<noteq> str ''+''" by (auto simp: str_def)
  show ?thesis
  proof (cases "i < 0")
    case True
    have s: "decimal i = 45 # decimal_nat (nat (- i))" using True by (simp add: decimal_def str_def)
    show ?thesis unfolding Atoi_def s using i True by (simp add: digits_val_decimal_nat str_def)
  next
    case False
    with d sign have s: "decimal i = decimal_nat (nat i)" "take 1 (decimal_nat (nat i)) \<noteq> str ''-''"
      "take 1 (decimal_nat (nat i)) \<noteq> str ''+''" by (simp_all add: decimal_def)
    show ?thesis unfolding Atoi_def s(1) using i False s by (simp add: digits_val_decimal_nat Let_def)
  qed
qed

subsection \<open>Suffixes\<close>

definition ends_with :: "bytes \<Rightarrow> bytes \<Rightarrow> bool" where
  "ends_with s suffix \<longleftrightarrow> length suffix \<le> length s \<and> drop (length s - length suffix) s = suffix"

definition TrimSuffix :: "bytes \<Rightarrow> bytes \<Rightarrow> bytes" where
  "TrimSuffix s suffix = (if ends_with s suffix then take (length s - length suffix) s else s)"

lemma ends_with_append [simp]: "ends_with (s @ t) t"
  by (simp add: ends_with_def)

lemma TrimSuffix_append [simp]: "TrimSuffix (s @ t) t = s"
  by (simp add: TrimSuffix_def)

lemma TrimSuffix_eq: "ends_with s t \<Longrightarrow> TrimSuffix s t @ t = s"
  by (simp add: TrimSuffix_def ends_with_def) (metis append_take_drop_id)

subsection \<open>Hexadecimal\<close>

definition hex_val :: "byte \<Rightarrow> nat option" where
  "hex_val b =
     (if 48 \<le> b \<and> b \<le> 57 then Some (unat b - 48)
      else if 97 \<le> b \<and> b \<le> 102 then Some (unat b - 87)
      else if 65 \<le> b \<and> b \<le> 70 then Some (unat b - 55)
      else None)"

fun hex_DecodeString :: "bytes \<Rightarrow> bytes outcome" where
  "hex_DecodeString [] = Ok []"
| "hex_DecodeString [a] = (case hex_val a of None \<Rightarrow> Err ''invalid byte'' | Some _ \<Rightarrow> Err ''odd length hex string'')"
| "hex_DecodeString (a # b # s) =
     (case (hex_val a, hex_val b) of
        (Some x, Some y) \<Rightarrow> obind (hex_DecodeString s) (\<lambda>bs. Ok (of_nat (16 * x + y) # bs))
      | _ \<Rightarrow> Err ''invalid byte'')"

lemma hex_val_digit: "n < 16 \<Longrightarrow> hex_val (hex_digit n) = Some n"
proof -
  have "\<forall>n \<in> set [0..<16]. hex_val (hex_digit n) = Some n"
    unfolding hex_val_def hex_digit_def by code_simp
  then show "n < 16 \<Longrightarrow> hex_val (hex_digit n) = Some n" by simp
qed

lemma hex_DecodeString_Encode: "hex_DecodeString (hex_EncodeToString bs) = Ok bs"
proof (induction bs)
  case (Cons b bs)
  have n: "unat b div 16 < 16" "unat b mod 16 < 16" using unat_byte_less [of b] by linarith+
  have "of_nat (16 * (unat b div 16) + unat b mod 16) = b" by (simp only: mult_div_mod_eq unsigned_of_nat of_nat_unat ucast_id)
  with Cons n show ?case by (simp add: hex_EncodeToString_def hex_val_digit)
qed (simp add: hex_EncodeToString_def)

subsection \<open>Base64\<close>

definition b64_char :: "nat \<Rightarrow> byte" where
  "b64_char n =
     (if n < 26 then of_nat (65 + n) else if n < 52 then of_nat (71 + n) else if n < 62 then of_nat (n - 4)
      else if n = 62 then 43 else 47)"

definition b64_val :: "byte \<Rightarrow> nat option" where
  "b64_val b =
     (if 65 \<le> b \<and> b \<le> 90 then Some (unat b - 65)
      else if 97 \<le> b \<and> b \<le> 122 then Some (unat b - 71)
      else if 48 \<le> b \<and> b \<le> 57 then Some (unat b + 4)
      else if b = 43 then Some 62 else if b = 47 then Some 63 else None)"

abbreviation pad :: byte where "pad \<equiv> 61"

text \<open>The digits are A--Z, a--z, 0--9, + and /. Groups of three bytes become four digits of six bits; a shorter last group is padded.\<close>

fun b64_EncodeToString :: "bytes \<Rightarrow> bytes" where
  "b64_EncodeToString [] = []"
| "b64_EncodeToString [a] = [b64_char (unat a div 4), b64_char (unat a mod 4 * 16), pad, pad]"
| "b64_EncodeToString [a, b] =
     [b64_char (unat a div 4), b64_char (unat a mod 4 * 16 + unat b div 16), b64_char (unat b mod 16 * 4), pad]"
| "b64_EncodeToString (a # b # c # bs) =
     b64_char (unat a div 4) # b64_char (unat a mod 4 * 16 + unat b div 16) #
     b64_char (unat b mod 16 * 4 + unat c div 64) # b64_char (unat c mod 64) # b64_EncodeToString bs"

fun b64_quanta :: "bytes \<Rightarrow> bytes option" where
  "b64_quanta [] = Some []"
| "b64_quanta (w # x # y # z # rest) =
     (case (b64_val w, b64_val x) of
        (Some w, Some x) \<Rightarrow>
          if y = pad \<and> z = pad then if rest = [] then Some [of_nat (w * 4 + x div 16)] else None
          else (case b64_val y of
             None \<Rightarrow> None
           | Some y \<Rightarrow>
               if z = pad
               then if rest = [] then Some [of_nat (w * 4 + x div 16), of_nat (x mod 16 * 16 + y div 4)] else None
               else (case (b64_val z, b64_quanta rest) of
                  (Some z, Some bs) \<Rightarrow>
                    Some (of_nat (w * 4 + x div 16) # of_nat (x mod 16 * 16 + y div 4) # of_nat (y mod 4 * 64 + z) # bs)
                | _ \<Rightarrow> None))
      | _ \<Rightarrow> None)"
| "b64_quanta _ = None"

definition b64_DecodeString :: "bytes \<Rightarrow> bytes outcome" where
  "b64_DecodeString s =
     (case b64_quanta (filter (\<lambda>c. c \<noteq> 10 \<and> c \<noteq> 13) s) of
        None \<Rightarrow> Err ''illegal base64 data''
      | Some bs \<Rightarrow> Ok bs)"

lemma b64_val_char [simp]: "n < 64 \<Longrightarrow> b64_val (b64_char n) = Some n"
  by (auto simp: b64_val_def b64_char_def word_le_nat_alt unat_of_nat word_unat_eq_iff simp del: of_nat_add of_nat_diff)

lemma b64_char_not:
  assumes "n < 64"
  shows "b64_char n \<noteq> pad" "b64_char n \<noteq> 10" "b64_char n \<noteq> 13"
  using b64_val_char [OF assms] by (auto simp: b64_val_def)

declare b64_char_not [simp]

lemma sextets [simp]:
  "unat (a :: byte) div 4 < 64" "unat a mod 4 * 16 < 64" "unat a mod 4 * 16 + unat (b :: byte) div 16 < 64"
  "unat b mod 16 * 4 < 64" "unat b mod 16 * 4 + unat (c :: byte) div 64 < 64" "unat c mod 64 < 64"
proof -
  have "unat a mod 4 < 4" "unat b mod 16 < 16" "unat b div 16 < 16" "unat c div 64 < 4" "unat a div 4 < 64"
    using unat_byte_less [of a] unat_byte_less [of b] unat_byte_less [of c]
    by (simp_all add: less_mult_imp_div_less)
  then show "unat a div 4 < 64" "unat a mod 4 * 16 < 64" "unat a mod 4 * 16 + unat b div 16 < 64"
    "unat b mod 16 * 4 < 64" "unat b mod 16 * 4 + unat c div 64 < 64" "unat c mod 64 < 64" by linarith+
qed

lemma high_bits [simp]:
  "unat (b :: byte) div 16 div 16 = 0" "unat b div 16 mod 16 = unat b div 16"
  "unat b div 64 div 4 = 0" "unat b div 64 mod 4 = unat b div 64"
  using unat_byte_less [of b] by (simp_all add: less_mult_imp_div_less flip: div_mult2_eq)

lemma b64_no_newline: "c \<in> set (b64_EncodeToString bs) \<Longrightarrow> c \<noteq> 10 \<and> c \<noteq> 13"
  by (induction bs rule: b64_EncodeToString.induct) (auto simp del: of_nat_add)

lemma b64_quanta_Encode: "b64_quanta (b64_EncodeToString bs) = Some bs"
  by (induction bs rule: b64_EncodeToString.induct) (simp_all del: of_nat_add of_nat_mult)

lemma b64_DecodeString_Encode: "b64_DecodeString (b64_EncodeToString bs) = Ok bs"
proof -
  have "filter (\<lambda>c. c \<noteq> 10 \<and> c \<noteq> 13) (b64_EncodeToString bs) = b64_EncodeToString bs"
    using b64_no_newline by (simp add: filter_id_conv)
  then show ?thesis by (simp add: b64_DecodeString_def b64_quanta_Encode)
qed

end
