(* ===== verification/Scheduler.thy ===== *)
theory Scheduler
  imports Task_Codec Go_Encodings
begin

text \<open>
  The scheduler (\<open>src/scheduler/scheduler.go\<close>, \<open>task.go\<close>, \<open>events.go\<close>, \<open>job_parser.go\<close>): its state and the event loop.
  \<^item> All state is changed by \<open>handleEvent\<close>, one event after the other. The tasks and jobs are maps from
    identifiers to records; the pointers of the code are shared only between these maps and the event, so
    the records are stored by value. A response channel is a number, and \<open>responses\<close> is the log of what was sent to
    response channels, each of capacity 1.
  \<^item> \<open>sched_env\<close> is what an event sees of its surroundings: the time (nanoseconds since Go's zero time, which is 0),
    which contexts are done, the orders in which Go happens to iterate the two maps, random jitter, errors of the
    file system, and the planner that runs WebAssembly. One time stands for all calls of \<open>time.Now\<close> while one event is handled, that is, handling an event takes no
    time. New identifiers are taken to be random and new response channels to be new (\<open>event_ok\<close>).
  \<^item> A send to a full channel is the value \<open>Blocks\<close>: nobody but the event loop itself receives from
    \<open>batchTasks\<close>, so the loop then stands still for ever.
  \<^item> \<open>stats\<close> is the log of the calls to the statistics interface. The job directory is a sorted list of files.
  Logging is left out.
\<close>

datatype TaskState = StatePending | StateRunning | StateDone

definition TaskState_String :: "TaskState \<Rightarrow> bytes" where
  "TaskState_String ts =
     (case ts of StatePending \<Rightarrow> str ''PENDING'' | StateRunning \<Rightarrow> str ''RUNNING'' | StateDone \<Rightarrow> str ''DONE'')"

record TaskDescription =
  td_ID :: NodeId
  td_JobID :: NodeId
  td_Name :: bytes
  td_Topic :: bytes
  td_Type :: bytes
  td_State :: TaskState
  td_Binary :: bytes
  ChunkID :: int
  td_Stdin :: bytes
  Metadata :: bytes
  LeaseUntil :: int
  BackoffUntil :: int
  EnqueuedAt :: int
  DispatchedAt :: int
  DoneAt :: int
  Attempts :: int
  Queued :: bool

record JobDescription =
  jd_ID :: NodeId
  jd_Name :: bytes
  jd_Binary :: bytes
  MergerBinary :: bytes
  InputFile :: bytes
  TasksDone :: int
  TasksTotal :: int
  jd_Type :: bytes
  jd_Topic :: bytes
  TargetTags :: "bytes list"

definition TypeBatch :: bytes where "TypeBatch = str ''batch''"
definition TypeStream :: bytes where "TypeStream = str ''stream''"

record leaseRequest =
  responseChan :: nat
  lr_request :: Task

record leaseResponse =
  payload :: bytes
  lr_err :: "string option"

datatype stat_call = IncEnqueued | IncAssigned | IncCompleted | IncDispatchFailed
  | ObserveQueueWait int | ObserveTaskRunDuration int

datatype Event =
    EventTick
  | EventJobSubmitted JobDescription "TaskDescription list"
  | EventTaskDispatchFailed NodeId
  | EventTaskDone NodeId bytes
  | EventJobDone NodeId
  | EventLeaseRequest leaseRequest

record Scheduler =
  Jobs :: "NodeId \<rightharpoonup> JobDescription"
  Tasks :: "NodeId \<rightharpoonup> TaskDescription"
  pendingLeaseRequests :: "leaseRequest list"
  batchTasks :: "NodeId list"
  streamTasks :: "NodeId \<rightharpoonup> JobDescription"
  responses :: "(nat \<times> leaseResponse) list"
  stats :: "stat_call list"
  job_dir :: "NodeId \<Rightarrow> (bytes \<times> bytes) list"

definition taskQueueSize :: nat where "taskQueueSize = 1024"
definition taskTTLSeconds :: int where "taskTTLSeconds = 10"
definition eventLoopBufferSize :: nat where "eventLoopBufferSize = 1024"
definition Second :: int where "Second = 1000000000"

record sched_env =
  now :: int
  ctx_done :: "nat \<Rightarrow> bool"
  lease_expired :: "nat \<Rightarrow> bool"
  task_order :: "NodeId list"
  stream_order :: "NodeId list"
  rand_Int64N :: "int \<Rightarrow> int"
  write_err :: "NodeId \<Rightarrow> bytes \<Rightarrow> string option"
  dir_err :: "NodeId \<Rightarrow> string option"
  planner :: "bytes \<Rightarrow> bytes \<Rightarrow> bytes outcome"

definition NewScheduler :: Scheduler where
  "NewScheduler =
     \<lparr>Jobs = Map.empty, Tasks = Map.empty, pendingLeaseRequests = [], batchTasks = [],
      streamTasks = Map.empty, responses = [], stats = [], job_dir = \<lambda>_. []\<rparr>"

datatype 'a progress = Runs 'a | Blocks | Crashes

type_synonym sched_result = "(Scheduler \<times> string option) progress"

abbreviation set_task :: "NodeId \<Rightarrow> TaskDescription \<Rightarrow> Scheduler \<Rightarrow> Scheduler" where
  "set_task i t s \<equiv> s\<lparr>Tasks := (Tasks s)(i \<mapsto> t)\<rparr>"

text \<open>A send to the response channel of a request, and a call of the statistics.\<close>

definition send_response :: "nat \<Rightarrow> leaseResponse \<Rightarrow> Scheduler \<Rightarrow> Scheduler" where
  "send_response ch r s = s\<lparr>responses := responses s @ [(ch, r)]\<rparr>"

definition add_stat :: "stat_call \<Rightarrow> Scheduler \<Rightarrow> Scheduler" where
  "add_stat c s = s\<lparr>stats := stats s @ [c]\<rparr>"

subsection \<open>Files of a job\<close>

text \<open>\<open>os.WriteFile\<close> in a directory that \<open>os.ReadDir\<close> lists in the order of names.\<close>

fun write_file :: "bytes \<Rightarrow> bytes \<Rightarrow> (bytes \<times> bytes) list \<Rightarrow> (bytes \<times> bytes) list" where
  "write_file name content [] = [(name, content)]"
| "write_file name content ((n, c) # fs) =
     (if name = n then (name, content) # fs
      else if name < n then (name, content) # (n, c) # fs
      else (n, c) # write_file name content fs)"

definition chunk_file :: "int \<Rightarrow> bytes" where
  "chunk_file i = decimal i @ str ''.json''"

text \<open>The reducer's input: every result file, trimmed, on a line of its own.\<close>

definition ndjson :: "(bytes \<times> bytes) list \<Rightarrow> bytes" where
  "ndjson files =
     concat (map (\<lambda>(name, b).
       if name = str ''plan.json'' \<or> ends_with name (str ''.wasm'') then []
       else let b = TrimSpace b in if length b = 0 then [] else b @ [10]) files)"

definition markJobDone :: "sched_env \<Rightarrow> Scheduler \<Rightarrow> NodeId \<Rightarrow> sched_result" where
  "markJobDone e s jobID =
     (case Jobs s jobID of
        None \<Rightarrow> Runs (s, Some ''markJobDone: job not found'')
      | Some job \<Rightarrow>
          (case dir_err e jobID of
             Some err \<Rightarrow> Runs (s, Some err)
           | None \<Rightarrow>
               (case planner e (MergerBinary job) (ndjson (job_dir s jobID)) of
                  Panic \<Rightarrow> Crashes
                | Err err \<Rightarrow> Runs (s, Some err)
                | Ok res \<Rightarrow>
                    (case write_err e jobID (str ''output.json'') of
                       Some err \<Rightarrow> Runs (s, Some err)
                     | None \<Rightarrow>
                         Runs (s\<lparr>job_dir := (job_dir s)(jobID := write_file (str ''output.json'') res (job_dir s jobID))\<rparr>,
                           None)))))"

subsection \<open>The state of a task\<close>

text \<open>\<open>Time.Sub\<close> returns the nearest duration: a signed 64-bit number of nanoseconds.\<close>

definition time_Sub :: "int \<Rightarrow> int \<Rightarrow> int" where
  "time_Sub t u = max (- (2 ^ 63)) (min (2 ^ 63 - 1) (t - u))"

definition markTaskDispatched :: "sched_env \<Rightarrow> Scheduler \<Rightarrow> NodeId \<Rightarrow> Scheduler \<times> string option" where
  "markTaskDispatched e s taskID =
     (case Tasks s taskID of
        None \<Rightarrow> (s, Some ''markTaskDispatched: task not found'')
      | Some task \<Rightarrow>
          if td_State task = StateRunning then (s, None)
          else if td_State task = StateDone
          then (s, Some ''markTaskDispatched: cannot transition state from: DONE to RUNNING'')
          else
            let task = task\<lparr>Queued := False, td_State := StateRunning,
                  LeaseUntil := now e + Second * taskTTLSeconds, DispatchedAt := now e\<rparr>;
                s = set_task taskID task s;
                s = add_stat IncAssigned s;
                s = add_stat (ObserveQueueWait (time_Sub (DispatchedAt task) (EnqueuedAt task))) s
            in (s, None))"

definition markTaskDone :: "sched_env \<Rightarrow> Scheduler \<Rightarrow> NodeId \<Rightarrow> bytes \<Rightarrow> sched_result" where
  "markTaskDone e s taskID result =
     (case Tasks s taskID of
        None \<Rightarrow> Runs (s, Some ''markTaskDone: task not found'')
      | Some task \<Rightarrow>
          if td_State task = StateDone then Runs (s, None)
          else if td_State task = StatePending
          then Runs (s, Some ''markTaskDone: cannot transition state from: PENDING to DONE'')
          else case Jobs s (td_JobID task) of
            None \<Rightarrow> Runs (s, Some ''job does not exist'')
          | Some job \<Rightarrow>
              (case write_err e (td_JobID task) (chunk_file (ChunkID task)) of
                 Some err \<Rightarrow> Runs (s, Some err)
               | None \<Rightarrow>
                   let s = s\<lparr>job_dir := (job_dir s)(td_JobID task :=
                             write_file (chunk_file (ChunkID task)) result (job_dir s (td_JobID task)))\<rparr>;
                       task = task\<lparr>td_State := StateDone, Queued := False, BackoffUntil := 0, LeaseUntil := 0,
                                   DoneAt := now e\<rparr>;
                       s = set_task taskID task s;
                       job = job\<lparr>TasksDone := TasksDone job + 1\<rparr>;
                       s = s\<lparr>Jobs := (Jobs s)(td_JobID task \<mapsto> job)\<rparr>;
                       s = add_stat IncCompleted s;
                       s = add_stat (ObserveTaskRunDuration (time_Sub (DoneAt task) (DispatchedAt task))) s
                   in if TasksDone job = TasksTotal job
                      then (case markJobDone e s (jd_ID job) of
                              Runs (s, _) \<Rightarrow> Runs (s, None) | Blocks \<Rightarrow> Blocks | Crashes \<Rightarrow> Crashes)
                      else Runs (s, None)))"

text \<open>
  \<open>calculateBackoffUntil\<close>: Go multiplies signed 64-bit integers with wrap-around; \<open>rand.Int64N\<close> panics when its argument
  is not positive.
\<close>

definition calculateBackoffUntil :: "sched_env \<Rightarrow> int \<Rightarrow> int outcome" where
  "calculateBackoffUntil e attempt =
     (let max = 10 * Second in
      if attempt \<le> 0 then Ok Second
      else if attempt \<ge> 63 then Ok max
      else
        let base = sint (of_int Second * push_bit (nat attempt) 1 :: u64);
            base = min base max
        in if base \<le> 0 then Panic else Ok (rand_Int64N e base))"

definition markTaskDispatchFailed :: "sched_env \<Rightarrow> Scheduler \<Rightarrow> NodeId \<Rightarrow> sched_result" where
  "markTaskDispatchFailed e s taskID =
     (case Tasks s taskID of
        None \<Rightarrow> Runs (s, Some ''markTaskDispatchFailed: task not found'')
      | Some task \<Rightarrow>
          if td_State task = StatePending then Runs (s, None)
          else if td_State task = StateDone
          then Runs (s, Some ''markTaskDispatchFailed: cannot transition state from: DONE to PENDING'')
          else
            let task = task\<lparr>td_State := StatePending, Attempts := Attempts task + 1\<rparr> in
            case calculateBackoffUntil e (Attempts task) of
              Ok d \<Rightarrow>
                let task = task\<lparr>BackoffUntil := now e + d, LeaseUntil := 0, Queued := False\<rparr>
                in Runs (add_stat IncDispatchFailed (set_task taskID task s), None)
            | _ \<Rightarrow> Crashes)"

definition response_task :: "TaskDescription \<Rightarrow> JobDescription \<Rightarrow> Task" where
  "response_task task job =
     \<lparr>task_OpCode = LeaseResponse, TaskID = td_ID task, JobID = td_JobID task, Type = td_Type task,
      Topic = td_Topic task, task_RequestMode = 0, Binary = jd_Binary job, TTL = 0, Result = [],
      Stdin = td_Stdin task, Capabilities = [], Tags = []\<rparr>"

text \<open>The loop over the pending requests: \<open>None\<close> when all of them have expired.\<close>

fun serve_pending :: "sched_env \<Rightarrow> leaseRequest list \<Rightarrow> (leaseRequest \<times> leaseRequest list) option" where
  "serve_pending e [] = None"
| "serve_pending e (pendingLease # rest) =
     (if lease_expired e (responseChan pendingLease) then serve_pending e rest
      else Some (pendingLease, rest))"

definition push_task :: "sched_env \<Rightarrow> NodeId \<Rightarrow> Scheduler \<Rightarrow> sched_result" where
  "push_task e taskID s =
     (if length (batchTasks s) < taskQueueSize then
        let s = s\<lparr>batchTasks := batchTasks s @ [taskID],
                  Tasks := (Tasks s)(taskID := map_option (\<lambda>t. t\<lparr>EnqueuedAt := now e\<rparr>) (Tasks s taskID))\<rparr>
        in Runs (add_stat IncEnqueued s, None)
      else Blocks)"

definition enqueueTask :: "sched_env \<Rightarrow> Scheduler \<Rightarrow> NodeId \<Rightarrow> sched_result" where
  "enqueueTask e s taskID =
     (case Tasks s taskID of
        None \<Rightarrow> Runs (s, Some ''enqueueTask: task not found'')
      | Some task \<Rightarrow>
          if Queued task then Runs (s, None)
          else if td_State task = StateDone
          then Runs (s, Some ''enqueueTask: cannot transition state from: DONE to PENDING'')
          else if LeaseUntil task < now e \<and> \<not> Queued task \<and> BackoffUntil task < now e then
            let task = task\<lparr>td_State := StatePending, Queued := True\<rparr>;
                s = set_task taskID task s
            in if length (pendingLeaseRequests s) > 0 then
                 (case Jobs s (td_JobID task) of
                    None \<Rightarrow> Runs (s, Some ''enqueueTask: job not found'')
                  | Some job \<Rightarrow>
                      (case serve_pending e (pendingLeaseRequests s) of
                         Some (pendingLease, rest) \<Rightarrow>
                           let s = s\<lparr>pendingLeaseRequests := rest\<rparr>;
                               s = fst (markTaskDispatched e s (td_ID task))
                           in Runs (send_response (responseChan pendingLease)
                                \<lparr>payload = EncodeTask ((response_task task job)\<lparr>TaskID := taskID\<rparr>), lr_err = None\<rparr> s, None)
                       | None \<Rightarrow> push_task e taskID (s\<lparr>pendingLeaseRequests := []\<rparr>)))
               else push_task e taskID s
          else Runs (s, None))"

subsection \<open>The event loop\<close>

text \<open>The loop over the tasks of a tick; an error ends it.\<close>

fun tick_tasks :: "sched_env \<Rightarrow> NodeId list \<Rightarrow> Scheduler \<Rightarrow> sched_result" where
  "tick_tasks e [] s = Runs (s, None)"
| "tick_tasks e (taskID # order) s =
     (case Tasks s taskID of
        None \<Rightarrow> tick_tasks e order s
      | Some task \<Rightarrow>
          if LeaseUntil task > now e then tick_tasks e order s
          else if td_State task = StateDone then tick_tasks e order s
          else case enqueueTask e s taskID of
            Runs (s, None) \<Rightarrow> tick_tasks e order s
          | Runs (s, Some _) \<Rightarrow> Runs (s, None)
          | Blocks \<Rightarrow> Blocks
          | Crashes \<Rightarrow> Crashes)"

definition handle_tick :: "sched_env \<Rightarrow> Scheduler \<Rightarrow> sched_result" where
  "handle_tick e s =
     (let s = s\<lparr>pendingLeaseRequests :=
            filter (\<lambda>req. \<not> lease_expired e (responseChan req)) (pendingLeaseRequests s)\<rparr>
      in tick_tasks e (task_order e) s)"

definition stream_task :: "JobDescription \<Rightarrow> Task" where
  "stream_task desc =
     \<lparr>task_OpCode = LeaseResponse, TaskID = zero_id, JobID = jd_ID desc, Type = TaskTypeStream,
      Topic = jd_Topic desc, task_RequestMode = 0, Binary = jd_Binary desc, TTL = 0, Result = [],
      Stdin = [], Capabilities = [], Tags = []\<rparr>"

definition handle_lease :: "sched_env \<Rightarrow> Scheduler \<Rightarrow> leaseRequest \<Rightarrow> Scheduler \<times> string option" where
  "handle_lease e s request =
     (case batchTasks s of
        taskID # rest \<Rightarrow>
          let s = s\<lparr>batchTasks := rest\<rparr> in
          (case Tasks s taskID of
             None \<Rightarrow> (send_response (responseChan request) \<lparr>payload = [], lr_err = Some ''task not found''\<rparr> s, None)
           | Some task \<Rightarrow>
               (case Jobs s (td_JobID task) of
                  None \<Rightarrow> (send_response (responseChan request) \<lparr>payload = [], lr_err = Some ''job not found''\<rparr> s, None)
                | Some job \<Rightarrow>
                    let s = fst (markTaskDispatched e s taskID);
                        responseTask = (response_task task job)\<lparr>TaskID := taskID\<rparr>
                    in (send_response (responseChan request) \<lparr>payload = EncodeTask responseTask, lr_err = None\<rparr> s, None)))
      | [] \<Rightarrow>
          if task_RequestMode (lr_request request) = RequestModeNeedBatch
          then (s\<lparr>pendingLeaseRequests := pendingLeaseRequests s @ [request]\<rparr>, None)
          else
            (case List.find (\<lambda>j. case streamTasks s j of
                    None \<Rightarrow> False
                  | Some desc \<Rightarrow> list_ex (\<lambda>tag. tag \<in> set (Tags (lr_request request))) (TargetTags desc))
                (stream_order e) of
               None \<Rightarrow> (s, None)
             | Some j \<Rightarrow>
                 (send_response (responseChan request)
                    \<lparr>payload = EncodeTask (stream_task (the (streamTasks s j))), lr_err = None\<rparr> s, None)))"

fun submit_tasks :: "sched_env \<Rightarrow> nat \<Rightarrow> TaskDescription list \<Rightarrow> Scheduler \<Rightarrow> sched_result" where
  "submit_tasks e i [] s = Runs (s, None)"
| "submit_tasks e i (task # tasks) s =
     (if ctx_done e i then Runs (s, None)
      else
        let s = set_task (td_ID task) task s in
        case enqueueTask e s (td_ID task) of
          Runs (s, None) \<Rightarrow> submit_tasks e (i + 1) tasks s
        | Runs (s, Some _) \<Rightarrow> Runs (s, None)
        | Blocks \<Rightarrow> Blocks
        | Crashes \<Rightarrow> Crashes)"

definition handle_submit :: "sched_env \<Rightarrow> Scheduler \<Rightarrow> JobDescription \<Rightarrow> TaskDescription list \<Rightarrow> sched_result" where
  "handle_submit e s job tasks =
     (if Jobs s (jd_ID job) \<noteq> None then Runs (s, Some ''job already exists'')
      else
        let s = s\<lparr>Jobs := (Jobs s)(jd_ID job \<mapsto> job)\<rparr> in
        if jd_Type job = TypeStream then Runs (s\<lparr>streamTasks := (streamTasks s)(jd_ID job \<mapsto> job)\<rparr>, None)
        else if jd_Type job = TypeBatch then submit_tasks e 1 tasks s
        else Runs (s, Some ''unsupported job type''))"

definition handleEvent :: "sched_env \<Rightarrow> Scheduler \<Rightarrow> Event \<Rightarrow> sched_result" where
  "handleEvent e s event =
     (if ctx_done e 0 then Runs (s, Some ''context canceled'')
      else case event of
        EventTick \<Rightarrow> handle_tick e s
      | EventLeaseRequest request \<Rightarrow> Runs (handle_lease e s request)
      | EventJobSubmitted job tasks \<Rightarrow> handle_submit e s job tasks
      | EventJobDone jobID \<Rightarrow> markJobDone e s jobID
      | EventTaskDispatchFailed taskID \<Rightarrow>
          (case markTaskDispatchFailed e s taskID of
             Runs (s, _) \<Rightarrow> Runs (s, None) | Blocks \<Rightarrow> Blocks | Crashes \<Rightarrow> Crashes)
      | EventTaskDone taskID result \<Rightarrow> markTaskDone e s taskID result)"

subsection \<open>The invariant\<close>

text \<open>
  The tasks are stored under their own identifiers and belong to known jobs; the queue holds exactly the tasks marked
  as queued, each once and all pending; it never exceeds its capacity; no lease request waits while a
  task is queued; and no response channel is used twice.
\<close>

definition tasks_ok :: "(NodeId \<rightharpoonup> JobDescription) \<Rightarrow> (NodeId \<rightharpoonup> TaskDescription) \<Rightarrow> NodeId list \<Rightarrow> bool" where
  "tasks_ok jobs tasks queue \<longleftrightarrow>
     (\<forall>i t. tasks i = Some t \<longrightarrow> td_ID t = i \<and> jobs (td_JobID t) \<noteq> None \<and> (Queued t \<longrightarrow> td_State t = StatePending)) \<and>
     distinct queue \<and> (\<forall>i. i \<in> set queue \<longleftrightarrow> (\<exists>t. tasks i = Some t \<and> Queued t))"

definition leases_ok :: "leaseRequest list \<Rightarrow> NodeId list \<Rightarrow> (nat \<times> leaseResponse) list \<Rightarrow> bool" where
  "leases_ok pend queue resp \<longleftrightarrow>
     (pend \<noteq> [] \<longrightarrow> queue = []) \<and> length queue \<le> taskQueueSize \<and>
     distinct (map responseChan pend @ map fst resp)"

definition sched_inv :: "Scheduler \<Rightarrow> bool" where
  "sched_inv s \<longleftrightarrow> (\<forall>j job. Jobs s j = Some job \<longrightarrow> jd_ID job = j) \<and>
     tasks_ok (Jobs s) (Tasks s) (batchTasks s) \<and>
     leases_ok (pendingLeaseRequests s) (batchTasks s) (responses s)"

definition event_ok :: "Scheduler \<Rightarrow> Event \<Rightarrow> bool" where
  "event_ok s ev \<longleftrightarrow>
     (case ev of
        EventJobSubmitted job tasks \<Rightarrow>
          distinct (map td_ID tasks) \<and>
          list_all (\<lambda>t. td_JobID t = jd_ID job \<and> \<not> Queued t \<and> td_State t = StatePending \<and> Tasks s (td_ID t) = None) tasks
      | EventLeaseRequest r \<Rightarrow>
          responseChan r \<notin> set (map responseChan (pendingLeaseRequests s) @ map fst (responses s))
      | _ \<Rightarrow> True)"

text \<open>
  A step of the scheduler is an event; between events, \<open>RegisterJob\<close>, which runs in another goroutine, may write files into the
  directory of a job that is not yet submitted.
\<close>

inductive sched_step :: "Scheduler \<Rightarrow> Scheduler \<Rightarrow> bool" where
  sched_event: "event_ok s ev \<Longrightarrow> handleEvent e s ev = Runs (s', err) \<Longrightarrow> sched_step s s'"
| sched_register: "Jobs s j = None \<Longrightarrow> sched_step s (s\<lparr>job_dir := (job_dir s)(j := files)\<rparr>)"

inductive_cases sched_stepE: "sched_step s s'"

lemma tasks_ok_queued:
  "tasks_ok jobs tasks queue \<Longrightarrow> tasks i = Some t \<Longrightarrow> Queued t \<longleftrightarrow> i \<in> set queue"
  by (auto simp: tasks_ok_def)

lemma tasks_ok_set_plain:
  assumes "tasks_ok jobs tasks queue" "i \<notin> set queue" "td_ID t = i" "jobs (td_JobID t) \<noteq> None" "\<not> Queued t"
  shows "tasks_ok jobs (tasks(i \<mapsto> t)) queue"
  using assms by (auto simp: tasks_ok_def)

lemma tasks_ok_push:
  assumes "tasks_ok jobs tasks queue" "i \<notin> set queue" "td_ID t = i" "jobs (td_JobID t) \<noteq> None" "Queued t"
    "td_State t = StatePending"
  shows "tasks_ok jobs (tasks(i \<mapsto> t)) (queue @ [i])"
  using assms by (auto simp: tasks_ok_def)

lemma tasks_ok_pop:
  assumes "tasks_ok jobs tasks (i # queue)" "td_ID t = i" "jobs (td_JobID t) \<noteq> None" "\<not> Queued t"
  shows "tasks_ok jobs (tasks(i \<mapsto> t)) queue"
proof -
  have d: "i \<notin> set queue" "distinct queue" using assms(1) by (auto simp: tasks_ok_def)
  have "j \<in> set queue \<longleftrightarrow> (\<exists>u. (tasks(i \<mapsto> t)) j = Some u \<and> Queued u)" for j
  proof (cases "j = i")
    case False
    then have "j \<in> set queue \<longleftrightarrow> j \<in> set (i # queue)" by simp
    also have "\<dots> \<longleftrightarrow> (\<exists>u. tasks j = Some u \<and> Queued u)" using assms(1) by (simp add: tasks_ok_def)
    finally show ?thesis using False by simp
  qed (use d assms(4) in simp)
  with d assms show ?thesis by (auto simp: tasks_ok_def)
qed

lemma tasks_ok_jobs:
  "tasks_ok jobs tasks queue \<Longrightarrow> dom jobs \<subseteq> dom jobs' \<Longrightarrow> tasks_ok jobs' tasks queue"
  unfolding tasks_ok_def by (blast intro: domI)

lemma tasks_ok_fields:
  assumes "tasks_ok jobs tasks queue" "tasks i = Some t"
  shows "td_ID t = i" "\<exists>job. jobs (td_JobID t) = Some job" "Queued t \<longrightarrow> td_State t = StatePending"
  using assms by (auto simp: tasks_ok_def)

lemma serve_pending_Some:
  "serve_pending e p = Some (r, rest) \<Longrightarrow>
     (\<exists>gone. p = gone @ r # rest \<and> (\<forall>x \<in> set gone. lease_expired e (responseChan x))) \<and> \<not> lease_expired e (responseChan r)"
proof (induction p)
  case (Cons x p)
  then show ?case
  proof (cases "lease_expired e (responseChan x)")
    case True
    with Cons obtain gone where "p = gone @ r # rest" "\<forall>x \<in> set gone. lease_expired e (responseChan x)"
      "\<not> lease_expired e (responseChan r)" by auto
    with True show ?thesis by (intro conjI exI [of _ "x # gone"]) auto
  next
    case False
    with Cons show ?thesis by (intro conjI exI [of _ "[]"]) auto
  qed
qed simp

lemma serve_pending_None: "serve_pending e p = None \<longleftrightarrow> (\<forall>r \<in> set p. lease_expired e (responseChan r))"
  by (induction p) auto

subsection \<open>Operations on explicit states\<close>

definition dispatched :: "sched_env \<Rightarrow> TaskDescription \<Rightarrow> TaskDescription" where
  "dispatched e t = t\<lparr>Queued := False, td_State := StateRunning,
     LeaseUntil := now e + Second * taskTTLSeconds, DispatchedAt := now e\<rparr>"

lemma dispatched_simps [simp]:
  "td_ID (dispatched e t) = td_ID t" "td_JobID (dispatched e t) = td_JobID t" "\<not> Queued (dispatched e t)"
  "td_State (dispatched e t) = StateRunning" "LeaseUntil (dispatched e t) = now e + 10000000000"
  by (simp_all add: dispatched_def Second_def taskTTLSeconds_def)

lemma markTaskDispatched_pending:
  "Tasks s i = Some t \<Longrightarrow> td_State t = StatePending \<Longrightarrow>
     \<exists>st. fst (markTaskDispatched e s i) = s\<lparr>Tasks := (Tasks s)(i \<mapsto> dispatched e t), stats := st\<rparr>"
  by (simp add: markTaskDispatched_def Let_def add_stat_def dispatched_def) (rule exI, rule refl)

text \<open>What \<open>enqueueTask\<close> does, by cases: nothing, an answer to a waiting request, or a place in the queue.\<close>

lemma enqueueTask_cases:
  assumes "tasks_ok (Jobs s) (Tasks s) (batchTasks s)" "Tasks s i = Some t"
  obtains (queued) "Queued t" "enqueueTask e s i = Runs (s, None)"
  | (finished) "\<not> Queued t" "td_State t = StateDone" "\<exists>err. enqueueTask e s i = Runs (s, Some err)"
  | (early) "\<not> Queued t" "td_State t \<noteq> StateDone" "now e \<le> LeaseUntil t \<or> now e \<le> BackoffUntil t" "enqueueTask e s i = Runs (s, None)"
  | (answer) r gone rest st job where "\<not> Queued t" "td_State t \<noteq> StateDone" "Jobs s (td_JobID t) = Some job"
      "pendingLeaseRequests s = gone @ r # rest" "\<forall>x \<in> set gone. lease_expired e (responseChan x)"
      "\<not> lease_expired e (responseChan r)"
      "enqueueTask e s i = Runs (s\<lparr>Tasks := (Tasks s)(i \<mapsto> dispatched e t), pendingLeaseRequests := rest, stats := st,
         responses := responses s @ [(responseChan r, \<lparr>payload = EncodeTask (response_task t job), lr_err = None\<rparr>)]\<rparr>, None)"
  | (push) t' st where "\<not> Queued t" "td_State t \<noteq> StateDone" "\<forall>r \<in> set (pendingLeaseRequests s). lease_expired e (responseChan r)"
      "t' = t\<lparr>td_State := StatePending, Queued := True, EnqueuedAt := now e\<rparr>"
      "length (batchTasks s) < taskQueueSize"
      "enqueueTask e s i = Runs (s\<lparr>Tasks := (Tasks s)(i \<mapsto> t'), pendingLeaseRequests := [],
         batchTasks := batchTasks s @ [i], stats := st\<rparr>, None)"
  | (blocked) "\<not> Queued t" "td_State t \<noteq> StateDone" "length (batchTasks s) \<ge> taskQueueSize" "enqueueTask e s i = Blocks"
proof -
  note result = that
  let ?t = "t\<lparr>td_State := StatePending, Queued := True\<rparr>"
  let ?s = "set_task i ?t s"
  have i: "td_ID t = i" using tasks_ok_fields [OF assms] by simp
  consider "Queued t" | "\<not> Queued t" "td_State t = StateDone"
    | "\<not> Queued t" "td_State t \<noteq> StateDone" "now e \<le> LeaseUntil t \<or> now e \<le> BackoffUntil t"
    | (ready) "\<not> Queued t" "td_State t \<noteq> StateDone" "LeaseUntil t < now e" "BackoffUntil t < now e" by linarith
  then show thesis
  proof cases
    case ready
    have dis: "dispatched e ?t = dispatched e t" by (simp add: dispatched_def)
    have push: thesis if all: "\<forall>r \<in> set (pendingLeaseRequests s). lease_expired e (responseChan r)"
      and enq: "enqueueTask e s i = push_task e i (?s\<lparr>pendingLeaseRequests := []\<rparr>)"
    proof (cases "length (batchTasks s) < taskQueueSize")
      case True
      then show thesis
        using enq by (intro result(5) [where st = "stats s @ [IncEnqueued]", OF ready(1,2) all refl True]) (simp add: push_task_def add_stat_def Let_def)
    next
      case False
      with enq show thesis by (intro result(6) [OF ready(1,2)]) (simp_all add: push_task_def)
    qed
    show thesis
    proof (cases "pendingLeaseRequests s")
      case Nil
      then have same: "?s\<lparr>pendingLeaseRequests := []\<rparr> = ?s" by (cases s) simp
      show thesis
        using Nil assms(2) ready by (intro push) (simp_all only: same, simp_all add: enqueueTask_def Let_def)
    next
      case (Cons x xs)
      obtain job where job: "Jobs s (td_JobID t) = Some job" using tasks_ok_fields(2) [OF assms] by blast
      show thesis
      proof (cases "serve_pending e (pendingLeaseRequests s)")
        case None
        then show thesis
          using Cons job assms(2) ready serve_pending_None [of e "pendingLeaseRequests s"]
          by (intro push) (simp_all add: enqueueTask_def Let_def)
      next
        case (Some p)
        then obtain r rest where p: "serve_pending e (pendingLeaseRequests s) = Some (r, rest)" by (cases p) auto
        let ?u = "?s\<lparr>pendingLeaseRequests := rest\<rparr>"
        obtain st where st: "fst (markTaskDispatched e ?u i) = ?u\<lparr>Tasks := (Tasks ?u)(i \<mapsto> dispatched e ?t), stats := st\<rparr>"
          using markTaskDispatched_pending [of ?u i ?t e] by auto
        have "(response_task ?t job)\<lparr>TaskID := i\<rparr> = response_task t job" by (simp add: response_task_def i)
        then have "enqueueTask e s i = Runs (s\<lparr>Tasks := (Tasks s)(i \<mapsto> dispatched e t), pendingLeaseRequests := rest, stats := st,
         responses := responses s @ [(responseChan r, \<lparr>payload = EncodeTask (response_task t job), lr_err = None\<rparr>)]\<rparr>, None)"
          using Cons p job assms(2) ready st dis i by (simp add: enqueueTask_def Let_def send_response_def)
        with serve_pending_Some [OF p] show thesis using result(4) [OF ready(1,2) job] by blast
      qed
    qed
  qed (use assms(2) in \<open>auto intro: result(1-3) simp: enqueueTask_def\<close>)
qed

subsection \<open>Every event keeps the invariant\<close>

lemma leases_answer:
  "leases_ok (gone @ r # rest) queue resp \<Longrightarrow> leases_ok rest queue (resp @ [(responseChan r, x)])"
  by (auto simp: leases_ok_def)

lemma enqueueTask_inv:
  assumes "sched_inv s" "enqueueTask e s i = Runs (s', err)"
  shows "sched_inv s'"
proof (cases "Tasks s i")
  case None
  with assms show ?thesis by (simp add: enqueueTask_def)
next
  case (Some t)
  have ok: "tasks_ok (Jobs s) (Tasks s) (batchTasks s)" using assms(1) by (simp add: sched_inv_def)
  note f = tasks_ok_fields [OF ok Some] and q = tasks_ok_queued [OF ok Some]
  show ?thesis
  proof (rule enqueueTask_cases [OF ok Some, of e])
    fix r gone rest st job
    assume a: "\<not> Queued t" "Jobs s (td_JobID t) = Some job" "pendingLeaseRequests s = gone @ r # rest"
      "enqueueTask e s i = Runs (s\<lparr>Tasks := (Tasks s)(i \<mapsto> dispatched e t), pendingLeaseRequests := rest, stats := st,
         responses := responses s @ [(responseChan r, \<lparr>payload = EncodeTask (response_task t job), lr_err = None\<rparr>)]\<rparr>, None)"
    have "tasks_ok (Jobs s) ((Tasks s)(i \<mapsto> dispatched e t)) (batchTasks s)"
      using ok f q a(1,2) by (intro tasks_ok_set_plain) auto
    moreover have "leases_ok rest (batchTasks s)
        (responses s @ [(responseChan r, \<lparr>payload = EncodeTask (response_task t job), lr_err = None\<rparr>)])"
      using assms(1) a(3) by (intro leases_answer [of gone]) (simp add: sched_inv_def)
    ultimately show ?thesis using assms a(4) by (auto simp: sched_inv_def)
  next
    fix t' st
    assume a: "\<not> Queued t" "t' = t\<lparr>td_State := StatePending, Queued := True, EnqueuedAt := now e\<rparr>"
      "length (batchTasks s) < taskQueueSize"
      "enqueueTask e s i = Runs (s\<lparr>Tasks := (Tasks s)(i \<mapsto> t'), pendingLeaseRequests := [],
         batchTasks := batchTasks s @ [i], stats := st\<rparr>, None)"
    have "tasks_ok (Jobs s) ((Tasks s)(i \<mapsto> t')) (batchTasks s @ [i])"
      using ok f q a(1,2) by (intro tasks_ok_push) auto
    moreover have "leases_ok [] (batchTasks s @ [i]) (responses s)"
      using assms(1) a(3) by (auto simp: sched_inv_def leases_ok_def)
    ultimately show ?thesis using assms a(4) by (auto simp: sched_inv_def)
  qed (use assms in auto)
qed

lemma enqueueTask_Jobs: "enqueueTask e s i = Runs (s', err) \<Longrightarrow> Jobs s' = Jobs s"
  by (auto simp: enqueueTask_def push_task_def Let_def send_response_def add_stat_def markTaskDispatched_def
      split: option.splits if_splits)

lemma tick_tasks_inv: "sched_inv s \<Longrightarrow> tick_tasks e order s = Runs (s', err) \<Longrightarrow> sched_inv s'"
proof (induction order arbitrary: s)
  case (Cons i order)
  then show ?case
    by (auto split: option.splits if_splits progress.splits dest: enqueueTask_inv)
qed simp

lemma leases_filter: "leases_ok p queue resp \<Longrightarrow> leases_ok (filter P p) queue resp"
  by (auto simp: leases_ok_def distinct_map_filter)

lemma handle_tick_inv: "sched_inv s \<Longrightarrow> handle_tick e s = Runs (s', err) \<Longrightarrow> sched_inv s'"
  unfolding handle_tick_def Let_def
  by (erule tick_tasks_inv [rotated]) (auto simp: sched_inv_def leases_filter)

lemma handle_lease_inv:
  assumes "sched_inv s" "responseChan r \<notin> set (map responseChan (pendingLeaseRequests s) @ map fst (responses s))"
  shows "sched_inv (fst (handle_lease e s r))"
proof (cases "batchTasks s")
  case Nil
  with assms show ?thesis
    by (auto simp: handle_lease_def sched_inv_def leases_ok_def send_response_def split: option.splits)
next
  case (Cons i rest)
  have ok: "tasks_ok (Jobs s) (Tasks s) (i # rest)" using assms(1) Cons by (simp add: sched_inv_def)
  then obtain t where t: "Tasks s i = Some t" "Queued t"
    unfolding tasks_ok_def by (metis list.set_intros(1))
  note f = tasks_ok_fields [OF ok t(1)]
  obtain job where job: "Jobs s (td_JobID t) = Some job" using f(2) by blast
  let ?u = "s\<lparr>batchTasks := rest\<rparr>"
  obtain st where st: "fst (markTaskDispatched e ?u i) = ?u\<lparr>Tasks := (Tasks ?u)(i \<mapsto> dispatched e t), stats := st\<rparr>"
    using markTaskDispatched_pending [of ?u i t e] t f(3) by auto
  have "tasks_ok (Jobs s) ((Tasks s)(i \<mapsto> dispatched e t)) rest"
    using ok f(1) job by (intro tasks_ok_pop) auto
  with assms Cons t job st show ?thesis
    by (auto simp: handle_lease_def Let_def send_response_def sched_inv_def leases_ok_def)
qed

lemma enqueueTask_other:
  assumes "tasks_ok (Jobs s) (Tasks s) (batchTasks s)" "enqueueTask e s i = Runs (s', err)" "j \<noteq> i"
  shows "Tasks s' j = Tasks s j"
proof (cases "Tasks s i")
  case None
  with assms show ?thesis by (simp add: enqueueTask_def)
next
  case (Some t)
  show ?thesis
    by (rule enqueueTask_cases [OF assms(1) Some, of e]) (use assms(2,3) in auto)
qed

text \<open>What an event other than a result may do to tasks: finished ones stay as they are, and none becomes finished.\<close>

definition task_core :: "TaskDescription \<Rightarrow> NodeId \<times> int \<times> bytes \<times> bytes \<times> bytes" where
  "task_core t = (td_JobID t, ChunkID t, td_Stdin t, td_Type t, td_Topic t)"

lemma task_core_update [simp]:
  "task_core (t\<lparr>td_State := x\<rparr>) = task_core t" "task_core (t\<lparr>Queued := b\<rparr>) = task_core t"
  "task_core (t\<lparr>LeaseUntil := n\<rparr>) = task_core t" "task_core (t\<lparr>BackoffUntil := n\<rparr>) = task_core t"
  "task_core (t\<lparr>EnqueuedAt := n\<rparr>) = task_core t" "task_core (t\<lparr>DispatchedAt := n\<rparr>) = task_core t"
  "task_core (t\<lparr>DoneAt := n\<rparr>) = task_core t" "task_core (t\<lparr>Attempts := n\<rparr>) = task_core t"
  by (simp_all add: task_core_def)

lemma task_core_dispatched [simp]: "task_core (dispatched e t) = task_core t"
  by (simp add: dispatched_def)

lemma task_core_eqD: "task_core t' = task_core t \<Longrightarrow> td_JobID t' = td_JobID t \<and> ChunkID t' = ChunkID t \<and> td_Stdin t' = td_Stdin t"
  by (simp add: task_core_def)

definition tasks_kept :: "Scheduler \<Rightarrow> Scheduler \<Rightarrow> bool" where
  "tasks_kept s s' \<longleftrightarrow>
     (\<forall>j t. Tasks s j = Some t \<longrightarrow>
       (\<exists>t'. Tasks s' j = Some t' \<and> task_core t' = task_core t \<and> (td_State t = StateDone \<longrightarrow> t' = t) \<and>
        (td_State t \<noteq> StateDone \<longrightarrow> td_State t' \<noteq> StateDone))) \<and>
     (\<forall>j t'. Tasks s j = None \<longrightarrow> Tasks s' j = Some t' \<longrightarrow> td_State t' \<noteq> StateDone)"

lemma tasks_keptD:
  "tasks_kept s s' \<Longrightarrow> Tasks s j = Some t \<Longrightarrow> Tasks s' j = Some t' \<Longrightarrow>
     task_core t' = task_core t \<and> (td_State t = StateDone \<longrightarrow> t' = t) \<and> (td_State t \<noteq> StateDone \<longrightarrow> td_State t' \<noteq> StateDone)"
  unfolding tasks_kept_def by (metis option.inject)

lemma tasks_kept_refl: "Tasks s' = Tasks s \<Longrightarrow> tasks_kept s s'"
  by (simp add: tasks_kept_def)

lemma tasks_kept_trans:
  assumes "tasks_kept s t" "tasks_kept t u"
  shows "tasks_kept s u"
  unfolding tasks_kept_def
proof (intro conjI allI impI)
  fix j x assume "Tasks s j = Some x"
  with assms(1) obtain y where y: "Tasks t j = Some y" "task_core y = task_core x" "td_State x = StateDone \<longrightarrow> y = x"
    "td_State x \<noteq> StateDone \<longrightarrow> td_State y \<noteq> StateDone" unfolding tasks_kept_def by blast
  with assms(2) obtain z where "Tasks u j = Some z" "task_core z = task_core y" "td_State y = StateDone \<longrightarrow> z = y"
    "td_State y \<noteq> StateDone \<longrightarrow> td_State z \<noteq> StateDone" unfolding tasks_kept_def by blast
  with y show "\<exists>t'. Tasks u j = Some t' \<and> task_core t' = task_core x \<and> (td_State x = StateDone \<longrightarrow> t' = x) \<and>
      (td_State x \<noteq> StateDone \<longrightarrow> td_State t' \<noteq> StateDone)" by metis
next
  fix j z assume s: "Tasks s j = None" and u: "Tasks u j = Some z"
  show "td_State z \<noteq> StateDone"
  proof (cases "Tasks t j")
    case None
    with u assms(2) show ?thesis unfolding tasks_kept_def by blast
  next
    case (Some y)
    with s assms(1) have "td_State y \<noteq> StateDone" unfolding tasks_kept_def by blast
    with Some u assms(2) show ?thesis unfolding tasks_kept_def by (metis option.inject)
  qed
qed

lemma tasks_kept_set:
  "(\<And>t'. Tasks s i = Some t' \<Longrightarrow> td_State t' \<noteq> StateDone \<and> task_core t = task_core t') \<Longrightarrow> td_State t \<noteq> StateDone \<Longrightarrow>
   Tasks s' = (Tasks s)(i \<mapsto> t) \<Longrightarrow> tasks_kept s s'"
  by (auto simp: tasks_kept_def)

lemma enqueueTask_kept:
  assumes "sched_inv s" "enqueueTask e s i = Runs (s', err)"
  shows "tasks_kept s s'"
proof (cases "Tasks s i")
  case None
  with assms show ?thesis by (simp add: enqueueTask_def tasks_kept_refl)
next
  case (Some t)
  have ok: "tasks_ok (Jobs s) (Tasks s) (batchTasks s)" using assms(1) by (simp add: sched_inv_def)
  show ?thesis
  proof (rule enqueueTask_cases [OF ok Some, of e])
    fix r gone rest st job
    assume "td_State t \<noteq> StateDone" "enqueueTask e s i = Runs (s\<lparr>Tasks := (Tasks s)(i \<mapsto> dispatched e t), pendingLeaseRequests := rest,
         stats := st, responses := responses s @ [(responseChan r, \<lparr>payload = EncodeTask (response_task t job), lr_err = None\<rparr>)]\<rparr>, None)"
    with assms(2) Some show ?thesis by (intro tasks_kept_set [of s i "dispatched e t"]) auto
  next
    fix t' st
    assume "td_State t \<noteq> StateDone" "t' = t\<lparr>td_State := StatePending, Queued := True, EnqueuedAt := now e\<rparr>"
      "enqueueTask e s i = Runs (s\<lparr>Tasks := (Tasks s)(i \<mapsto> t'), pendingLeaseRequests := [],
         batchTasks := batchTasks s @ [i], stats := st\<rparr>, None)"
    with assms(2) Some show ?thesis by (intro tasks_kept_set [of s i t']) auto
  qed (use assms in \<open>auto simp: tasks_kept_refl\<close>)
qed

definition new_tasks_of :: "NodeId \<Rightarrow> Scheduler \<Rightarrow> Scheduler \<Rightarrow> bool" where
  "new_tasks_of job s s' \<longleftrightarrow> (\<forall>k t. Tasks s k = None \<longrightarrow> Tasks s' k = Some t \<longrightarrow> td_JobID t = job)"

lemma new_tasks_of_trans:
  assumes "new_tasks_of job s t" "new_tasks_of job t u" "tasks_kept t u"
  shows "new_tasks_of job s u"
  unfolding new_tasks_of_def
proof (intro allI impI)
  fix k x assume k: "Tasks s k = None" "Tasks u k = Some x"
  show "td_JobID x = job"
  proof (cases "Tasks t k")
    case None
    with k assms(2) show ?thesis by (simp add: new_tasks_of_def)
  next
    case (Some y)
    with k assms(1) tasks_keptD [OF assms(3) Some k(2)] show ?thesis
      by (auto simp: new_tasks_of_def task_core_def)
  qed
qed

text \<open>The first task of a submission: it is stored and enqueued, and the remaining tasks are still new.\<close>

definition all_new :: "Scheduler \<Rightarrow> NodeId \<Rightarrow> TaskDescription list \<Rightarrow> bool" where
  "all_new s job tasks \<longleftrightarrow> distinct (map td_ID tasks) \<and>
     list_all (\<lambda>t. td_JobID t = job \<and> \<not> Queued t \<and> td_State t = StatePending \<and> Tasks s (td_ID t) = None) tasks"

lemma submit_first:
  assumes "sched_inv s" "Jobs s job \<noteq> None" "all_new s job (t # tasks)"
    and "enqueueTask e (set_task (td_ID t) t s) (td_ID t) = Runs (s1, err)"
  shows "sched_inv (set_task (td_ID t) t s)" "sched_inv s1" "Jobs s1 = Jobs s" "all_new s1 job tasks"
proof -
  let ?s = "set_task (td_ID t) t s"
  have t: "td_JobID t = job" "\<not> Queued t" "Tasks s (td_ID t) = None" using assms(3) by (auto simp: all_new_def)
  have "td_ID t \<notin> set (batchTasks s)" using assms(1) t(3) by (auto simp: sched_inv_def tasks_ok_def)
  then show inv: "sched_inv ?s"
    using assms(1,2) t by (auto simp: sched_inv_def intro!: tasks_ok_set_plain)
  show "sched_inv s1" by (rule enqueueTask_inv [OF inv assms(4)])
  show "Jobs s1 = Jobs s" using enqueueTask_Jobs [OF assms(4)] by simp
  have "Tasks s1 (td_ID u) = None" if "u \<in> set tasks" for u
  proof -
    have "td_ID u \<noteq> td_ID t" using that conjunct1 [OF assms(3) [unfolded all_new_def]] by (metis distinct.simps(2) image_eqI list.map(2) list.set_map)
    moreover have "Tasks s (td_ID u) = None" using that assms(3) by (auto simp: all_new_def list_all_iff)
    ultimately show ?thesis
      using enqueueTask_other [OF _ assms(4), of "td_ID u"] inv by (simp add: sched_inv_def)
  qed
  then show "all_new s1 job tasks" using assms(3) by (auto simp: all_new_def list_all_iff)
qed

lemma submit_tasks_inv:
  assumes "sched_inv s" "Jobs s job \<noteq> None" "all_new s job tasks" "submit_tasks e i tasks s = Runs (s', err)"
  shows "sched_inv s' \<and> tasks_kept s s' \<and> Jobs s' = Jobs s \<and> new_tasks_of job s s'"
  using assms
proof (induction tasks arbitrary: s i)
  case (Cons t tasks)
  let ?s = "set_task (td_ID t) t s"
  have t: "td_JobID t = job" "Tasks s (td_ID t) = None" "td_State t = StatePending" using Cons.prems(3) by (auto simp: all_new_def)
  show ?case
  proof (cases "ctx_done e i")
    case True
    with Cons.prems(1,4) show ?thesis by (simp add: tasks_kept_refl new_tasks_of_def)
  next
    case False
    then obtain s1 err1 where s1: "enqueueTask e ?s (td_ID t) = Runs (s1, err1)"
      using Cons.prems(4) by (auto split: progress.splits)
    note first = submit_first [OF Cons.prems(1-3) s1]
    have "tasks_kept s ?s" using t by (intro tasks_kept_set [of s "td_ID t" t]) auto
    then have kept1: "tasks_kept s s1" using enqueueTask_kept [OF first(1) s1] by (rule tasks_kept_trans)
    have new1: "new_tasks_of job s s1"
      unfolding new_tasks_of_def
    proof (intro allI impI)
      fix k u assume k: "Tasks s k = None" "Tasks s1 k = Some u"
      show "td_JobID u = job"
      proof (cases "k = td_ID t")
        case True
        with k tasks_keptD [OF enqueueTask_kept [OF first(1) s1], of k t u] t(1) show ?thesis by (simp add: task_core_def)
      next
        case False
        with k enqueueTask_other [OF _ s1 False] first(1) show ?thesis by (simp add: sched_inv_def)
      qed
    qed
    show ?thesis
    proof (cases err1)
      case None
      with Cons.IH [OF first(2) _ first(4), of "i + 1"] Cons.prems(2,4) False s1 first(3)
      have "sched_inv s' \<and> tasks_kept s1 s' \<and> Jobs s' = Jobs s1 \<and> new_tasks_of job s1 s'" by simp
      with kept1 new1 first(3) show ?thesis by (auto intro: tasks_kept_trans new_tasks_of_trans)
    next
      case (Some x)
      with Cons.prems(4) False s1 first(2,3) kept1 new1 show ?thesis by simp
    qed
  qed
qed (simp add: tasks_kept_refl new_tasks_of_def)

lemma sched_inv_cong:
  "sched_inv s \<Longrightarrow> Jobs s' = Jobs s \<Longrightarrow> Tasks s' = Tasks s \<Longrightarrow> batchTasks s' = batchTasks s \<Longrightarrow>
   pendingLeaseRequests s' = pendingLeaseRequests s \<Longrightarrow> responses s' = responses s \<Longrightarrow> sched_inv s'"
  by (simp add: sched_inv_def)

lemma handle_submit_inv:
  assumes "sched_inv s" "event_ok s (EventJobSubmitted job tasks)" "handle_submit e s job tasks = Runs (s', err)"
  shows "sched_inv s'"
proof (cases "Jobs s (jd_ID job)")
  case None
  let ?s = "s\<lparr>Jobs := (Jobs s)(jd_ID job \<mapsto> job)\<rparr>"
  have inv: "sched_inv ?s"
    using assms(1) by (auto simp: sched_inv_def intro: tasks_ok_jobs)
  show ?thesis
  proof (cases "jd_Type job = TypeBatch \<and> jd_Type job \<noteq> TypeStream")
    case True
    then have "submit_tasks e 1 tasks ?s = Runs (s', err)" using assms(3) None by (auto simp: handle_submit_def Let_def)
    with submit_tasks_inv [OF inv, of "jd_ID job" tasks e 1] assms(2) show ?thesis by (simp add: event_ok_def all_new_def)
  next
    case False
    with assms(3) None inv show ?thesis
      by (auto simp: handle_submit_def Let_def split: if_splits intro: sched_inv_cong [OF inv])
  qed
qed (use assms in \<open>auto simp: handle_submit_def\<close>)

lemma markJobDone_frame:
  assumes "markJobDone e s j = Runs (s', err)"
  obtains d where "s' = s\<lparr>job_dir := d\<rparr>"
    "d = job_dir s \<or> (\<exists>res. d = (job_dir s)(j := write_file (str ''output.json'') res (job_dir s j)))"
proof -
  have "s' = s \<or> (\<exists>res. s' = s\<lparr>job_dir := (job_dir s)(j := write_file (str ''output.json'') res (job_dir s j))\<rparr>)"
    using assms by (auto simp: markJobDone_def split: option.splits outcome.splits)
  moreover have "s = s\<lparr>job_dir := job_dir s\<rparr>" by simp
  ultimately show thesis using that by metis
qed

text \<open>
  A successful \<open>markTaskDone\<close>: the task was running, its result is in the job's directory, and its job counts one more.
\<close>

definition with_result :: "TaskDescription \<Rightarrow> bytes \<Rightarrow> (NodeId \<Rightarrow> (bytes \<times> bytes) list) \<Rightarrow> NodeId \<Rightarrow> (bytes \<times> bytes) list" where
  "with_result t result dirs =
     dirs(td_JobID t := write_file (chunk_file (ChunkID t)) result (dirs (td_JobID t)))"

definition finish_task :: "sched_env \<Rightarrow> Scheduler \<Rightarrow> NodeId \<Rightarrow> TaskDescription \<Rightarrow> JobDescription \<Rightarrow> bytes \<Rightarrow> Scheduler" where
  "finish_task e s i t job result = s\<lparr>job_dir := with_result t result (job_dir s),
     Tasks := (Tasks s)(i \<mapsto> t\<lparr>td_State := StateDone, Queued := False, BackoffUntil := 0, LeaseUntil := 0, DoneAt := now e\<rparr>),
     Jobs := (Jobs s)(td_JobID t \<mapsto> job\<lparr>TasksDone := TasksDone job + 1\<rparr>),
     stats := stats s @ [IncCompleted, ObserveTaskRunDuration (time_Sub (now e) (DispatchedAt t))]\<rparr>"

lemma markTaskDone_running_eq:
  assumes "Tasks s i = Some t" "td_State t = StateRunning" "Jobs s (td_JobID t) = Some job"
    and "write_err e (td_JobID t) (chunk_file (ChunkID t)) = None"
  shows "markTaskDone e s i result =
    (if TasksDone job + 1 = TasksTotal job
     then (case markJobDone e (finish_task e s i t job result) (jd_ID job) of
             Runs (s, _) \<Rightarrow> Runs (s, None) | Blocks \<Rightarrow> Blocks | Crashes \<Rightarrow> Crashes)
     else Runs (finish_task e s i t job result, None))"
  using assms by (simp add: markTaskDone_def Let_def add_stat_def finish_task_def with_result_def)

lemma markTaskDone_idle:
  assumes "markTaskDone e s i result = Runs (s', err)"
    and "\<nexists>t job. Tasks s i = Some t \<and> td_State t = StateRunning \<and> Jobs s (td_JobID t) = Some job \<and>
      write_err e (td_JobID t) (chunk_file (ChunkID t)) = None"
  shows "s' = s"
  using assms by (auto simp: markTaskDone_def split: option.splits if_splits) (metis TaskState.exhaust)

lemma markTaskDone_cases:
  assumes "markTaskDone e s i result = Runs (s', err)"
  obtains (same) "s' = s"
  | (done_now) t t' job st d where "Tasks s i = Some t" "td_State t = StateRunning" "Jobs s (td_JobID t) = Some job"
      "t' = t\<lparr>td_State := StateDone, Queued := False, BackoffUntil := 0, LeaseUntil := 0, DoneAt := now e\<rparr>"
      "s' = s\<lparr>Tasks := (Tasks s)(i \<mapsto> t'), Jobs := (Jobs s)(td_JobID t \<mapsto> job\<lparr>TasksDone := TasksDone job + 1\<rparr>),
         stats := st, job_dir := d\<rparr>"
      "d = with_result t result (job_dir s) \<or>
       (\<exists>j res. d = (with_result t result (job_dir s))(j :=
          write_file (str ''output.json'') res (with_result t result (job_dir s) j)))"
      "st = stats s @ [IncCompleted, ObserveTaskRunDuration (time_Sub (now e) (DispatchedAt t))]"
proof (cases "\<exists>t job. Tasks s i = Some t \<and> td_State t = StateRunning \<and> Jobs s (td_JobID t) = Some job \<and>
      write_err e (td_JobID t) (chunk_file (ChunkID t)) = None")
  case True
  then obtain t job where t: "Tasks s i = Some t" "td_State t = StateRunning" "Jobs s (td_JobID t) = Some job"
    "write_err e (td_JobID t) (chunk_file (ChunkID t)) = None" by blast
  let ?u = "finish_task e s i t job result" and ?d = "with_result t result (job_dir s)"
  consider "s' = ?u" | err where "markJobDone e ?u (jd_ID job) = Runs (s', err)"
    using assms markTaskDone_running_eq [OF t] by (auto split: if_splits progress.splits)
  then obtain d where "s' = ?u\<lparr>job_dir := d\<rparr>" "d = ?d \<or> (\<exists>j res. d = ?d(j := write_file (str ''output.json'') res (?d j)))"
  proof cases
    case 1
    then show thesis by (intro that [of ?d]) (simp_all add: finish_task_def)
  next
    case 2
    then obtain d where "s' = ?u\<lparr>job_dir := d\<rparr>"
      "d = job_dir ?u \<or> (\<exists>res. d = (job_dir ?u)(jd_ID job := write_file (str ''output.json'') res (job_dir ?u (jd_ID job))))"
      by (rule markJobDone_frame)
    moreover have "job_dir ?u = ?d" by (simp add: finish_task_def)
    ultimately show thesis using that by auto
  qed
  then show thesis by (intro that(2) [OF t(1-3) refl _ _ refl]) (cases s, auto simp: finish_task_def)
next
  case False
  with assms show thesis using markTaskDone_idle that(1) by blast
qed

lemma markTaskDone_inv:
  assumes "sched_inv s" "markTaskDone e s i result = Runs (s', err)"
  shows "sched_inv s'"
proof (rule markTaskDone_cases [OF assms(2)])
  fix t t' job st d
  assume a: "Tasks s i = Some t" "td_State t = StateRunning" "Jobs s (td_JobID t) = Some job"
    "t' = t\<lparr>td_State := StateDone, Queued := False, BackoffUntil := 0, LeaseUntil := 0, DoneAt := now e\<rparr>"
    "s' = s\<lparr>Tasks := (Tasks s)(i \<mapsto> t'), Jobs := (Jobs s)(td_JobID t \<mapsto> job\<lparr>TasksDone := TasksDone job + 1\<rparr>),
         stats := st, job_dir := d\<rparr>"
  have ok: "tasks_ok (Jobs s) (Tasks s) (batchTasks s)" using assms(1) by (simp add: sched_inv_def)
  note f = tasks_ok_fields [OF ok a(1)] and q = tasks_ok_queued [OF ok a(1)]
  have "tasks_ok (Jobs s) ((Tasks s)(i \<mapsto> t')) (batchTasks s)"
    using ok f q a by (intro tasks_ok_set_plain) auto
  then have "tasks_ok ((Jobs s)(td_JobID t \<mapsto> job\<lparr>TasksDone := TasksDone job + 1\<rparr>)) ((Tasks s)(i \<mapsto> t')) (batchTasks s)"
    by (rule tasks_ok_jobs) auto
  with assms(1) a show ?thesis by (auto simp: sched_inv_def)
qed (use assms in simp)

lemma markTaskDispatchFailed_inv:
  assumes "sched_inv s" "markTaskDispatchFailed e s i = Runs (s', err)"
  shows "sched_inv s'"
proof (cases "Tasks s i")
  case None
  with assms show ?thesis by (simp add: markTaskDispatchFailed_def)
next
  case (Some t)
  have ok: "tasks_ok (Jobs s) (Tasks s) (batchTasks s)" using assms(1) by (simp add: sched_inv_def)
  note f = tasks_ok_fields [OF ok Some] and q = tasks_ok_queued [OF ok Some]
  show ?thesis
  proof (cases "td_State t = StateRunning")
    case True
    with assms Some obtain t' where t': "Tasks s' = (Tasks s)(i \<mapsto> t')" "td_ID t' = td_ID t" "td_JobID t' = td_JobID t"
      "\<not> Queued t'" and rest: "Jobs s' = Jobs s" "batchTasks s' = batchTasks s"
      "pendingLeaseRequests s' = pendingLeaseRequests s" "responses s' = responses s"
      by (auto simp: markTaskDispatchFailed_def Let_def add_stat_def split: outcome.splits)
    have "tasks_ok (Jobs s) ((Tasks s)(i \<mapsto> t')) (batchTasks s)"
      using ok f q t' True by (intro tasks_ok_set_plain) auto
    with assms(1) t' rest show ?thesis by (simp add: sched_inv_def)
  next
    case False
    with assms Some show ?thesis by (cases "td_State t") (auto simp: markTaskDispatchFailed_def)
  qed
qed

lemma handleEvent_inv:
  assumes "sched_inv s" "event_ok s ev" "handleEvent e s ev = Runs (s', err)"
  shows "sched_inv s'"
proof (cases "ctx_done e 0")
  case False
  show ?thesis
  proof (cases ev)
    case (EventJobDone j)
    with assms False obtain d where "s' = s\<lparr>job_dir := d\<rparr>"
      by (auto simp: handleEvent_def elim: markJobDone_frame)
    with assms(1) show ?thesis by (simp add: sched_inv_def)
  next
    case (EventTaskDispatchFailed i)
    with assms False show ?thesis
      by (auto simp: handleEvent_def split: progress.splits intro: markTaskDispatchFailed_inv)
  next
    case (EventLeaseRequest r)
    with assms False show ?thesis
      using handle_lease_inv [OF assms(1), of r e] by (auto simp: handleEvent_def event_ok_def)
  qed (use assms False in \<open>auto simp: handleEvent_def intro: handle_tick_inv handle_submit_inv markTaskDone_inv\<close>)
qed (use assms in \<open>simp add: handleEvent_def\<close>)

lemma New_sched_inv: "sched_inv NewScheduler"
  by (simp add: sched_inv_def NewScheduler_def tasks_ok_def leases_ok_def taskQueueSize_def)

definition sched_init :: "Scheduler \<Rightarrow> bool" where
  "sched_init s \<longleftrightarrow> s = NewScheduler"

interpretation sched: invariant_system sched_init sched_step sched_inv
proof unfold_locales
  show "sched_init s \<Longrightarrow> sched_inv s" for s by (simp add: sched_init_def New_sched_inv)
  show "sched_inv s \<Longrightarrow> sched_step s t \<Longrightarrow> sched_inv t" for s t
    by (erule sched_stepE, erule (2) handleEvent_inv) (simp add: sched_inv_def)
qed

subsection \<open>Finished tasks\<close>

lemma tick_tasks_kept:
  "sched_inv s \<Longrightarrow> tick_tasks e order s = Runs (s', err) \<Longrightarrow> tasks_kept s s' \<and> Jobs s' = Jobs s"
proof (induction order arbitrary: s)
  case Nil
  then show ?case by (simp add: tasks_kept_refl)
next
  case (Cons i order)
  show ?case
  proof (cases "\<exists>t. Tasks s i = Some t \<and> \<not> LeaseUntil t > now e \<and> td_State t \<noteq> StateDone")
    case True
    then obtain t where t: "Tasks s i = Some t" "\<not> LeaseUntil t > now e" "td_State t \<noteq> StateDone" by blast
    then obtain s1 err1 where s1: "enqueueTask e s i = Runs (s1, err1)"
      using Cons.prems(2) by (auto split: progress.splits)
    have k: "tasks_kept s s1" "Jobs s1 = Jobs s" "sched_inv s1"
      using enqueueTask_kept [OF Cons.prems(1) s1] enqueueTask_Jobs [OF s1] enqueueTask_inv [OF Cons.prems(1) s1] by auto
    show ?thesis
    proof (cases err1)
      case None
      with Cons.IH [OF k(3)] Cons.prems(2) t s1 k show ?thesis by (auto intro: tasks_kept_trans)
    next
      case (Some x)
      with Cons.prems(2) t s1 k show ?thesis by auto
    qed
  next
    case False
    with Cons show ?thesis by (auto split: option.splits if_splits)
  qed
qed

lemma handle_lease_kept:
  assumes "sched_inv s"
  shows "tasks_kept s (fst (handle_lease e s r)) \<and> Jobs (fst (handle_lease e s r)) = Jobs s"
proof (cases "batchTasks s")
  case Nil
  then show ?thesis by (auto simp: handle_lease_def send_response_def intro: tasks_kept_refl split: option.splits)
next
  case (Cons i rest)
  have ok: "tasks_ok (Jobs s) (Tasks s) (i # rest)" using assms Cons by (simp add: sched_inv_def)
  then obtain t where t: "Tasks s i = Some t" "Queued t" unfolding tasks_ok_def by (metis list.set_intros(1))
  note f = tasks_ok_fields [OF ok t(1)]
  obtain job where job: "Jobs s (td_JobID t) = Some job" using f(2) by blast
  let ?u = "s\<lparr>batchTasks := rest\<rparr>"
  obtain st where st: "fst (markTaskDispatched e ?u i) = ?u\<lparr>Tasks := (Tasks ?u)(i \<mapsto> dispatched e t), stats := st\<rparr>"
    using markTaskDispatched_pending [of ?u i t e] t f(3) by auto
  then have "Tasks (fst (handle_lease e s r)) = (Tasks s)(i \<mapsto> dispatched e t)" "Jobs (fst (handle_lease e s r)) = Jobs s"
    using Cons t job by (auto simp: handle_lease_def Let_def send_response_def)
  with t f(3) show ?thesis by (auto intro!: tasks_kept_set [of s i "dispatched e t"])
qed

lemma handle_tick_kept:
  assumes "sched_inv s" "handle_tick e s = Runs (s', err)"
  shows "tasks_kept s s' \<and> Jobs s' = Jobs s"
proof -
  let ?s = "s\<lparr>pendingLeaseRequests := filter (\<lambda>req. \<not> lease_expired e (responseChan req)) (pendingLeaseRequests s)\<rparr>"
  have "sched_inv ?s" using assms(1) by (auto simp: sched_inv_def leases_filter)
  with assms(2) have "tasks_kept ?s s'" "Jobs s' = Jobs ?s"
    using tick_tasks_kept by (simp_all add: handle_tick_def)
  moreover have "tasks_kept s ?s" by (simp add: tasks_kept_refl)
  ultimately show ?thesis by (auto intro: tasks_kept_trans)
qed

lemma handle_submit_kept:
  assumes "sched_inv s" "event_ok s (EventJobSubmitted job tasks)" "handle_submit e s job tasks = Runs (s', err)"
  shows "tasks_kept s s' \<and> (\<forall>j x. Jobs s j = Some x \<longrightarrow> Jobs s' j = Some x)"
proof (cases "Jobs s (jd_ID job)")
  case None
  let ?s = "s\<lparr>Jobs := (Jobs s)(jd_ID job \<mapsto> job)\<rparr>"
  have inv: "sched_inv ?s" using assms(1) by (auto simp: sched_inv_def intro: tasks_ok_jobs)
  have "tasks_kept ?s s' \<and> Jobs s' = Jobs ?s"
  proof (cases "jd_Type job = TypeBatch \<and> jd_Type job \<noteq> TypeStream")
    case True
    then have "submit_tasks e 1 tasks ?s = Runs (s', err)" using assms(3) None by (auto simp: handle_submit_def Let_def)
    with submit_tasks_inv [OF inv, of "jd_ID job" tasks e 1] assms(2) show ?thesis by (simp add: event_ok_def all_new_def)
  next
    case False
    with assms(3) None show ?thesis by (auto simp: handle_submit_def Let_def tasks_kept_refl split: if_splits)
  qed
  moreover have "tasks_kept s ?s" by (simp add: tasks_kept_refl)
  ultimately show ?thesis using None by (auto intro: tasks_kept_trans)
next
  case (Some x)
  with assms(3) have "s' = s" by (auto simp: handle_submit_def)
  then show ?thesis by (simp add: tasks_kept_refl)
qed

lemma markTaskDispatchFailed_kept:
  assumes "markTaskDispatchFailed e s i = Runs (s', err)"
  shows "tasks_kept s s' \<and> Jobs s' = Jobs s"
proof (cases "\<exists>t. Tasks s i = Some t \<and> td_State t = StateRunning")
  case True
  then obtain t where t: "Tasks s i = Some t" "td_State t = StateRunning" by blast
  with assms obtain t' where "Tasks s' = (Tasks s)(i \<mapsto> t')" "td_State t' \<noteq> StateDone" "task_core t' = task_core t" "Jobs s' = Jobs s"
    by (auto simp: markTaskDispatchFailed_def Let_def add_stat_def split: outcome.splits)
  with t show ?thesis by (intro conjI tasks_kept_set [of s i t']) auto
next
  case False
  then have "s' = s"
    using assms by (cases "Tasks s i") (auto simp: markTaskDispatchFailed_def split: if_splits, metis TaskState.exhaust)
  then show ?thesis by (simp add: tasks_kept_refl)
qed

lemma handleEvent_kept:
  assumes "sched_inv s" "event_ok s ev" "handleEvent e s ev = Runs (s', err)"
    and "\<nexists>i result. ev = EventTaskDone i result \<and> \<not> ctx_done e 0"
  shows "tasks_kept s s' \<and> (\<forall>j job. Jobs s j = Some job \<longrightarrow> Jobs s' j = Some job)"
proof (cases "ctx_done e 0")
  case True
  with assms show ?thesis by (simp add: handleEvent_def tasks_kept_refl)
next
  case False
  show ?thesis
  proof (cases ev)
    case EventTick
    with assms(3) False handle_tick_kept [OF assms(1), of e s' err] show ?thesis by (simp add: handleEvent_def)
  next
    case (EventJobSubmitted job tasks)
    with assms False handle_submit_kept [OF assms(1), of job tasks e s' err] show ?thesis by (simp add: handleEvent_def)
  next
    case (EventTaskDispatchFailed i)
    with assms(3) False obtain err' where "markTaskDispatchFailed e s i = Runs (s', err')"
      by (auto simp: handleEvent_def split: progress.splits)
    from markTaskDispatchFailed_kept [OF this] show ?thesis by simp
  next
    case (EventJobDone j)
    with assms(3) False obtain d where "s' = s\<lparr>job_dir := d\<rparr>" by (auto simp: handleEvent_def elim: markJobDone_frame)
    then show ?thesis by (simp add: tasks_kept_refl)
  next
    case (EventLeaseRequest r)
    then have "s' = fst (handle_lease e s r)" using assms(3) False by (auto simp: handleEvent_def)
    with handle_lease_kept [OF assms(1), of e r] show ?thesis by auto
  qed (use assms(4) False in blast)
qed

text \<open>An event either finishes one running task, whose job then counts one more, or finishes none.\<close>

lemma handleEvent_effect:
  assumes "sched_inv s" "event_ok s ev" "handleEvent e s ev = Runs (s', err)"
  obtains (kept) "tasks_kept s s'" "\<forall>j job. Jobs s j = Some job \<longrightarrow> Jobs s' j = Some job"
  | (finish) i t t' job where "Tasks s i = Some t" "td_State t = StateRunning" "Jobs s (td_JobID t) = Some job"
      "td_State t' = StateDone" "task_core t' = task_core t" "Tasks s' = (Tasks s)(i \<mapsto> t')"
      "Jobs s' = (Jobs s)(td_JobID t \<mapsto> job\<lparr>TasksDone := TasksDone job + 1\<rparr>)"
proof (cases "\<exists>i result. ev = EventTaskDone i result \<and> \<not> ctx_done e 0")
  case True
  then obtain i result where "markTaskDone e s i result = Runs (s', err)" using assms(3) by (auto simp: handleEvent_def)
  then show thesis
  proof (cases rule: markTaskDone_cases)
    case same
    then show thesis by (intro kept) (simp_all add: tasks_kept_refl)
  next
    case (done_now t t' job st d)
    then show thesis by (intro finish [of i t job t']) simp_all
  qed
next
  case False
  with handleEvent_kept [OF assms] show thesis by (intro kept) blast+
qed

lemma sched_step_effect:
  assumes "sched_inv s" "sched_step s s'"
  obtains (kept) "tasks_kept s s'" "\<forall>j job. Jobs s j = Some job \<longrightarrow> Jobs s' j = Some job"
  | (finish) i t t' job where "Tasks s i = Some t" "td_State t = StateRunning" "Jobs s (td_JobID t) = Some job"
      "td_State t' = StateDone" "task_core t' = task_core t" "Tasks s' = (Tasks s)(i \<mapsto> t')"
      "Jobs s' = (Jobs s)(td_JobID t \<mapsto> job\<lparr>TasksDone := TasksDone job + 1\<rparr>)"
  using assms(2)
proof (cases rule: sched_step.cases)
  case (sched_event ev e err)
  from handleEvent_effect [OF assms(1) sched_event] that show thesis by blast
next
  case (sched_register j files)
  then show thesis by (intro that(1)) (simp_all add: tasks_kept_refl)
qed

definition done_set :: "Scheduler \<Rightarrow> NodeId \<Rightarrow> NodeId set" where
  "done_set s j = {i. \<exists>t. Tasks s i = Some t \<and> td_JobID t = j \<and> td_State t = StateDone}"

lemma done_set_kept: "tasks_kept s s' \<Longrightarrow> done_set s' j = done_set s j"
proof
  assume k: "tasks_kept s s'"
  show "done_set s' j \<subseteq> done_set s j"
  proof
    fix i assume "i \<in> done_set s' j"
    then obtain t' where t': "Tasks s' i = Some t'" "td_JobID t' = j" "td_State t' = StateDone" by (auto simp: done_set_def)
    have "Tasks s i \<noteq> None" using k t'(1,3) unfolding tasks_kept_def by blast
    then obtain t where t: "Tasks s i = Some t" by blast
    with k t' have "t' = t" using tasks_keptD [OF k t t'(1)] by blast
    with t t' show "i \<in> done_set s j" by (auto simp: done_set_def)
  qed
  show "done_set s j \<subseteq> done_set s' j" using k unfolding tasks_kept_def done_set_def by blast
qed

lemma done_set_finish:
  assumes "Tasks s i = Some t" "td_State t \<noteq> StateDone" "Tasks s' = (Tasks s)(i \<mapsto> t')"
    "td_State t' = StateDone" "td_JobID t' = td_JobID t"
  shows "done_set s' j = (if td_JobID t = j then insert i (done_set s j) else done_set s j) \<and> i \<notin> done_set s j"
  using assms by (auto simp: done_set_def)

lemma sched_inv_tasks: "sched_inv s \<Longrightarrow> tasks_ok (Jobs s) (Tasks s) (batchTasks s)"
  by (simp add: sched_inv_def)

lemma done_step:
  assumes "sched_inv s" "sched_step s s'" "Jobs s j = Some job"
  obtains job' where "Jobs s' j = Some job'" "TasksTotal job' = TasksTotal job"
    "(TasksDone job' = TasksDone job \<and> done_set s' j = done_set s j) \<or>
     (\<exists>i. i \<notin> done_set s j \<and> done_set s' j = insert i (done_set s j) \<and> TasksDone job' = TasksDone job + 1)"
proof -
  note result = that
  show thesis
  proof (rule sched_step_effect [OF assms(1,2)])
    assume "tasks_kept s s'" "\<forall>j job. Jobs s j = Some job \<longrightarrow> Jobs s' j = Some job"
    with assms(3) done_set_kept show thesis by (intro result [of job]) auto
  next
    fix i t t' jb
    assume a: "Tasks s i = Some t" "td_State t = StateRunning" "Jobs s (td_JobID t) = Some jb"
      "td_State t' = StateDone" "task_core t' = task_core t" "Tasks s' = (Tasks s)(i \<mapsto> t')"
      "Jobs s' = (Jobs s)(td_JobID t \<mapsto> jb\<lparr>TasksDone := TasksDone jb + 1\<rparr>)"
    note fin = done_set_finish [OF a(1) _ a(6) a(4) task_core_eqD [OF a(5), THEN conjunct1], of j]
    show thesis
    proof (cases "td_JobID t = j")
      case True
      with a assms(3) fin show thesis by (intro result [of "jb\<lparr>TasksDone := TasksDone jb + 1\<rparr>"]) auto
    next
      case False
      with a assms(3) fin show thesis by (intro result [of job]) auto
    qed
  qed
qed

end
