(* ===== verification/Scheduler_Properties.thy ===== *)
theory Scheduler_Properties
  imports Scheduler
begin

text \<open>
  What the scheduler promises: the invariant of its state, the finality and the accounting of results, the
  recovery of expired leases, what a worker receives, and the inputs on which the event loop stops.
\<close>

subsection \<open>Finality and accounting over runs\<close>

lemma done_kept_step:
  assumes "sched_inv s" "sched_step s s'" "Tasks s i = Some t" "td_State t = StateDone"
  shows "Tasks s' i = Some t"
proof -
  show ?thesis
  proof (rule sched_step_effect [OF assms(1,2)])
    assume "tasks_kept s s'"
    with assms(3,4) show ?thesis unfolding tasks_kept_def by fastforce
  qed (use assms in auto)
qed

lemma done_kept_steps:
  assumes "sched_step\<^sup>*\<^sup>* s s'" "sched_inv s" "Tasks s i = Some t" "td_State t = StateDone"
  shows "Tasks s' i = Some t"
  using assms(1)
proof (induction rule: rtranclp_induct)
  case (step u v)
  then show ?case using done_kept_step sched.steps_inv [OF step(1) assms(2)] assms(4) by blast
qed (use assms in simp)

lemma done_accounting_steps:
  assumes "sched_step\<^sup>*\<^sup>* s s'" "sched_inv s" "Jobs s j = Some job" "finite (done_set s j)"
  shows "\<exists>job'. Jobs s' j = Some job' \<and> TasksTotal job' = TasksTotal job \<and> finite (done_set s' j) \<and>
    TasksDone job' - TasksDone job = int (card (done_set s' j)) - int (card (done_set s j))"
  using assms(1)
proof (induction rule: rtranclp_induct)
  case (step u v)
  then obtain jb where jb: "Jobs u j = Some jb" "TasksTotal jb = TasksTotal job" "finite (done_set u j)"
    "TasksDone jb - TasksDone job = int (card (done_set u j)) - int (card (done_set s j))" by blast
  have "sched_inv u" using sched.steps_inv [OF step(1) assms(2)] .
  from done_step [OF this step(2) jb(1)] obtain job' where
    "Jobs v j = Some job'" "TasksTotal job' = TasksTotal jb"
    "(TasksDone job' = TasksDone jb \<and> done_set v j = done_set u j) \<or>
     (\<exists>i. i \<notin> done_set u j \<and> done_set v j = insert i (done_set u j) \<and> TasksDone job' = TasksDone jb + 1)" by blast
  with jb show ?case by auto
qed (use assms in simp)

subsection \<open>Filling the queue\<close>

definition fresh_task :: "TaskDescription \<Rightarrow> bool" where
  "fresh_task t \<longleftrightarrow> \<not> Queued t \<and> td_State t = StatePending \<and> LeaseUntil t = 0 \<and> BackoffUntil t = 0"

lemma enqueue_fresh:
  assumes "Tasks s i = Some t" "fresh_task t" "0 < now e" "pendingLeaseRequests s = []"
  shows "if length (batchTasks s) < taskQueueSize
    then \<exists>s'. enqueueTask e s i = Runs (s', None) \<and> batchTasks s' = batchTasks s @ [i] \<and> pendingLeaseRequests s' = []
    else enqueueTask e s i = Blocks"
  using assms by (auto simp: enqueueTask_def fresh_task_def push_task_def Let_def add_stat_def)

lemma submit_fresh:
  assumes "list_all fresh_task tasks" "0 < now e" "\<And>n. \<not> ctx_done e n" "pendingLeaseRequests s = []"
    "length (batchTasks s) \<le> taskQueueSize"
  shows "if length (batchTasks s) + length tasks \<le> taskQueueSize
    then \<exists>s'. submit_tasks e i tasks s = Runs (s', None) \<and> batchTasks s' = batchTasks s @ map td_ID tasks
    else submit_tasks e i tasks s = Blocks"
  using assms
proof (induction tasks arbitrary: s i)
  case (Cons t tasks)
  let ?s = "set_task (td_ID t) t s"
  note enq = enqueue_fresh [of ?s "td_ID t" t e]
  show ?case
  proof (cases "length (batchTasks s) < taskQueueSize")
    case True
    with enq Cons.prems obtain s1 where s1: "enqueueTask e ?s (td_ID t) = Runs (s1, None)"
      "batchTasks s1 = batchTasks s @ [td_ID t]" "pendingLeaseRequests s1 = []" by auto
    with Cons.IH [of s1 "i + 1"] Cons.prems True show ?thesis by (auto split: if_splits)
  next
    case False
    with enq Cons.prems show ?thesis by simp
  qed
qed simp

subsection \<open>Expired leases\<close>

definition settled :: "sched_env \<Rightarrow> Scheduler \<Rightarrow> NodeId \<Rightarrow> bool" where
  "settled e s i \<longleftrightarrow> (\<exists>t. Tasks s i = Some t \<and>
     (Queued t \<or> td_State t = StateRunning \<and> LeaseUntil t = now e + Second * taskTTLSeconds))"

definition due :: "sched_env \<Rightarrow> TaskDescription \<Rightarrow> bool" where
  "due e t \<longleftrightarrow> td_State t \<noteq> StateDone \<and> LeaseUntil t < now e \<and> BackoffUntil t < now e"

lemma enqueue_due:
  assumes "sched_inv s" "Tasks s i = Some t" "due e t" "enqueueTask e s i = Runs (s', err)"
  shows "settled e s' i \<and> err = None"
  by (rule enqueueTask_cases [OF sched_inv_tasks [OF assms(1)] assms(2), of e])
    (use assms in \<open>auto simp: settled_def due_def Second_def taskTTLSeconds_def\<close>)

lemma enqueue_settled:
  assumes "sched_inv s" "settled e s i" "enqueueTask e s j = Runs (s', err)"
  shows "settled e s' i"
proof (cases "j = i")
  case False
  then show ?thesis
    using assms enqueueTask_other [OF sched_inv_tasks [OF assms(1)] assms(3), of i] by (simp add: settled_def)
next
  case True
  with assms(2) obtain t where t: "Tasks s i = Some t"
    "Queued t \<or> td_State t = StateRunning \<and> LeaseUntil t = now e + Second * taskTTLSeconds" by (auto simp: settled_def)
  have "s' = s"
    by (rule enqueueTask_cases [OF sched_inv_tasks [OF assms(1)] t(1), of e])
      (use assms(3) t True in \<open>auto simp: enqueueTask_def Second_def taskTTLSeconds_def split: if_splits\<close>)
  with assms(2) show ?thesis by simp
qed

lemma tick_settles:
  assumes "sched_inv s" "tick_tasks e order s = Runs (s', err)"
    and "settled e s i \<or> (i \<in> set order \<and> (\<exists>t. Tasks s i = Some t \<and> due e t))"
  shows "settled e s' i"
  using assms
proof (induction order arbitrary: s)
  case (Cons h order)
  show ?case
  proof (cases "\<exists>t. Tasks s h = Some t \<and> \<not> LeaseUntil t > now e \<and> td_State t \<noteq> StateDone")
    case True
    then obtain t where t: "Tasks s h = Some t" "\<not> LeaseUntil t > now e" "td_State t \<noteq> StateDone" by blast
    then obtain s1 err1 where s1: "enqueueTask e s h = Runs (s1, err1)"
      using Cons.prems(2) by (auto split: progress.splits)
    have inv: "sched_inv s1" by (rule enqueueTask_inv [OF Cons.prems(1) s1])
    have "err1 = None"
      by (rule enqueueTask_cases [OF sched_inv_tasks [OF Cons.prems(1)] t(1), of e]) (use s1 t(3) in auto)
    moreover have "settled e s1 i \<or> (i \<in> set order \<and> (\<exists>t. Tasks s1 i = Some t \<and> due e t))"
      using Cons.prems(3) enqueue_settled [OF Cons.prems(1) _ s1] enqueue_due [OF Cons.prems(1) _ _ s1]
        enqueueTask_other [OF sched_inv_tasks [OF Cons.prems(1)] s1, of i]
      by (cases "i = h") auto
    ultimately show ?thesis using Cons.IH [OF inv] Cons.prems(2) t s1 by auto
  next
    case False
    then have "tick_tasks e order s = Runs (s', err)"
      using Cons.prems(2) by (auto split: option.splits if_splits)
    moreover have "settled e s i \<or> (i \<in> set order \<and> (\<exists>t. Tasks s i = Some t \<and> due e t))"
      using Cons.prems(3) False by (auto simp: due_def)
    ultimately show ?thesis using Cons.IH [OF Cons.prems(1)] by blast
  qed
qed auto

subsection \<open>Backoff\<close>

lemma backoff_base:
  assumes "0 < n" "n \<le> 33"
  shows "sint (of_int Second * push_bit n 1 :: u64) = Second * 2 ^ n"
proof -
  have "of_int Second * push_bit n 1 = (of_int (Second * 2 ^ n) :: u64)"
    by (simp add: push_bit_eq_mult)
  moreover have "(2::int) ^ n \<le> 2 ^ 33" using assms by (intro power_increasing) auto
  then have "Second * 2 ^ n < 2 ^ 63" by (simp add: Second_def)
  moreover have "- (2 ^ 63) \<le> Second * 2 ^ n" by (rule order_trans [of _ 0]) (simp_all add: Second_def)
  ultimately show ?thesis by (simp only: sint64_of_int)
qed

lemma backoff_overflow:
  "n \<in> {34, 55, 56, 57, 58, 59, 60, 61, 62} \<Longrightarrow> sint (of_int Second * push_bit n 1 :: u64) \<le> 0"
  by (auto simp: Second_def push_bit_eq_mult sint64)

subsection \<open>Properties\<close>

text \<open>
  C10. In every state the event loop reaches, whatever the events and their surroundings: the queue of ready tasks
  holds exactly the tasks marked as queued, each once, all of them pending, and at most 1024; no lease
  request is kept in \<open>pendingLeaseRequests\<close> while a task is queued (a request that \<open>handleEvent\<close> forgets, see below, is not kept at
  all); and no request is answered twice.
\<close>

theorem scheduler_invariant:
  assumes "reach sched_init sched_step s"
  shows "distinct (batchTasks s) \<and> length (batchTasks s) \<le> taskQueueSize \<and>
    (\<forall>i. i \<in> set (batchTasks s) \<longleftrightarrow> (\<exists>t. Tasks s i = Some t \<and> Queued t)) \<and>
    (\<forall>i t. Tasks s i = Some t \<and> Queued t \<longrightarrow> td_State t = StatePending) \<and>
    (pendingLeaseRequests s \<noteq> [] \<longrightarrow> batchTasks s = []) \<and>
    distinct (map responseChan (pendingLeaseRequests s) @ map fst (responses s))"
  using sched.reach_inv [OF assms] by (auto simp: sched_inv_def tasks_ok_def leases_ok_def)

definition example_env :: sched_env where
  "example_env = \<lparr>now = 100, ctx_done = \<lambda>_. False, lease_expired = \<lambda>_. False, task_order = [], stream_order = [],
     rand_Int64N = \<lambda>n. n - 1, write_err = \<lambda>_ _. None, dir_err = \<lambda>_. None, planner = \<lambda>_ x. Ok x\<rparr>"

definition example_job :: JobDescription where
  "example_job = \<lparr>jd_ID = id_of_nat 1, jd_Name = [], jd_Binary = [0], MergerBinary = [], InputFile = [], TasksDone = 0,
     TasksTotal = 1, jd_Type = TypeBatch, jd_Topic = [], TargetTags = []\<rparr>"

definition new_task :: "nat \<Rightarrow> TaskDescription" where
  "new_task n = \<lparr>td_ID = id_of_nat n, td_JobID = id_of_nat 1, td_Name = [], td_Topic = [], td_Type = TaskTypeBatch,
     td_State = StatePending, td_Binary = [], ChunkID = int n, td_Stdin = [], Metadata = [], LeaseUntil = 0, BackoffUntil = 0,
     EnqueuedAt = 0, DispatchedAt = 0, DoneAt = 0, Attempts = 0, Queued = False\<rparr>"

lemma TypeBatch_not_Stream: "TypeBatch \<noteq> TypeStream"
  by (simp add: TypeBatch_def TypeStream_def str_def)

lemma fresh_new_task: "fresh_task (new_task n)"
  by (simp add: fresh_task_def new_task_def)

definition example_task_state :: TaskDescription where
  "example_task_state = (new_task 2)\<lparr>Queued := True, EnqueuedAt := 100\<rparr>"

definition example_state :: Scheduler where
  "example_state = NewScheduler\<lparr>Jobs := [id_of_nat 1 \<mapsto> example_job], Tasks := [id_of_nat 2 \<mapsto> example_task_state],
     batchTasks := [id_of_nat 2], stats := [IncEnqueued]\<rparr>"

lemma submit_example: "sched_step NewScheduler example_state"
proof (rule sched_event)
  show "event_ok NewScheduler (EventJobSubmitted example_job [new_task 2])"
    by (simp add: event_ok_def new_task_def example_job_def NewScheduler_def)
  show "handleEvent example_env NewScheduler (EventJobSubmitted example_job [new_task 2]) = Runs (example_state, None)"
    using TypeBatch_not_Stream
    by (simp add: handleEvent_def handle_submit_def example_env_def example_job_def NewScheduler_def new_task_def
        enqueueTask_def push_task_def add_stat_def taskQueueSize_def example_state_def example_task_state_def)
qed

lemma reach_example: "reach sched_init sched_step example_state"
proof -
  have "reach sched_init sched_step NewScheduler" by (rule reach_init) (simp add: sched_init_def)
  then show ?thesis using submit_example by (rule reach_step)
qed

theorem scheduler_invariant_witness:
  "reach sched_init sched_step example_state \<and> batchTasks example_state = [id_of_nat 2] \<and>
   (\<exists>t. Tasks example_state (id_of_nat 2) = Some t \<and> Queued t)"
proof -
  have "batchTasks example_state = [id_of_nat 2]" by (simp add: example_state_def)
  with scheduler_invariant [OF reach_example] reach_example show ?thesis by (metis list.set_intros(1))
qed

text \<open>
  C16. A result is final: once a task is done, no sequence of events changes anything in its description; and every
  result that counts for a job belongs to a different task: in every run the counter of finished
  tasks grows by exactly the number of tasks of the job that became done.
\<close>

theorem results_final_and_counted:
  assumes "reach sched_init sched_step s" "sched_step\<^sup>*\<^sup>* s s'"
  shows "(\<forall>i t. Tasks s i = Some t \<and> td_State t = StateDone \<longrightarrow> Tasks s' i = Some t) \<and>
    (\<forall>j job. Jobs s j = Some job \<longrightarrow>
      (\<exists>job'. Jobs s' j = Some job' \<and> TasksTotal job' = TasksTotal job \<and>
         TasksDone job' - TasksDone job = int (card (done_set s' j)) - int (card (done_set s j))))"
proof -
  have inv: "sched_inv s" using sched.reach_inv [OF assms(1)] .
  show ?thesis
    using done_kept_steps [OF assms(2) inv] done_accounting_steps [OF assms(2) inv] by simp
qed

definition example_lease :: leaseRequest where
  "example_lease = \<lparr>responseChan = 4, lr_request = example_task\<rparr>"

definition leased_state :: Scheduler where
  "leased_state = fst (handle_lease example_env example_state example_lease)"

definition done_state :: Scheduler where
  "done_state = (case markTaskDone example_env leased_state (id_of_nat 2) [49] of Runs (s, _) \<Rightarrow> s | _ \<Rightarrow> leased_state)"

lemma lease_example: "sched_step example_state leased_state"
proof (rule sched_event)
  show "event_ok example_state (EventLeaseRequest example_lease)"
    by (simp add: event_ok_def example_state_def NewScheduler_def)
  show "handleEvent example_env example_state (EventLeaseRequest example_lease) =
      Runs (leased_state, snd (handle_lease example_env example_state example_lease))"
    by (simp add: handleEvent_def example_env_def leased_state_def)
qed

lemmas example_eval = handle_lease_def example_state_def example_task_state_def new_task_def example_job_def example_env_def
  markTaskDispatched_def send_response_def add_stat_def NewScheduler_def markTaskDone_def markJobDone_def

lemma result_example: "sched_step leased_state done_state" "Jobs done_state (id_of_nat 1) = Some (example_job\<lparr>TasksDone := 1\<rparr>)"
proof -
  obtain t where t: "Tasks leased_state (id_of_nat 2) = Some t" "td_State t = StateRunning" "td_JobID t = id_of_nat 1"
    by (simp add: leased_state_def example_eval)
  have j: "Jobs leased_state (id_of_nat 1) = Some example_job"
    by (simp add: leased_state_def example_eval)
  obtain s' where s': "markTaskDone example_env leased_state (id_of_nat 2) [49] = Runs (s', None)"
    "Jobs s' (id_of_nat 1) = Some (example_job\<lparr>TasksDone := 1\<rparr>)"
    using t j by (simp add: markTaskDone_def markJobDone_def example_env_def example_job_def Let_def add_stat_def)
  then have d: "done_state = s'" by (simp add: done_state_def)
  show "sched_step leased_state done_state"
    by (rule sched_event [of leased_state "EventTaskDone (id_of_nat 2) [49]" example_env])
      (use s' d in \<open>simp_all add: event_ok_def handleEvent_def, simp add: example_env_def\<close>)
  show "Jobs done_state (id_of_nat 1) = Some (example_job\<lparr>TasksDone := 1\<rparr>)" using s' d by simp
qed

theorem results_final_and_counted_witness:
  "sched_step\<^sup>*\<^sup>* example_state done_state \<and>
   (\<exists>job'. Jobs done_state (id_of_nat 1) = Some job' \<and> TasksDone job' = 1 \<and>
      TasksDone job' = int (card (done_set done_state (id_of_nat 1))))"
proof -
  have steps: "sched_step\<^sup>*\<^sup>* example_state done_state" using lease_example result_example(1) by (meson rtranclp.simps)
  have "done_set example_state (id_of_nat 1) = {}"
    by (auto simp: done_set_def example_eval split: if_splits)
  moreover have "Jobs example_state (id_of_nat 1) = Some example_job" "TasksDone example_job = 0"
    by (simp_all add: example_eval)
  ultimately obtain job' where "Jobs done_state (id_of_nat 1) = Some job'"
    "TasksDone job' = int (card (done_set done_state (id_of_nat 1)))"
    using results_final_and_counted [OF reach_example steps] by fastforce
  with steps result_example(2) show ?thesis by auto
qed

text \<open>
  C30. Expired leases are recovered: when a tick returns, every unfinished task whose lease and backoff had expired is
  in the queue again or has just been handed to a waiting worker with a new lease of ten seconds.
\<close>

theorem tick_recovers:
  assumes "reach sched_init sched_step s" "handle_tick e s = Runs (s', err)" "dom (Tasks s) \<subseteq> set (task_order e)"
    and "Tasks s i = Some t" "td_State t \<noteq> StateDone" "LeaseUntil t < now e" "BackoffUntil t < now e"
  shows "\<exists>t'. Tasks s' i = Some t' \<and>
    (Queued t' \<and> i \<in> set (batchTasks s') \<or>
     td_State t' = StateRunning \<and> LeaseUntil t' = now e + 10 * Second)"
proof -
  let ?s = "s\<lparr>pendingLeaseRequests := filter (\<lambda>req. \<not> lease_expired e (responseChan req)) (pendingLeaseRequests s)\<rparr>"
  have inv: "sched_inv ?s" using sched.reach_inv [OF assms(1)] by (auto simp: sched_inv_def leases_filter)
  have t: "tick_tasks e (task_order e) ?s = Runs (s', err)" using assms(2) by (simp add: handle_tick_def)
  have "settled e s' i"
    by (rule tick_settles [OF inv t]) (use assms in \<open>auto simp: due_def\<close>)
  moreover have "sched_inv s'" using tick_tasks_inv [OF inv t] .
  ultimately show ?thesis by (auto simp: settled_def taskTTLSeconds_def sched_inv_def tasks_ok_def)
qed

text \<open>A task that was leased at time 100, ten seconds and a nanosecond later.\<close>

definition late_env :: sched_env where
  "late_env = example_env\<lparr>now := 101 + 10 * Second, task_order := [id_of_nat 2]\<rparr>"

theorem tick_recovers_witness:
  "\<exists>t s' t'. Tasks leased_state (id_of_nat 2) = Some t \<and> td_State t = StateRunning \<and> \<not> Queued t \<and> LeaseUntil t = 100 + 10 * Second \<and>
     batchTasks leased_state = [] \<and> handle_tick late_env leased_state = Runs (s', None) \<and> Tasks s' (id_of_nat 2) = Some t' \<and>
     (Queued t' \<and> id_of_nat 2 \<in> set (batchTasks s') \<or> td_State t' = StateRunning \<and> LeaseUntil t' = 101 + 20 * Second)"
proof -
  obtain t where t: "Tasks leased_state (id_of_nat 2) = Some t" "td_State t = StateRunning" "\<not> Queued t" "LeaseUntil t = 100 + 10 * Second"
    "BackoffUntil t = 0"
    by (simp add: leased_state_def example_eval taskTTLSeconds_def)
  have b: "batchTasks leased_state = []" by (simp add: leased_state_def example_eval)
  obtain s' where s': "handle_tick late_env leased_state = Runs (s', None)"
    by (simp add: handle_tick_def late_env_def leased_state_def example_eval enqueueTask_def push_task_def taskQueueSize_def taskTTLSeconds_def
        Let_def Second_def)
  have "reach sched_init sched_step leased_state" by (rule reach_step [OF reach_example lease_example])
  moreover have "dom (Tasks leased_state) \<subseteq> set (task_order late_env)"
    by (simp add: late_env_def leased_state_def example_eval)
  ultimately show ?thesis
    using tick_recovers [OF _ s' _ t(1)] t b s' by (auto simp: late_env_def Second_def)
qed

lemma handle_lease_queue:
  assumes "sched_inv s" "batchTasks s = i # rest" "Tasks s i = Some t" "Jobs s (td_JobID t) = Some job"
  shows "\<exists>st. handle_lease e s r = (s\<lparr>batchTasks := rest, Tasks := (Tasks s)(i \<mapsto> dispatched e t), stats := st,
      responses := responses s @ [(responseChan r, \<lparr>payload = EncodeTask (response_task t job), lr_err = None\<rparr>)]\<rparr>, None)"
proof -
  have ok: "tasks_ok (Jobs s) (Tasks s) (i # rest)" using assms(1,2) by (simp add: sched_inv_def)
  note f = tasks_ok_fields [OF ok assms(3)] and q = tasks_ok_queued [OF ok assms(3)]
  let ?u = "s\<lparr>batchTasks := rest\<rparr>"
  obtain st where "fst (markTaskDispatched e ?u i) = ?u\<lparr>Tasks := (Tasks ?u)(i \<mapsto> dispatched e t), stats := st\<rparr>"
    using markTaskDispatched_pending [of ?u i t e] assms(3) f(3) q by auto
  moreover have "(response_task t job)\<lparr>TaskID := i\<rparr> = response_task t job" using f(1) by (simp add: response_task_def)
  ultimately show ?thesis
    using assms(2-4) by (intro exI [of _ st]) (simp add: handle_lease_def Let_def send_response_def)
qed

lemma DecodeTask_response:
  "wf_task mem (response_task t job) \<Longrightarrow> DecodeTask mem (EncodeTask (response_task t job)) = Ok (response_task t job)"
  using DecodeTask_EncodeTask [of mem "response_task t job" "[]"] by (simp add: response_task_def Duration_Abs_def)

text \<open>
  A lease request on a non-empty queue is answered with the first queued task: the bytes sent decode to a task
  with its identifier, job, topic, the job's binary and its standard input; the task leaves the queue, is
  running, and is leased for ten seconds.
\<close>

theorem lease_hands_out_task:
  assumes "reach sched_init sched_step s" "batchTasks s = i # rest" "Tasks s i = Some t"
    and "Jobs s (td_JobID t) = Some job" "wf_task mem (response_task t job)"
  shows "\<exists>p t'. responses (fst (handle_lease e s r)) = responses s @ [(responseChan r, \<lparr>payload = p, lr_err = None\<rparr>)] \<and>
    DecodeTask mem p = Ok (response_task t job) \<and> TaskID (response_task t job) = i \<and>
    batchTasks (fst (handle_lease e s r)) = rest \<and> Tasks (fst (handle_lease e s r)) i = Some t' \<and>
    td_State t' = StateRunning \<and> LeaseUntil t' = now e + 10 * Second"
proof -
  have inv: "sched_inv s" by (rule sched.reach_inv [OF assms(1)])
  then have "td_ID t = i" using assms(3) by (simp add: sched_inv_def tasks_ok_def)
  with handle_lease_queue [OF inv assms(2-4), of e r] DecodeTask_response [OF assms(5)] show ?thesis
    by (auto simp: response_task_def Second_def)
qed

theorem lease_hands_out_task_witness:
  "\<exists>p t'. DecodeTask 1000 p = Ok (response_task example_task_state example_job) \<and>
    Tasks (fst (handle_lease example_env example_state \<lparr>responseChan = 4, lr_request = example_task\<rparr>)) (id_of_nat 2) = Some t' \<and>
    td_State t' = StateRunning"
proof -
  have b: "batchTasks example_state = [id_of_nat 2]" "Tasks example_state (id_of_nat 2) = Some example_task_state"
    "Jobs example_state (td_JobID example_task_state) = Some example_job"
    by (simp_all add: example_state_def example_task_state_def new_task_def)
  have "wf_task 1000 (response_task example_task_state example_job)"
    by (simp add: wf_task_def wf_header_def wf_section_def response_task_def example_task_state_def new_task_def example_job_def
        TaskTypeBatch_def str_def)
  from lease_hands_out_task [OF reach_example b this, of example_env "\<lparr>responseChan = 4, lr_request = example_task\<rparr>"]
  show ?thesis by blast
qed

text \<open>
  A job with more tasks than the queue has free places stops the scheduler: with no waiting workers, the event
  loop blocks for ever in its own queue while it submits the job, because it is the only reader of that
  queue; a job that fits is queued completely.
\<close>

theorem big_job_blocks:
  assumes "pendingLeaseRequests s = []" "length (batchTasks s) \<le> taskQueueSize" "Jobs s (jd_ID job) = None"
    and "jd_Type job = TypeBatch" "list_all fresh_task tasks" "0 < now e" "\<forall>n. \<not> ctx_done e n"
  shows "if length (batchTasks s) + length tasks \<le> taskQueueSize
    then \<exists>s'. handleEvent e s (EventJobSubmitted job tasks) = Runs (s', None) \<and> batchTasks s' = batchTasks s @ map td_ID tasks
    else handleEvent e s (EventJobSubmitted job tasks) = Blocks"
  using submit_fresh [of tasks e "s\<lparr>Jobs := (Jobs s)(jd_ID job \<mapsto> job)\<rparr>" 1] assms TypeBatch_not_Stream
  by (auto simp: handleEvent_def handle_submit_def split: if_splits)

theorem big_job_blocks_witness:
  "handleEvent example_env NewScheduler (EventJobSubmitted example_job (map new_task [2..<1100])) = Blocks"
proof -
  define tasks where "tasks = map new_task [2..<1100]"
  have "list_all fresh_task (map new_task xs)" for xs using fresh_new_task by (simp add: list_all_iff)
  then have t: "list_all fresh_task tasks" unfolding tasks_def by blast
  have l: "length tasks = 1098" unfolding tasks_def by (simp del: upt_rec_numeral)
  have s: "pendingLeaseRequests NewScheduler = []" "batchTasks NewScheduler = []" "Jobs NewScheduler = Map.empty"
    by (simp_all add: NewScheduler_def)
  have "jd_Type example_job = TypeBatch" "0 < now example_env" "\<forall>n. \<not> ctx_done example_env n"
    by (simp_all add: example_job_def example_env_def)
  then have "handleEvent example_env NewScheduler (EventJobSubmitted example_job tasks) = Blocks"
    using big_job_blocks [of NewScheduler example_job tasks example_env] t l s by (simp add: taskQueueSize_def)
  then show ?thesis unfolding tasks_def .
qed

text \<open>
  C31. The backoff of attempts 1 to 33 is a random duration below ten seconds; the multiplication overflows for
  attempt 34 and again for attempts 55 to 62, where the function panics although its comment says that
  the guard at 63 avoids the overflow.
\<close>

theorem backoff_bounds:
  assumes "\<forall>n > 0. 0 \<le> rand_Int64N e n \<and> rand_Int64N e n < n"
  shows "(\<forall>a. 1 \<le> a \<and> a \<le> 33 \<longrightarrow>
      (\<exists>d. calculateBackoffUntil e a = Ok d \<and> 0 \<le> d \<and> d < min (Second * 2 ^ nat a) (10 * Second))) \<and>
    (\<forall>a \<in> {34, 55, 56, 57, 58, 59, 60, 61, 62}. calculateBackoffUntil e a = Panic)"
proof (intro conjI allI impI ballI)
  fix a :: int assume a: "1 \<le> a \<and> a \<le> 33"
  let ?b = "min (Second * 2 ^ nat a) (10 * Second)"
  have "sint (of_int Second * push_bit (nat a) 1 :: u64) = Second * 2 ^ nat a"
    using a by (intro backoff_base) auto
  moreover have "0 < ?b" by (simp add: Second_def)
  ultimately have "calculateBackoffUntil e a = Ok (rand_Int64N e ?b)"
    using a by (simp add: calculateBackoffUntil_def Let_def min_le_iff_disj not_le)
  with assms \<open>0 < ?b\<close> show "\<exists>d. calculateBackoffUntil e a = Ok d \<and> 0 \<le> d \<and> d < ?b" by blast
next
  fix a :: int assume a: "a \<in> {34, 55, 56, 57, 58, 59, 60, 61, 62}"
  then have n: "nat a \<in> {34, 55, 56, 57, 58, 59, 60, 61, 62}" by auto
  have "min (sint (of_int Second * push_bit (nat a) 1 :: u64)) (10 * Second) \<le> 0"
    using backoff_overflow [OF n] by linarith
  moreover have "\<not> a \<le> 0" "\<not> a \<ge> 63" using a by auto
  ultimately show "calculateBackoffUntil e a = Panic" by (simp add: calculateBackoffUntil_def Let_def)
qed

theorem backoff_bounds_witness:
  "(\<exists>d. calculateBackoffUntil example_env 3 = Ok d \<and> d < 8 * Second) \<and> calculateBackoffUntil example_env 34 = Panic"
proof -
  have "\<forall>n > 0. 0 \<le> rand_Int64N example_env n \<and> rand_Int64N example_env n < n" by (simp add: example_env_def)
  note b = backoff_bounds [OF this]
  have "\<exists>d. calculateBackoffUntil example_env 3 = Ok d \<and> 0 \<le> d \<and> d < min (Second * 2 ^ nat 3) (10 * Second)"
    by (rule b [THEN conjunct1, THEN spec [of _ 3], THEN mp]) simp
  moreover have "Second * 2 ^ nat 3 = 8 * Second" by simp
  moreover from b have "calculateBackoffUntil example_env 34 = Panic" by simp
  ultimately show ?thesis by auto
qed

text \<open>
  A worker that would also take a stream task is forgotten: when the queue is empty and no stream job has one of its
  tags, its request is neither answered nor kept, so that a batch task that arrives afterwards is not
  given to it; a request for batch tasks only is kept and served by the next task.
\<close>

theorem stream_request_forgotten:
  assumes "batchTasks s = []" "\<forall>j desc. streamTasks s j = Some desc \<longrightarrow> set (TargetTags desc) \<inter> set (Tags (lr_request r)) = {}"
  shows "handle_lease e s r =
    (if task_RequestMode (lr_request r) = RequestModeNeedBatch
     then s\<lparr>pendingLeaseRequests := pendingLeaseRequests s @ [r]\<rparr> else s, None)"
proof -
  have "List.find (\<lambda>j. case streamTasks s j of
      None \<Rightarrow> False
    | Some desc \<Rightarrow> list_ex (\<lambda>tag. tag \<in> set (Tags (lr_request r))) (TargetTags desc)) (stream_order e) = None"
    using assms(2) by (fastforce simp: find_None_iff list_ex_iff split: option.splits)
  with assms(1) show ?thesis by (simp add: handle_lease_def)
qed

theorem stream_request_forgotten_witness:
  "let req = \<lparr>responseChan = 1, lr_request = \<lparr>task_OpCode = LeaseRequest, TaskID = zero_id, JobID = zero_id, Type = [], Topic = [],
       task_RequestMode = RequestModeNeedBatchOrStream, Binary = [], TTL = 0, Result = [], Stdin = [], Capabilities = [], Tags = []\<rparr>\<rparr>
   in handle_lease example_env NewScheduler req = (NewScheduler, None)"
  unfolding Let_def
  by (subst stream_request_forgotten)
    (simp_all add: NewScheduler_def RequestModeNeedBatch_def RequestModeNeedBatchOrStream_def)

end
