(* ===== verification/Job_Registration.thy ===== *)
theory Job_Registration
  imports Scheduler
begin

text \<open>
  How jobs enter the scheduler: \<open>RegisterJob\<close> and \<open>reloadMemoryOnStartup\<close> (\<open>src/scheduler/scheduler.go\<close>), the
  specifications and plans they read (\<open>src/scheduler/job_parser.go\<close>), and the messages of workers
  (\<open>TaskHandler.HandleMessage\<close> of \<open>task.go\<close>, \<open>HandleTaskLeaseRequest\<close>).
  \<^item> \<open>RegisterJob\<close> is given a job specification that was already parsed. \<open>reg_env\<close> is what it sees of its surroundings: the
    random identifiers, the files outside the job directory, the errors of the file system, the planner, the JSON decoder,
    and the order in which Go iterates over the map of tasks. The job's directory (\<open>None\<close> before it is
    created) and the events it sends are its state; what it wrote before an error stays.
  \<^item> \<open>reloadMemoryOnStartup\<close> reads a file system through the interface \<open>fs.FS\<close>: listings and contents, each of which
    may fail. It runs before the event loop is started, so nobody receives from the channel \<open>events\<close>: sending
    more than its capacity blocks.
  Logging is left out.
\<close>

subsection \<open>Specifications and plans\<close>

record TaskSpec =
  Input :: bytes
  Run :: bytes
  ts_Type :: bytes

record JobSpec =
  js_Name :: bytes
  js_Type :: bytes
  js_Topic :: bytes
  js_TargetTags :: "bytes list"
  js_Binary :: bytes
  js_Tasks :: "bytes \<rightharpoonup> TaskSpec"

text \<open>The fields \<open>Metadata\<close> and \<open>InputRefs\<close> of a planned task, which no code reads, are left out.\<close>

record ExecutionTaskPlan =
  etp_ID :: int
  etp_Stdin :: bytes

record ExecutionPlan =
  ep_Name :: bytes
  Total :: int
  ep_Tasks :: "ExecutionTaskPlan list"

text \<open>
  \<open>JobSpec.String\<close>: \<open>names\<close> is the order in which Go iterates over the map of tasks; the output does not depend on it.
\<close>

definition newline :: byte where "newline = 10"

definition trim_newlines :: "bytes \<Rightarrow> bytes" where
  "trim_newlines s = rev (dropWhile (\<lambda>c. c = newline) (rev s))"

definition task_line :: "(bytes \<rightharpoonup> TaskSpec) \<Rightarrow> bytes \<Rightarrow> bytes" where
  "task_line tasks n =
     (case tasks n of
        None \<Rightarrow> str ''  - '' @ n @ str '': run='' @ [newline]
      | Some t \<Rightarrow>
          if Input t \<noteq> []
          then str ''  - '' @ n @ str '': run='' @ Run t @ str '' input='' @ Input t @ [newline]
          else str ''  - '' @ n @ str '': run='' @ Run t @ [newline])"

definition JobSpec_String :: "bytes list \<Rightarrow> JobSpec \<Rightarrow> bytes" where
  "JobSpec_String names js =
     (let name = (if js_Name js = [] then str ''<unnamed>'' else js_Name js);
          taskNames = sort names;
          b = str ''job: '' @ name @ [newline];
          b = (if js_Binary js \<noteq> [] then b @ str ''binary: '' @ js_Binary js @ [newline] else b);
          b = b @ str ''tasks: '' @ decimal (int (length taskNames)) @ [newline];
          b = b @ concat (map (task_line (js_Tasks js)) taskNames)
      in trim_newlines b)"

text \<open>
  \<open>YAMLParser.Parse\<close>: \<open>yaml\<close> is the decoder of the YAML library, which sets fields of the specification it is given and may then fail: the
  fields it has set by then stay set.
\<close>

definition zero_JobSpec :: JobSpec where
  "zero_JobSpec = \<lparr>js_Name = [], js_Type = [], js_Topic = [], js_TargetTags = [], js_Binary = [], js_Tasks = Map.empty\<rparr>"

definition Parse :: "(bytes \<Rightarrow> JobSpec \<Rightarrow> JobSpec \<times> string option) \<Rightarrow> bytes \<Rightarrow> JobSpec \<Rightarrow> JobSpec \<times> string option" where
  "Parse yaml from to =
     (let (to, err) = yaml from to in
      case err of Some err \<Rightarrow> (to, Some err) | None \<Rightarrow> (to, None))"

subsection \<open>Registration\<close>

record reg_env =
  random_id :: "nat \<Rightarrow> NodeId"
  ReadFile :: "bytes \<Rightarrow> bytes outcome"
  mkdir_err :: "string option"
  reg_write_err :: "bytes \<Rightarrow> string option"
  plan_read_err :: "string option"
  reg_planner :: "bytes \<Rightarrow> bytes outcome"
  Unmarshal :: "bytes \<Rightarrow> ExecutionPlan outcome"
  spec_order :: "bytes list"

record reg_state =
  rs_dir :: "(bytes \<times> bytes) list option"
  rs_plan :: ExecutionPlan
  rs_jd :: JobDescription
  rs_tasks :: "TaskDescription list"
  rs_events :: "Event list"

type_synonym reg_result = "(reg_state \<times> string option) progress"

definition zero_job :: JobDescription where
  "zero_job =
     \<lparr>jd_ID = zero_id, jd_Name = [], jd_Binary = [], MergerBinary = [], InputFile = [], TasksDone = 0, TasksTotal = 0,
      jd_Type = [], jd_Topic = [], TargetTags = []\<rparr>"

definition zero_task :: TaskDescription where
  "zero_task =
     \<lparr>td_ID = zero_id, td_JobID = zero_id, td_Name = [], td_Topic = [], td_Type = [], td_State = StatePending, td_Binary = [],
      ChunkID = 0, td_Stdin = [], Metadata = [], LeaseUntil = 0, BackoffUntil = 0, EnqueuedAt = 0, DispatchedAt = 0,
      DoneAt = 0, Attempts = 0, Queued = False\<rparr>"

definition new_reg :: reg_state where
  "new_reg =
     \<lparr>rs_dir = None, rs_plan = \<lparr>ep_Name = [], Total = 0, ep_Tasks = []\<rparr>, rs_jd = zero_job, rs_tasks = [], rs_events = []\<rparr>"

text \<open>Go's failures of a call that returns an error, with the state the caller leaves behind.\<close>

definition reg_bind :: "reg_state \<Rightarrow> 'a outcome \<Rightarrow> ('a \<Rightarrow> reg_result) \<Rightarrow> reg_result" where
  "reg_bind st r f = (case r of Ok x \<Rightarrow> f x | Err err \<Rightarrow> Runs (st, Some err) | Panic \<Rightarrow> Crashes)"

text \<open>\<open>os.WriteFile\<close> in the job's directory: an error when it does not exist.\<close>

definition reg_write :: "reg_env \<Rightarrow> bytes \<Rightarrow> bytes \<Rightarrow> reg_state \<Rightarrow> reg_state outcome" where
  "reg_write e name content st =
     (case rs_dir st of
        None \<Rightarrow> Err ''no such file or directory''
      | Some files \<Rightarrow>
          (case reg_write_err e name of
             Some err \<Rightarrow> Err err
           | None \<Rightarrow> Ok (st\<lparr>rs_dir := Some (write_file name content files)\<rparr>)))"

definition reg_read_plan :: "reg_env \<Rightarrow> reg_state \<Rightarrow> bytes outcome" where
  "reg_read_plan e st =
     (case plan_read_err e of
        Some err \<Rightarrow> Err err
      | None \<Rightarrow>
          (case rs_dir st of
             None \<Rightarrow> Err ''no such file or directory''
           | Some files \<Rightarrow>
               (case map_of files (str ''plan.json'') of
                  None \<Rightarrow> Err ''no such file or directory''
                | Some b \<Rightarrow> Ok b)))"

definition register_split :: "reg_env \<Rightarrow> TaskSpec \<Rightarrow> reg_state \<Rightarrow> reg_result" where
  "register_split e taskSpec st =
     (case mkdir_err e of
        Some err \<Rightarrow> Runs (st, Some err)
      | None \<Rightarrow>
          let st = st\<lparr>rs_dir := Some (case rs_dir st of None \<Rightarrow> [] | Some files \<Rightarrow> files)\<rparr> in
          reg_bind st (ReadFile e (Run taskSpec)) (\<lambda>binary.
          reg_bind st (reg_write e (str ''plan.wasm'') binary st) (\<lambda>st.
          reg_bind st (reg_planner e binary) (\<lambda>plan.
          reg_bind st (reg_write e (str ''plan.json'') plan st) (\<lambda>st.
          Runs (st, None))))))"

fun plan_tasks :: "(nat \<Rightarrow> NodeId) \<Rightarrow> NodeId \<Rightarrow> bytes \<Rightarrow> bytes \<Rightarrow> bytes \<Rightarrow> ExecutionTaskPlan list \<Rightarrow> TaskDescription list outcome" where
  "plan_tasks ids jobID topic taskType name [] = Ok []"
| "plan_tasks ids jobID topic taskType name (t # ts) =
     (case b64_DecodeString (etp_Stdin t) of
        Ok stdinBytes \<Rightarrow>
          obind (plan_tasks (\<lambda>n. ids (n + 1)) jobID topic taskType name ts) (\<lambda>tds.
          Ok (zero_task\<lparr>td_ID := ids 0, td_JobID := jobID, td_Name := name @ str ''-'' @ decimal (etp_ID t),
                td_Topic := topic, td_Type := taskType, td_Stdin := stdinBytes, ChunkID := etp_ID t\<rparr> # tds))
      | _ \<Rightarrow> Err ''stdin base64 decode failed'')"

definition register_execute :: "reg_env \<Rightarrow> JobSpec \<Rightarrow> TaskSpec \<Rightarrow> reg_state \<Rightarrow> reg_result" where
  "register_execute e job taskSpec st =
     (let jobID = random_id e 0 in
      reg_bind st (reg_read_plan e st) (\<lambda>planBytes.
      reg_bind st (Unmarshal e planBytes) (\<lambda>plan.
      let st = st\<lparr>rs_plan := plan\<rparr> in
      if Total plan \<noteq> int (length (ep_Tasks plan)) then Runs (st, Some ''plan total mismatch'')
      else
        reg_bind st (ReadFile e (Run taskSpec)) (\<lambda>binary.
        reg_bind st (reg_write e (str ''map.wasm'') binary st) (\<lambda>st.
        let st = st\<lparr>rs_jd := zero_job\<lparr>jd_ID := jobID, jd_Name := ep_Name plan, jd_Binary := binary,
                    TasksTotal := Total plan, jd_Type := TypeBatch, jd_Topic := js_Topic job\<rparr>\<rparr>;
            taskType = (if ts_Type taskSpec = [] then TaskTypeBatch else ts_Type taskSpec)
        in reg_bind st (plan_tasks (\<lambda>n. random_id e (n + 1)) jobID (js_Topic job) taskType (ep_Name plan) (ep_Tasks plan))
             (\<lambda>tasks. Runs (st\<lparr>rs_tasks := tasks\<rparr>, None)))))))"

definition register_merge :: "reg_env \<Rightarrow> TaskSpec \<Rightarrow> reg_state \<Rightarrow> reg_result" where
  "register_merge e taskSpec st =
     (reg_bind st (ReadFile e (Run taskSpec)) (\<lambda>binary.
      reg_bind st (reg_write e (str ''reduce.wasm'') binary st) (\<lambda>st.
      let jd = (rs_jd st)\<lparr>MergerBinary := binary\<rparr>
      in Runs (st\<lparr>rs_jd := jd, rs_events := rs_events st @ [EventJobSubmitted jd (rs_tasks st)]\<rparr>, None))))"

fun register_tasks :: "reg_env \<Rightarrow> JobSpec \<Rightarrow> bytes list \<Rightarrow> reg_state \<Rightarrow> reg_result" where
  "register_tasks e job [] st = Runs (st, None)"
| "register_tasks e job (name # order) st =
     (case js_Tasks job name of
        None \<Rightarrow> register_tasks e job order st
      | Some taskSpec \<Rightarrow>
          (case if name = str ''split'' then register_split e taskSpec st
                else if name = str ''execute'' then register_execute e job taskSpec st
                else if name = str ''merge'' then register_merge e taskSpec st
                else Runs (st, None) of
             Runs (st, None) \<Rightarrow> register_tasks e job order st
           | Runs (st, Some err) \<Rightarrow> Runs (st, Some err)
           | Blocks \<Rightarrow> Blocks
           | Crashes \<Rightarrow> Crashes))"

definition RegisterJob :: "reg_env \<Rightarrow> JobSpec \<Rightarrow> reg_result" where
  "RegisterJob e job =
     (if js_Type job = TypeStream then
        if js_Binary job = [] then Runs (new_reg, Some ''stream job requires binary'')
        else reg_bind new_reg (ReadFile e (js_Binary job)) (\<lambda>binary.
          let jd = zero_job\<lparr>jd_ID := random_id e 0, jd_Name := js_Name job, jd_Binary := binary, TasksTotal := 1,
                jd_Type := js_Type job, jd_Topic := js_Topic job, TargetTags := js_TargetTags job\<rparr>
          in Runs (new_reg\<lparr>rs_events := [EventJobSubmitted jd []]\<rparr>, None))
      else register_tasks e job (spec_order e) new_reg)"

subsection \<open>Reload\<close>

record job_fs =
  root_dir :: "(bytes \<times> bool) list outcome"
  list_dir :: "bytes \<Rightarrow> bytes list outcome"
  read_in :: "bytes \<Rightarrow> bytes \<Rightarrow> bytes outcome"

record reload_env =
  reload_id :: "nat \<Rightarrow> NodeId"
  reload_Unmarshal :: "bytes \<Rightarrow> ExecutionPlan outcome"

text \<open>
  The scan of a job's directory: whether the output was found, and the keys of \<open>existing\<close>, a list without duplicates.
\<close>

fun scan_files :: "bytes list \<Rightarrow> int list \<Rightarrow> bool \<times> int list" where
  "scan_files [] existing = (False, existing)"
| "scan_files (name # files) existing =
     (if name = str ''output.json'' then (True, existing)
      else if name = str ''plan.json'' then scan_files files existing
      else if ends_with name (str ''.json'') then
        (case Atoi (TrimSuffix name (str ''.json'')) of
           Ok i \<Rightarrow> scan_files files (List.insert i existing)
         | _ \<Rightarrow> scan_files files existing)
      else scan_files files existing)"

text \<open>\<open>n\<close> identifiers have been drawn before; the result tells how many have been drawn after.\<close>

fun rebuild_tasks :: "(nat \<Rightarrow> NodeId) \<Rightarrow> NodeId \<Rightarrow> bytes \<Rightarrow> int list \<Rightarrow> nat \<Rightarrow> nat \<Rightarrow> ExecutionTaskPlan list \<Rightarrow>
    (TaskDescription list \<times> nat) outcome" where
  "rebuild_tasks ids jobID name existing n i [] = Ok ([], n)"
| "rebuild_tasks ids jobID name existing n i (t # ts) =
     (if int i \<in> set existing then rebuild_tasks ids jobID name existing n (i + 1) ts
      else
        (case b64_DecodeString (etp_Stdin t) of
           Ok stdinBytes \<Rightarrow>
             obind (rebuild_tasks ids jobID name existing (n + 1) (i + 1) ts) (\<lambda>(tds, n').
             Ok (zero_task\<lparr>td_ID := ids n, td_JobID := jobID, td_Name := name @ str ''-'' @ decimal (etp_ID t),
                   td_Type := TaskTypeBatch, td_Stdin := stdinBytes, ChunkID := etp_ID t\<rparr> # tds, n'))
         | Err err \<Rightarrow> Err err
         | Panic \<Rightarrow> Panic))"

text \<open>What a directory contributes: nothing, or a job with its tasks.\<close>

definition reload_job :: "reload_env \<Rightarrow> job_fs \<Rightarrow> nat \<Rightarrow> bytes \<times> bool \<Rightarrow> (Event list \<times> nat) outcome" where
  "reload_job e fsys n jobDir =
     (let jobName = fst jobDir in
      if \<not> snd jobDir then Ok ([], n)
      else case hex_DecodeString jobName of
        Ok raw \<Rightarrow>
          if length raw \<noteq> 32 then Ok ([], n)
          else
            let jobID = node_id raw in
            obind (list_dir fsys jobName) (\<lambda>files.
            let (hasOutput, existing) = scan_files files [] in
            if hasOutput then Ok ([], n)
            else
              obind (read_in fsys jobName (str ''plan.json'')) (\<lambda>planBytes.
              obind (read_in fsys jobName (str ''map.wasm'')) (\<lambda>execBytes.
              obind (read_in fsys jobName (str ''reduce.wasm'')) (\<lambda>mergeBytes.
              obind (reload_Unmarshal e planBytes) (\<lambda>executionPlan.
              let jd = zero_job\<lparr>jd_ID := jobID, jd_Name := ep_Name executionPlan, jd_Binary := execBytes,
                    MergerBinary := mergeBytes, TasksDone := int (length existing), TasksTotal := Total executionPlan,
                    jd_Type := TypeBatch\<rparr>
              in obind (rebuild_tasks (reload_id e) jobID (ep_Name executionPlan) existing n 0 (ep_Tasks executionPlan))
                (\<lambda>(tasks, n).
                 Ok (if length tasks > 0 then [EventJobSubmitted jd tasks]
                     else [EventJobSubmitted jd [], EventJobDone jobID], n)))))))
      | _ \<Rightarrow> Ok ([], n))"

definition send_events :: "Event list \<Rightarrow> Event list \<Rightarrow> Event list option" where
  "send_events evs queue = (if length queue + length evs \<le> eventLoopBufferSize then Some (queue @ evs) else None)"

fun reload_dirs :: "reload_env \<Rightarrow> job_fs \<Rightarrow> nat \<Rightarrow> (bytes \<times> bool) list \<Rightarrow> Event list \<Rightarrow> (Event list \<times> string option) progress" where
  "reload_dirs e fsys n [] queue = Runs (queue, None)"
| "reload_dirs e fsys n (jobDir # jobDirs) queue =
     (case reload_job e fsys n jobDir of
        Ok (evs, n) \<Rightarrow>
          (case send_events evs queue of
             None \<Rightarrow> Blocks
           | Some queue \<Rightarrow> reload_dirs e fsys n jobDirs queue)
      | Err err \<Rightarrow> Runs (queue, Some err)
      | Panic \<Rightarrow> Crashes)"

definition reloadMemoryOnStartup :: "reload_env \<Rightarrow> job_fs \<Rightarrow> (Event list \<times> string option) progress" where
  "reloadMemoryOnStartup e fsys =
     (case root_dir fsys of
        Ok jobDirs \<Rightarrow> reload_dirs e fsys 0 jobDirs []
      | Err err \<Rightarrow> Runs ([], Some err)
      | Panic \<Rightarrow> Crashes)"

subsection \<open>Messages of workers\<close>

text \<open>
  \<open>HandleTaskLeaseRequest\<close> sends an event with a new response channel and waits: \<open>wait\<close> is the response it receives,
  \<open>None\<close> when the context ends first. \<open>HandleMessage\<close> returns the answer and the events it sent.
\<close>

definition HandleTaskLeaseRequest :: "nat \<Rightarrow> leaseResponse option \<Rightarrow> Task \<Rightarrow> bytes outcome \<times> Event list" where
  "HandleTaskLeaseRequest ch wait task =
     (case wait of
        Some r \<Rightarrow> (case lr_err r of Some err \<Rightarrow> Err err | None \<Rightarrow> Ok (payload r))
      | None \<Rightarrow> Err ''context deadline exceeded'',
      [EventLeaseRequest \<lparr>responseChan = ch, lr_request = task\<rparr>])"

definition HandleMessage :: "nat \<Rightarrow> nat \<Rightarrow> leaseResponse option \<Rightarrow> bytes \<Rightarrow> bytes outcome \<times> Event list" where
  "HandleMessage mem ch wait message =
     (case DecodeTask mem message of
        Ok task \<Rightarrow>
          if task_OpCode task = ExecutionResponse then (Ok [], [EventTaskDone (TaskID task) (Result task)])
          else if task_OpCode task = LeaseRequest then HandleTaskLeaseRequest ch wait task
          else (Err ''unknown message type'', [])
      | Err err \<Rightarrow> (Err (''error decoding task: '' @ err), [])
      | Panic \<Rightarrow> (Panic, []))"

end
