(* ===== verification/Job_Files.thy ===== *)
theory Job_Files
  imports Job_Registration Scheduler_Properties Dht_Node
begin

text \<open>
  The job directories as the scheduler's persistent memory: what the events of a run leave in the directory of a
  job, and what \<open>reloadMemoryOnStartup\<close> makes of it after a restart.
\<close>

subsection \<open>Directories\<close>

definition output_file :: bytes where "output_file = str ''output.json''"
definition plan_file :: bytes where "plan_file = str ''plan.json''"

definition dir_map :: "Scheduler \<Rightarrow> NodeId \<Rightarrow> bytes \<rightharpoonup> bytes" where
  "dir_map s j = map_of (job_dir s j)"

lemma map_of_write_file: "map_of (write_file n c fs) = (map_of fs)(n \<mapsto> c)"
  by (induction fs) (auto simp: fun_eq_iff)

lemma write_file_sorted:
  "sorted (map fst fs) \<Longrightarrow> distinct (map fst fs) \<Longrightarrow>
   sorted (map fst (write_file n c fs)) \<and> distinct (map fst (write_file n c fs)) \<and>
   set (map fst (write_file n c fs)) = insert n (set (map fst fs))"
proof (induction fs)
  case (Cons f fs)
  then show ?case
    by (cases f) (auto simp: not_less)
qed simp

lemma chunk_file_head: "\<exists>b bs. chunk_file i = b # bs \<and> (b = 45 \<or> 48 \<le> b \<and> b \<le> 57)"
proof (cases "i < 0")
  case False
  obtain b bs where "decimal_nat (nat i) = b # bs" by (metis decimal_nat_not_Nil neq_Nil_conv)
  with False decimal_nat_digits [of b "nat i"] show ?thesis by (simp add: chunk_file_def decimal_def)
qed (simp add: chunk_file_def decimal_def str_def)

lemma chunk_file_names:
  "chunk_file i \<noteq> output_file" "chunk_file i \<noteq> plan_file" "chunk_file i \<noteq> str ''map.wasm''" "chunk_file i \<noteq> str ''reduce.wasm''"
  using chunk_file_head [of i] by (auto simp: output_file_def plan_file_def str_def)

lemma Atoi_chunk_file:
  "- (2 ^ 63) \<le> i \<Longrightarrow> i < 2 ^ 63 \<Longrightarrow> Atoi (TrimSuffix (chunk_file i) (str ''.json'')) = Ok i"
  by (simp add: chunk_file_def Atoi_decimal)

subsection \<open>What events do to directories\<close>

lemma enqueueTask_dir: "enqueueTask e s i = Runs (s', err) \<Longrightarrow> job_dir s' = job_dir s"
  by (auto simp: enqueueTask_def push_task_def Let_def send_response_def add_stat_def markTaskDispatched_def
      split: option.splits if_splits)

lemma tick_tasks_dir: "tick_tasks e order s = Runs (s', err) \<Longrightarrow> job_dir s' = job_dir s"
  by (induction order arbitrary: s)
    (auto split: option.splits if_splits progress.splits dest: enqueueTask_dir)

lemma submit_tasks_dir: "submit_tasks e i tasks s = Runs (s', err) \<Longrightarrow> job_dir s' = job_dir s"
proof (induction tasks arbitrary: s i)
  case (Cons t tasks)
  then show ?case
    by (auto simp: Let_def split: if_splits progress.splits option.splits dest: enqueueTask_dir)
qed simp

lemma handle_submit_dir: "handle_submit e s job tasks = Runs (s', err) \<Longrightarrow> job_dir s' = job_dir s"
  by (auto simp: handle_submit_def Let_def split: if_splits dest: submit_tasks_dir)

lemma handle_lease_dir: "job_dir (fst (handle_lease e s r)) = job_dir s"
  by (auto simp: handle_lease_def Let_def send_response_def add_stat_def markTaskDispatched_def
      split: option.splits list.splits)

lemma markTaskDispatchFailed_dir: "markTaskDispatchFailed e s i = Runs (s', err) \<Longrightarrow> job_dir s' = job_dir s"
  by (auto simp: markTaskDispatchFailed_def Let_def add_stat_def split: option.splits outcome.splits if_splits)

text \<open>Every event adds at most one result file, that of a task that it finishes, and the output.\<close>

definition done_chunks :: "Scheduler \<Rightarrow> NodeId \<Rightarrow> int set" where
  "done_chunks s j = (\<lambda>i. ChunkID (the (Tasks s i))) ` done_set s j"

definition results_added :: "Scheduler \<Rightarrow> Scheduler \<Rightarrow> NodeId \<Rightarrow> bool" where
  "results_added s s' j \<longleftrightarrow>
     (\<exists>new. done_chunks s' j = done_chunks s j \<union> new \<and>
        (\<forall>i \<in> new. dir_map s' j (chunk_file i) \<noteq> None) \<and>
        (\<forall>f. f \<notin> chunk_file ` new \<and> f \<noteq> output_file \<longrightarrow> dir_map s' j f = dir_map s j f))"

lemma done_chunks_kept: "tasks_kept s s' \<Longrightarrow> done_chunks s' j = done_chunks s j"
  unfolding done_chunks_def done_set_kept
  by (rule image_cong) (auto simp: done_set_def tasks_kept_def, metis option.sel)

lemma results_added_same:
  "done_chunks s' j = done_chunks s j \<Longrightarrow> (\<And>f. f \<noteq> output_file \<Longrightarrow> dir_map s' j f = dir_map s j f) \<Longrightarrow> results_added s s' j"
  unfolding results_added_def by (intro exI [of _ "{}"]) simp

lemma results_added_trans:
  assumes "results_added s t j" "results_added t u j"
  shows "results_added s u j"
proof -
  obtain n m where n: "done_chunks t j = done_chunks s j \<union> n" "\<forall>i \<in> n. dir_map t j (chunk_file i) \<noteq> None"
      "\<forall>f. f \<notin> chunk_file ` n \<and> f \<noteq> output_file \<longrightarrow> dir_map t j f = dir_map s j f"
    and m: "done_chunks u j = done_chunks t j \<union> m" "\<forall>i \<in> m. dir_map u j (chunk_file i) \<noteq> None"
      "\<forall>f. f \<notin> chunk_file ` m \<and> f \<noteq> output_file \<longrightarrow> dir_map u j f = dir_map t j f"
    using assms unfolding results_added_def by blast
  have "dir_map u j (chunk_file i) \<noteq> None" if "i \<in> n" for i
    using m(2,3) n(2) that chunk_file_names(1) by (cases "chunk_file i \<in> chunk_file ` m") auto
  with n m show ?thesis
    unfolding results_added_def by (intro exI [of _ "n \<union> m"]) (auto simp: image_Un)
qed

lemma results_added_finish:
  assumes "Tasks s i = Some t" "td_State t = StateRunning"
    and "t' = t\<lparr>td_State := StateDone, Queued := False, BackoffUntil := 0, LeaseUntil := 0, DoneAt := n\<rparr>"
    and "Tasks s' = (Tasks s)(i \<mapsto> t')"
    and "job_dir s' = with_result t result (job_dir s) \<or>
       (\<exists>j res. job_dir s' = (with_result t result (job_dir s))(j :=
          write_file (str ''output.json'') res (with_result t result (job_dir s) j)))"
  shows "results_added s s' j"
proof -
  have d: "f \<noteq> output_file \<Longrightarrow>
      dir_map s' j f = (if j = td_JobID t \<and> f = chunk_file (ChunkID t) then Some result else dir_map s j f)" for f
    using assms(5) by (auto simp: dir_map_def with_result_def map_of_write_file output_file_def)
  have fin: "done_set s' j = (if td_JobID t = j then insert i (done_set s j) else done_set s j) \<and> i \<notin> done_set s j"
    using assms(1-4) by (intro done_set_finish [of s i t s' t']) simp_all
  show ?thesis
  proof (cases "j = td_JobID t")
    case True
    have "done_chunks s' j = done_chunks s j \<union> {ChunkID t}"
      unfolding done_chunks_def using fin assms(3,4) True by (auto simp: image_iff)
    with True show ?thesis
      unfolding results_added_def using chunk_file_names(1) d by (intro exI [of _ "{ChunkID t}"]) auto
  next
    case False
    have "done_chunks s' j = done_chunks s j"
      unfolding done_chunks_def using fin assms(4) False by (auto simp: image_iff)
    with False show ?thesis by (intro results_added_same) (simp_all add: d)
  qed
qed

text \<open>An event leaves all directories alone, merges the results of a job, or ends a task.\<close>

lemma handleEvent_dirs:
  assumes "sched_inv s" "event_ok s ev" "handleEvent e s ev = Runs (s', err)"
  obtains (quiet) "tasks_kept s s'" "job_dir s' = job_dir s" "\<forall>j job. Jobs s j = Some job \<longrightarrow> Jobs s' j = Some job"
  | (merge) k d where "ev = EventJobDone k" "s' = s\<lparr>job_dir := d\<rparr>"
      "d = job_dir s \<or> (\<exists>res. d = (job_dir s)(k := write_file (str ''output.json'') res (job_dir s k)))"
  | (finish) i result where "ev = EventTaskDone i result" "markTaskDone e s i result = Runs (s', err)"
proof -
  have kept: "tasks_kept s s' \<and> (\<forall>j job. Jobs s j = Some job \<longrightarrow> Jobs s' j = Some job)"
    if "\<nexists>i result. ev = EventTaskDone i result \<and> \<not> ctx_done e 0" using handleEvent_kept [OF assms that] .
  show thesis
  proof (cases "ctx_done e 0")
    case True
    with assms(3) have "s' = s" by (simp add: handleEvent_def)
    then show thesis using kept True by (intro quiet) auto
  next
    case False
    then show thesis
    proof (cases ev)
      case (EventJobDone k)
      with assms(3) False have "markJobDone e s k = Runs (s', err)" by (simp add: handleEvent_def)
      then show thesis by (rule markJobDone_frame) (use EventJobDone merge in blast)
    next
      case (EventTaskDone i result)
      with assms(3) False show thesis by (intro finish) (simp_all add: handleEvent_def)
    next
      case EventTick
      with assms(3) False have "job_dir s' = job_dir s" by (auto simp: handleEvent_def handle_tick_def dest!: tick_tasks_dir)
      with kept EventTick show thesis by (intro quiet) auto
    next
      case (EventJobSubmitted job tasks)
      with assms(3) False have "job_dir s' = job_dir s" by (auto simp: handleEvent_def dest: handle_submit_dir)
      with kept EventJobSubmitted show thesis by (intro quiet) auto
    next
      case (EventTaskDispatchFailed i)
      with assms(3) False have "job_dir s' = job_dir s"
        by (auto simp: handleEvent_def split: progress.splits dest: markTaskDispatchFailed_dir)
      with kept EventTaskDispatchFailed show thesis by (intro quiet) auto
    next
      case (EventLeaseRequest r)
      with assms(3) False have "job_dir s' = job_dir s" using handle_lease_dir [of e s r] by (auto simp: handleEvent_def)
      with kept EventLeaseRequest show thesis by (intro quiet) auto
    qed
  qed
qed

lemma results_added_step:
  assumes "sched_inv s" "sched_step s s'" "Jobs s j \<noteq> None"
  shows "results_added s s' j"
  using assms(2)
proof (cases rule: sched_step.cases)
  case (sched_register k files)
  with assms(3) show ?thesis by (intro results_added_same) (auto simp: done_chunks_def done_set_def dir_map_def)
next
  case (sched_event ev e err)
  from assms(1) sched_event(1,2) show ?thesis
  proof (cases rule: handleEvent_dirs)
    case quiet
    then show ?thesis by (intro results_added_same) (simp_all add: done_chunks_kept dir_map_def)
  next
    case (merge k d)
    then show ?thesis
      by (intro results_added_same) (auto simp: done_chunks_def done_set_def dir_map_def map_of_write_file output_file_def)
  next
    case (finish i result)
    from finish(2) show ?thesis
    proof (cases rule: markTaskDone_cases)
      case same
      then show ?thesis by (intro results_added_same) simp_all
    next
      case (done_now t t' job st d)
      then show ?thesis by (intro results_added_finish [of s i t t']) simp_all
    qed
  qed
qed

subsection \<open>The tasks of a job\<close>

definition job_chunks :: "Scheduler \<Rightarrow> NodeId \<Rightarrow> (NodeId \<times> int) set" where
  "job_chunks s j = {(i, ChunkID t) | i t. Tasks s i = Some t \<and> td_JobID t = j}"

lemma enqueueTask_dom:
  "sched_inv s \<Longrightarrow> enqueueTask e s i = Runs (s', err) \<Longrightarrow> Tasks s k = None \<Longrightarrow> Tasks s' k = None"
  by (cases "k = i") (simp add: enqueueTask_def, simp add: enqueueTask_other [OF sched_inv_tasks])

lemma tick_tasks_dom:
  "sched_inv s \<Longrightarrow> tick_tasks e order s = Runs (s', err) \<Longrightarrow> Tasks s k = None \<Longrightarrow> Tasks s' k = None"
proof (induction order arbitrary: s)
  case (Cons i order)
  have enq: "sched_inv a \<and> Tasks a k = None" if "enqueueTask e s i = Runs (a, x)" for a x
    using enqueueTask_inv [OF Cons.prems(1) that] enqueueTask_dom [OF Cons.prems(1) that Cons.prems(3)] by simp
  from Cons.prems(2) show ?case
    by (auto split: option.splits if_splits progress.splits dest!: enq intro: Cons.IH Cons.prems(1,3))
qed simp

lemma handle_tick_dom:
  assumes "sched_inv s" "handle_tick e s = Runs (s', err)" "Tasks s k = None"
  shows "Tasks s' k = None"
proof -
  let ?s = "s\<lparr>pendingLeaseRequests := filter (\<lambda>req. \<not> lease_expired e (responseChan req)) (pendingLeaseRequests s)\<rparr>"
  have "sched_inv ?s" using assms(1) by (auto simp: sched_inv_def leases_filter)
  from tick_tasks_dom [OF this, of e "task_order e" s' err k] assms(2,3) show ?thesis by (simp add: handle_tick_def)
qed

lemma handle_lease_dom: "Tasks s k = None \<Longrightarrow> Tasks (fst (handle_lease e s r)) k = None"
  by (auto simp: handle_lease_def Let_def send_response_def add_stat_def markTaskDispatched_def
      split: option.splits list.splits)

lemma handle_submit_new:
  assumes "sched_inv s" "event_ok s (EventJobSubmitted job tasks)" "handle_submit e s job tasks = Runs (s', err)"
    and "Tasks s k = None" "Tasks s' k = Some t"
  shows "Jobs s (td_JobID t) = None"
proof (cases "Jobs s (jd_ID job)")
  case None
  let ?s = "s\<lparr>Jobs := (Jobs s)(jd_ID job \<mapsto> job)\<rparr>"
  have inv: "sched_inv ?s" using assms(1) by (auto simp: sched_inv_def intro: tasks_ok_jobs)
  show ?thesis
  proof (cases "jd_Type job = TypeBatch \<and> jd_Type job \<noteq> TypeStream")
    case True
    then have sub: "submit_tasks e 1 tasks ?s = Runs (s', err)" using assms(3) None by (auto simp: handle_submit_def Let_def)
    have new: "all_new ?s (jd_ID job) tasks" using assms(2) by (simp add: event_ok_def all_new_def)
    have "Jobs ?s (jd_ID job) \<noteq> None" by simp
    note conj = submit_tasks_inv [OF inv this new sub]
    have "new_tasks_of (jd_ID job) ?s s'" by (rule conj [THEN conjunct2, THEN conjunct2, THEN conjunct2])
    with assms(4,5) have "td_JobID t = jd_ID job" by (simp add: new_tasks_of_def)
    with None show ?thesis by simp
  next
    case False
    with assms(3) None have "Tasks s' = Tasks s" by (auto simp: handle_submit_def Let_def split: if_splits)
    with assms(4,5) show ?thesis by simp
  qed
next
  case (Some x)
  with assms(3) have "s' = s" by (simp add: handle_submit_def)
  with assms(4,5) show ?thesis by simp
qed

lemma new_task_step:
  assumes "sched_inv s" "sched_step s s'" "Tasks s k = None" "Tasks s' k = Some t"
  shows "Jobs s (td_JobID t) = None"
  using assms(2)
proof (cases rule: sched_step.cases)
  case (sched_register j files)
  with assms(3,4) show ?thesis by simp
next
  case ev: (sched_event ev e err)
  show ?thesis
  proof (cases "ctx_done e 0")
    case False
    show ?thesis
    proof (cases ev)
      case EventTick
      with ev False assms show ?thesis using handle_tick_dom by (fastforce simp: handleEvent_def)
    next
      case (EventJobSubmitted job tasks)
      with ev False assms show ?thesis by (auto simp: handleEvent_def intro: handle_submit_new)
    next
      case (EventTaskDispatchFailed i)
      with ev False obtain err' where m: "markTaskDispatchFailed e s i = Runs (s', err')"
        by (auto simp: handleEvent_def split: progress.splits)
      then have "Tasks s' k = None"
        using assms(3) by (auto simp: markTaskDispatchFailed_def Let_def add_stat_def split: option.splits outcome.splits if_splits)
      with assms(4) show ?thesis by simp
    next
      case (EventLeaseRequest r)
      with ev False assms(3,4) handle_lease_dom [of s k e r] show ?thesis by (auto simp: handleEvent_def)
    next
      case (EventJobDone j)
      with ev False have "markJobDone e s j = Runs (s', err)" by (simp add: handleEvent_def)
      then show ?thesis by (rule markJobDone_frame) (use assms(3,4) in simp)
    next
      case (EventTaskDone i result)
      with ev False have "markTaskDone e s i result = Runs (s', err)" by (simp add: handleEvent_def)
      then show ?thesis by (rule markTaskDone_cases) (use assms(3,4) in \<open>auto split: if_splits\<close>)
    qed
  qed (use ev assms in \<open>simp add: handleEvent_def\<close>)
qed

lemma task_core_step:
  assumes "sched_inv s" "sched_step s s'" "Tasks s k = Some t"
  shows "\<exists>t'. Tasks s' k = Some t' \<and> td_JobID t' = td_JobID t \<and> ChunkID t' = ChunkID t"
proof (rule sched_step_effect [OF assms(1,2)])
  assume "tasks_kept s s'"
  with assms(3) show ?thesis unfolding tasks_kept_def by (blast dest: task_core_eqD)
qed (use assms(3) in \<open>auto dest: task_core_eqD\<close>)

lemma job_chunks_step:
  assumes "sched_inv s" "sched_step s s'" "Jobs s j \<noteq> None"
  shows "job_chunks s' j = job_chunks s j"
proof (intro subset_antisym subsetI)
  fix x assume "x \<in> job_chunks s' j"
  then obtain i t' where t': "x = (i, ChunkID t')" "Tasks s' i = Some t'" "td_JobID t' = j" by (auto simp: job_chunks_def)
  then obtain t where "Tasks s i = Some t" using new_task_step [OF assms(1,2)] assms(3) by (cases "Tasks s i") auto
  with task_core_step [OF assms(1,2) this] t' show "x \<in> job_chunks s j" by (auto simp: job_chunks_def)
next
  fix x assume "x \<in> job_chunks s j"
  then show "x \<in> job_chunks s' j" using task_core_step [OF assms(1,2)] by (fastforce simp: job_chunks_def)
qed

lemma job_chunks_steps:
  "sched_step\<^sup>*\<^sup>* s s' \<Longrightarrow> sched_inv s \<Longrightarrow> Jobs s j \<noteq> None \<Longrightarrow> job_chunks s' j = job_chunks s j \<and> Jobs s' j \<noteq> None"
proof (induction rule: rtranclp_induct)
  case (step t u)
  then have inv: "sched_inv t" and j: "Jobs t j \<noteq> None" using sched.steps_inv by auto
  then obtain job where "Jobs t j = Some job" by blast
  from done_step [OF inv step.hyps(2) this] have "Jobs u j \<noteq> None" by (metis option.distinct(1))
  with job_chunks_step [OF inv step.hyps(2) j] step show ?case by simp
qed simp

lemma results_added_steps: "sched_step\<^sup>*\<^sup>* s s' \<Longrightarrow> sched_inv s \<Longrightarrow> Jobs s j \<noteq> None \<Longrightarrow> results_added s s' j"
proof (induction rule: rtranclp_induct)
  case base
  then show ?case by (intro results_added_same) simp_all
next
  case (step t u)
  then have "Jobs t j \<noteq> None" "sched_inv t" using job_chunks_steps sched.steps_inv by blast+
  with step show ?case using results_added_trans results_added_step by blast
qed

subsection \<open>Reading a directory back\<close>

definition chunk_nums :: "bytes set \<Rightarrow> int set" where
  "chunk_nums names =
     {i. \<exists>name \<in> names. name \<noteq> plan_file \<and> ends_with name (str ''.json'') \<and> Atoi (TrimSuffix name (str ''.json'')) = Ok i}"

lemma scan_files_chunks:
  "output_file \<notin> set files \<Longrightarrow> distinct existing \<Longrightarrow>
   \<exists>ex. scan_files files existing = (False, ex) \<and> distinct ex \<and> set ex = set existing \<union> chunk_nums (set files)"
proof (induction files arbitrary: existing)
  case (Cons name files)
  let ?json = "ends_with name (str ''.json'')"
  have names: "name \<noteq> str ''output.json''" using Cons.prems(1) by (auto simp: output_file_def)
  show ?case
  proof (cases "\<exists>i. name \<noteq> plan_file \<and> ?json \<and> Atoi (TrimSuffix name (str ''.json'')) = Ok i")
    case True
    then obtain i where i: "name \<noteq> plan_file" "?json" "Atoi (TrimSuffix name (str ''.json'')) = Ok i" by blast
    have "chunk_nums (set (name # files)) = insert i (chunk_nums (set files))" using i by (auto simp: chunk_nums_def)
    moreover have "scan_files (name # files) existing = scan_files files (List.insert i existing)"
      using i names by (simp add: plan_file_def)
    ultimately show ?thesis using Cons.IH [of "List.insert i existing"] Cons.prems by auto
  next
    case False
    then have "scan_files (name # files) existing = scan_files files existing"
      using names by (auto simp: plan_file_def split: outcome.splits)
    moreover have "chunk_nums (set (name # files)) = chunk_nums (set files)" using False by (auto simp: chunk_nums_def)
    ultimately show ?thesis using Cons.IH [of existing] Cons.prems by simp
  qed
qed (simp add: chunk_nums_def)

definition job_binaries :: "bytes set" where
  "job_binaries = {str ''plan.wasm'', str ''map.wasm'', str ''reduce.wasm''}"

lemma chunk_nums_dir:
  assumes "C \<subseteq> {- (2 ^ 63)..<2 ^ 63}"
  shows "chunk_nums (insert plan_file job_binaries \<union> chunk_file ` C) = C"
proof -
  have "\<not> ends_with name (str ''.json'')" if "name \<in> job_binaries" for name
    using that by (auto simp: job_binaries_def ends_with_def str_def)
  moreover have json: "ends_with (chunk_file c) (str ''.json'')" for c by (simp add: chunk_file_def)
  ultimately have "chunk_nums (insert plan_file job_binaries \<union> chunk_file ` C) =
      {i. \<exists>c \<in> C. Atoi (TrimSuffix (chunk_file c) (str ''.json'')) = Ok i}"
    unfolding chunk_nums_def using chunk_file_names(2) json by auto
  also have "\<dots> = C" using assms Atoi_chunk_file by fastforce
  finally show ?thesis .
qed

definition plan_ok :: "ExecutionPlan \<Rightarrow> bool" where
  "plan_ok plan \<longleftrightarrow>
     Total plan = int (length (ep_Tasks plan)) \<and> Total plan < 2 ^ 63 \<and>
     map etp_ID (ep_Tasks plan) = map int [0..<length (ep_Tasks plan)] \<and>
     list_all (\<lambda>t. \<exists>b. b64_DecodeString (etp_Stdin t) = Ok b) (ep_Tasks plan)"

lemma rebuild_tasks_ok:
  assumes "map etp_ID ts = map int [i..<i + length ts]" "list_all (\<lambda>t. \<exists>b. b64_DecodeString (etp_Stdin t) = Ok b) ts"
  shows "\<exists>tds n'. rebuild_tasks ids j name ex n i ts = Ok (tds, n') \<and>
    map (\<lambda>td. (ChunkID td, Ok (td_Stdin td))) tds =
      map (\<lambda>t. (etp_ID t, b64_DecodeString (etp_Stdin t))) (filter (\<lambda>t. etp_ID t \<notin> set ex) ts) \<and>
    map td_ID tds = map ids [n..<n'] \<and> n \<le> n' \<and> list_all (\<lambda>td. td_JobID td = j \<and> fresh_task td) tds"
  using assms
proof (induction ts arbitrary: i n)
  case (Cons t ts)
  have t: "etp_ID t = int i" and ts: "map etp_ID ts = map int [i + 1..<i + 1 + length ts]"
    using Cons.prems(1) by (simp_all add: upt_conv_Cons del: upt_Suc)
  obtain b where b: "b64_DecodeString (etp_Stdin t) = Ok b" and dec: "list_all (\<lambda>t. \<exists>b. b64_DecodeString (etp_Stdin t) = Ok b) ts"
    using Cons.prems(2) by auto
  show ?case
  proof (cases "int i \<in> set ex")
    case True
    with Cons.IH [OF ts dec, of n] t show ?thesis by simp
  next
    case False
    from Cons.IH [OF ts dec, of "n + 1"] obtain tds n' where tds:
      "rebuild_tasks ids j name ex (n + 1) (i + 1) ts = Ok (tds, n')"
      "map (\<lambda>td. (ChunkID td, Ok (td_Stdin td))) tds =
        map (\<lambda>t. (etp_ID t, b64_DecodeString (etp_Stdin t))) (filter (\<lambda>t. etp_ID t \<notin> set ex) ts)"
      "map td_ID tds = map ids [n + 1..<n']" "n + 1 \<le> n'" "list_all (\<lambda>td. td_JobID td = j \<and> fresh_task td) tds" by blast
    with False t b show ?thesis by (simp add: upt_rec [of n] zero_task_def fresh_task_def)
  qed
qed simp

end
