(* ===== verification/Job_Properties.thy ===== *)
theory Job_Properties
  imports Job_Files
begin

text \<open>
  What registration and reload promise: after a restart a job resumes exactly where its directory says it stopped, the
  registration of a batch job depends on the order in which a map is iterated, and one incomplete directory ends the
  reload.
\<close>

subsection \<open>A restart\<close>

definition reads_dir :: "job_fs \<Rightarrow> Scheduler \<Rightarrow> NodeId \<Rightarrow> bool" where
  "reads_dir fsys s j \<longleftrightarrow>
     list_dir fsys (NodeId_String j) = Ok (map fst (job_dir s j)) \<and>
     (\<forall>f c. dir_map s j f = Some c \<longrightarrow> read_in fsys (NodeId_String j) f = Ok c)"

text \<open>The job \<open>j\<close> was just submitted: its directory holds the plan and the binaries, and its tasks are those of the plan.\<close>

definition submitted :: "Scheduler \<Rightarrow> NodeId \<Rightarrow> bytes \<Rightarrow> ExecutionPlan \<Rightarrow> bool" where
  "submitted s j planBytes plan \<longleftrightarrow>
     (\<exists>job. Jobs s j = Some job \<and> TasksDone job = 0) \<and> done_set s j = {} \<and>
     dom (dir_map s j) = insert plan_file job_binaries \<and> dir_map s j plan_file = Some planBytes \<and> plan_ok plan \<and>
     inj_on snd (job_chunks s j) \<and> snd ` job_chunks s j \<subseteq> set (map etp_ID (ep_Tasks plan))"

lemma reload_hex: "hex_DecodeString (NodeId_String j) = Ok (id_bytes j)"
  by (simp add: NodeId_String_def hex_DecodeString_Encode)

lemma reload_job_resumes:
  assumes "output_file \<notin> dom (dir_map s j)" "dom (dir_map s j) = insert plan_file job_binaries \<union> chunk_file ` C"
    and "C \<subseteq> {- (2 ^ 63)..<2 ^ 63}" "dir_map s j plan_file = Some planBytes"
    and "reads_dir fsys s j" "reload_Unmarshal e planBytes = Ok plan" "plan_ok plan"
  shows "\<exists>jd tds n'. reload_job e fsys n (NodeId_String j, True) =
      Ok (if tds \<noteq> [] then [EventJobSubmitted jd tds] else [EventJobSubmitted jd [], EventJobDone j], n') \<and>
    jd_ID jd = j \<and> jd_Type jd = TypeBatch \<and> TasksTotal jd = Total plan \<and> TasksDone jd = int (card C) \<and>
    dir_map s j (str ''map.wasm'') = Some (jd_Binary jd) \<and> dir_map s j (str ''reduce.wasm'') = Some (MergerBinary jd) \<and>
    map (\<lambda>td. (ChunkID td, Ok (td_Stdin td))) tds =
      map (\<lambda>t. (etp_ID t, b64_DecodeString (etp_Stdin t))) (filter (\<lambda>t. etp_ID t \<notin> C) (ep_Tasks plan)) \<and>
    map td_ID tds = map (reload_id e) [n..<n'] \<and> list_all (\<lambda>td. td_JobID td = j \<and> fresh_task td) tds"
proof -
  have names: "set (map fst (job_dir s j)) = insert plan_file job_binaries \<union> chunk_file ` C"
    using assms(2) by (simp add: dir_map_def dom_map_of_conv_image_fst)
  have "output_file \<notin> set (map fst (job_dir s j))"
    using assms(1) by (simp add: dir_map_def dom_map_of_conv_image_fst)
  then obtain ex where ex: "scan_files (map fst (job_dir s j)) [] = (False, ex)" "distinct ex"
    "set ex = chunk_nums (set (map fst (job_dir s j)))"
    using scan_files_chunks [of "map fst (job_dir s j)" "[]"] by auto
  have C: "set ex = C" using ex(3) unfolding names by (simp only: chunk_nums_dir [OF assms(3)])
  with ex(2) have card: "int (length ex) = int (card C)" by (simp add: distinct_card flip: C)
  obtain mb rb where wasm: "dir_map s j (str ''map.wasm'') = Some mb" "dir_map s j (str ''reduce.wasm'') = Some rb"
    using assms(2) unfolding job_binaries_def by (metis (no_types, lifting) UnCI domD insertCI)
  note r = assms(5) [unfolded reads_dir_def]
  obtain tds n' where tds: "rebuild_tasks (reload_id e) j (ep_Name plan) ex n 0 (ep_Tasks plan) = Ok (tds, n')"
    "map (\<lambda>td. (ChunkID td, Ok (td_Stdin td))) tds =
      map (\<lambda>t. (etp_ID t, b64_DecodeString (etp_Stdin t))) (filter (\<lambda>t. etp_ID t \<notin> set ex) (ep_Tasks plan))"
    "map td_ID tds = map (reload_id e) [n..<n']" "list_all (\<lambda>td. td_JobID td = j \<and> fresh_task td) tds"
    using rebuild_tasks_ok [of "ep_Tasks plan" 0 "reload_id e" j "ep_Name plan" ex n] assms(7) by (auto simp: plan_ok_def)
  let ?jd = "zero_job\<lparr>jd_ID := j, jd_Name := ep_Name plan, jd_Binary := mb, MergerBinary := rb, TasksDone := int (length ex),
    TasksTotal := Total plan, jd_Type := TypeBatch\<rparr>"
  have "reload_job e fsys n (NodeId_String j, True) =
      Ok (if tds \<noteq> [] then [EventJobSubmitted ?jd tds] else [EventJobSubmitted ?jd [], EventJobDone j], n')"
    using r assms(4,6) wasm ex(1) tds(1) by (simp add: reload_job_def reload_hex plan_file_def Let_def)
  then show ?thesis
    using wasm tds(2-4) C card by (intro exI [of _ ?jd] exI [of _ tds] exI [of _ n']) simp
qed

lemma done_chunks_bij:
  assumes "inj_on snd (job_chunks s j)"
  shows "card (done_chunks s j) = card (done_set s j)"
  unfolding done_chunks_def
proof (rule card_image, rule inj_onI)
  fix i k
  assume a: "i \<in> done_set s j" "k \<in> done_set s j" "ChunkID (the (Tasks s i)) = ChunkID (the (Tasks s k))"
  then have "(i, ChunkID (the (Tasks s i))) \<in> job_chunks s j" "(k, ChunkID (the (Tasks s k))) \<in> job_chunks s j"
    by (auto simp: job_chunks_def done_set_def)
  with assms a(3) show "i = k" by (metis inj_onD snd_conv prod.inject)
qed

lemma done_chunks_subset: "done_chunks s j \<subseteq> snd ` job_chunks s j"
  by (force simp: done_chunks_def done_set_def job_chunks_def)

lemma submitted_dir:
  assumes "submitted s j planBytes plan" "sched_inv s" "sched_step\<^sup>*\<^sup>* s s'" "output_file \<notin> dom (dir_map s' j)"
  shows "dom (dir_map s' j) = insert plan_file job_binaries \<union> chunk_file ` done_chunks s' j"
    and "dir_map s' j plan_file = Some planBytes" "done_chunks s' j \<subseteq> {- (2 ^ 63)..<2 ^ 63}"
    and "\<exists>job'. Jobs s' j = Some job' \<and> TasksDone job' = int (card (done_chunks s' j))"
proof -
  note sub = assms(1) [unfolded submitted_def]
  then obtain job where job: "Jobs s j = Some job" "TasksDone job = 0" by blast
  have empty: "done_chunks s j = {}" using sub by (simp add: done_chunks_def)
  obtain new where new: "done_chunks s' j = done_chunks s j \<union> new" "\<forall>i \<in> new. dir_map s' j (chunk_file i) \<noteq> None"
    "\<forall>f. f \<notin> chunk_file ` new \<and> f \<noteq> output_file \<longrightarrow> dir_map s' j f = dir_map s j f"
    using results_added_steps [OF assms(3,2), of j] job(1) unfolding results_added_def by blast
  have nd: "new = done_chunks s' j" using new(1) empty by simp
  have c: "chunk_file ` new \<inter> {plan_file, output_file} = {}" using chunk_file_names(1,2) [THEN not_sym] by auto
  have po: "plan_file \<noteq> output_file" by (simp add: plan_file_def output_file_def str_def)
  have "plan_file \<notin> chunk_file ` new" using c by blast
  with new(3) po have "dir_map s' j plan_file = dir_map s j plan_file" by blast
  with sub show "dir_map s' j plan_file = Some planBytes" by simp
  have base: "output_file \<notin> insert plan_file job_binaries"
    by (simp add: plan_file_def output_file_def job_binaries_def str_def)
  have dom: "dom (dir_map s j) = insert plan_file job_binaries" using sub by simp
  have eq: "f \<in> dom (dir_map s' j) \<longleftrightarrow> f \<in> insert plan_file job_binaries \<union> chunk_file ` new" for f
  proof (cases "f = output_file")
    case True
    moreover have "output_file \<notin> chunk_file ` new" using c by blast
    ultimately show ?thesis using assms(4) base by simp
  next
    case False
    show ?thesis
    proof (cases "f \<in> chunk_file ` new")
      case True
      with new(2) show ?thesis by (auto simp: domIff)
    next
      case False
      with \<open>f \<noteq> output_file\<close> new(3) have "dir_map s' j f = dir_map s j f" by blast
      with False dom show ?thesis by (metis UnE UnI1 domIff)
    qed
  qed
  then show "dom (dir_map s' j) = insert plan_file job_binaries \<union> chunk_file ` done_chunks s' j" unfolding nd [symmetric] by blast
  have jc: "job_chunks s' j = job_chunks s j" using job_chunks_steps [OF assms(3,2)] job(1) by blast
  have "done_chunks s' j \<subseteq> set (map etp_ID (ep_Tasks plan))"
    using done_chunks_subset [of s' j] sub unfolding jc by blast
  also have "\<dots> \<subseteq> {- (2 ^ 63)..<2 ^ 63}" using sub unfolding plan_ok_def by auto
  finally show "done_chunks s' j \<subseteq> {- (2 ^ 63)..<2 ^ 63}" .
  obtain job' where "Jobs s' j = Some job'" "TasksDone job' = int (card (done_set s' j))"
    using done_accounting_steps [OF assms(3,2) job(1)] job(2) sub by auto
  moreover have "card (done_chunks s' j) = card (done_set s' j)"
    using sub jc by (intro done_chunks_bij) simp
  ultimately show "\<exists>job'. Jobs s' j = Some job' \<and> TasksDone job' = int (card (done_chunks s' j))" by simp
qed

subsection \<open>Registration\<close>

abbreviation k_split :: bytes where "k_split \<equiv> str ''split''"
abbreviation k_execute :: bytes where "k_execute \<equiv> str ''execute''"
abbreviation k_merge :: bytes where "k_merge \<equiv> str ''merge''"

lemma stage_names [simp]: "k_split \<noteq> k_execute" "k_split \<noteq> k_merge" "k_execute \<noteq> k_merge"
  "k_execute \<noteq> k_split" "k_merge \<noteq> k_split" "k_merge \<noteq> k_execute"
  by (simp_all add: str_def)

text \<open>No call that registration makes fails, and the planner's output is the plan \<open>plan\<close>, whose tasks are \<open>tds\<close>.\<close>

definition reg_fine :: "reg_env \<Rightarrow> JobSpec \<Rightarrow> bytes \<Rightarrow> ExecutionPlan \<Rightarrow> bytes \<Rightarrow> bytes \<Rightarrow> TaskDescription list \<Rightarrow> bool" where
  "reg_fine e job planBytes plan mapBinary reduceBinary tds \<longleftrightarrow>
     js_Type job \<noteq> TypeStream \<and> mkdir_err e = None \<and> (\<forall>f. reg_write_err e f = None) \<and> plan_read_err e = None \<and>
     (\<exists>sp ex mg b. js_Tasks job = [k_split \<mapsto> sp, k_execute \<mapsto> ex, k_merge \<mapsto> mg] \<and>
        ReadFile e (Run sp) = Ok b \<and> reg_planner e b = Ok planBytes \<and>
        ReadFile e (Run ex) = Ok mapBinary \<and> ReadFile e (Run mg) = Ok reduceBinary \<and>
        Unmarshal e planBytes = Ok plan \<and> Total plan = int (length (ep_Tasks plan)) \<and>
        plan_tasks (\<lambda>n. random_id e (n + 1)) (random_id e 0) (js_Topic job)
          (if ts_Type ex = [] then TaskTypeBatch else ts_Type ex) (ep_Name plan) (ep_Tasks plan) = Ok tds)"

lemma plan_wasm_json: "str ''plan.wasm'' \<noteq> str ''plan.json''" "str ''map.wasm'' \<noteq> str ''plan.json''"
  by (simp_all add: str_def)

lemma length_plan_tasks: "plan_tasks ids j topic ty name ts = Ok tds \<Longrightarrow> length tds = length ts"
  by (induction ts arbitrary: ids tds) (auto simp: obind_Ok_iff split: outcome.splits)

lemma perms3:
  assumes "distinct xs" "set xs = {a, b, c}" "a \<noteq> b" "a \<noteq> c" "b \<noteq> c"
  shows "xs \<in> {[a, b, c], [a, c, b], [b, a, c], [b, c, a], [c, a, b], [c, b, a]}"
proof -
  have "length xs = 3" using assms by (simp flip: distinct_card)
  then obtain x y z where "xs = [x, y, z]" by (auto simp: numeral_3_eq_3 length_Suc_conv)
  moreover from this have "x \<in> {a, b, c}" "y \<in> {a, b, c}" "z \<in> {a, b, c}" "x \<noteq> y" "x \<noteq> z" "y \<noteq> z"
    using assms(1,2) by (simp_all flip: assms(2))
  ultimately show ?thesis by auto
qed

text \<open>The stages one by one.\<close>

lemma register_split_new:
  assumes "mkdir_err e = None" "\<forall>f. reg_write_err e f = None" "ReadFile e (Run sp) = Ok b" "reg_planner e b = Ok planBytes"
  shows "register_split e sp new_reg =
    Runs (new_reg\<lparr>rs_dir := Some (write_file plan_file planBytes (write_file (str ''plan.wasm'') b []))\<rparr>, None)"
  using assms by (simp add: register_split_def reg_bind_def reg_write_def new_reg_def plan_file_def)

lemma register_early:
  assumes "rs_dir st = None"
  shows "\<exists>err. register_execute e job ex st = Runs (st, Some err)"
    "ReadFile e (Run mg) = Ok b \<Longrightarrow> \<exists>err. register_merge e mg st = Runs (st, Some err)"
  using assms
  by (auto simp: register_execute_def register_merge_def reg_bind_def reg_read_plan_def reg_write_def Let_def split: option.splits)

definition planned_job :: "reg_env \<Rightarrow> JobSpec \<Rightarrow> ExecutionPlan \<Rightarrow> bytes \<Rightarrow> JobDescription" where
  "planned_job e job plan mapBinary =
     zero_job\<lparr>jd_ID := random_id e 0, jd_Name := ep_Name plan, jd_Binary := mapBinary, TasksTotal := Total plan,
       jd_Type := TypeBatch, jd_Topic := js_Topic job\<rparr>"

lemma register_execute_ready:
  assumes "plan_read_err e = None" "\<forall>f. reg_write_err e f = None" "rs_dir st = Some files"
    and "map_of files plan_file = Some planBytes" "Unmarshal e planBytes = Ok plan" "Total plan = int (length (ep_Tasks plan))"
    and "ReadFile e (Run ex) = Ok mapBinary"
    and "plan_tasks (\<lambda>n. random_id e (n + 1)) (random_id e 0) (js_Topic job)
          (if ts_Type ex = [] then TaskTypeBatch else ts_Type ex) (ep_Name plan) (ep_Tasks plan) = Ok tds"
  shows "register_execute e job ex st =
    Runs (st\<lparr>rs_dir := Some (write_file (str ''map.wasm'') mapBinary files), rs_plan := plan,
      rs_jd := planned_job e job plan mapBinary, rs_tasks := tds\<rparr>, None)"
  using assms
  by (cases st) (auto simp: register_execute_def reg_bind_def reg_read_plan_def reg_write_def plan_file_def Let_def planned_job_def)

lemma register_merge_ready:
  assumes "\<forall>f. reg_write_err e f = None" "rs_dir st = Some files" "ReadFile e (Run mg) = Ok b"
  shows "register_merge e mg st =
    Runs (st\<lparr>rs_dir := Some (write_file (str ''reduce.wasm'') b files), rs_jd := (rs_jd st)\<lparr>MergerBinary := b\<rparr>,
      rs_events := rs_events st @ [EventJobSubmitted ((rs_jd st)\<lparr>MergerBinary := b\<rparr>) (rs_tasks st)]\<rparr>, None)"
  using assms by (cases st) (simp add: register_merge_def reg_bind_def reg_write_def Let_def)

text \<open>All stages in the right order.\<close>

lemma write_file_ok:
  "sorted (map fst fs) \<and> distinct (map fst fs) \<Longrightarrow>
   sorted (map fst (write_file n c fs)) \<and> distinct (map fst (write_file n c fs))"
  using write_file_sorted [of fs n c] by blast

lemma register_in_order:
  assumes "reg_fine e job planBytes plan mapBinary reduceBinary tds" "spec_order e = [k_split, k_execute, k_merge]"
  shows "\<exists>st files. RegisterJob e job = Runs (st, None) \<and>
    rs_events st = [EventJobSubmitted ((planned_job e job plan mapBinary)\<lparr>MergerBinary := reduceBinary\<rparr>) tds] \<and>
    rs_dir st = Some files \<and> dom (map_of files) = insert plan_file job_binaries \<and> map_of files plan_file = Some planBytes \<and>
    sorted (map fst files) \<and> distinct (map fst files)"
proof -
  obtain sp ex mg b where t: "js_Tasks job = [k_split \<mapsto> sp, k_execute \<mapsto> ex, k_merge \<mapsto> mg]"
    "ReadFile e (Run sp) = Ok b" "reg_planner e b = Ok planBytes" "ReadFile e (Run ex) = Ok mapBinary"
    "ReadFile e (Run mg) = Ok reduceBinary" "Unmarshal e planBytes = Ok plan" "Total plan = int (length (ep_Tasks plan))"
    "plan_tasks (\<lambda>n. random_id e (n + 1)) (random_id e 0) (js_Topic job)
          (if ts_Type ex = [] then TaskTypeBatch else ts_Type ex) (ep_Name plan) (ep_Tasks plan) = Ok tds"
    using assms(1) unfolding reg_fine_def by blast
  have io: "mkdir_err e = None" "\<forall>f. reg_write_err e f = None" "plan_read_err e = None" "js_Type job \<noteq> TypeStream"
    using assms(1) by (auto simp: reg_fine_def)
  let ?files = "write_file plan_file planBytes (write_file (str ''plan.wasm'') b [])"
  let ?st1 = "new_reg\<lparr>rs_dir := Some ?files\<rparr>"
  let ?st2 = "?st1\<lparr>rs_dir := Some (write_file (str ''map.wasm'') mapBinary ?files), rs_plan := plan,
    rs_jd := planned_job e job plan mapBinary, rs_tasks := tds\<rparr>"
  let ?all = "write_file (str ''reduce.wasm'') reduceBinary (write_file (str ''map.wasm'') mapBinary ?files)"
  have dir: "dom (map_of ?all) = insert plan_file job_binaries" "map_of ?all plan_file = Some planBytes"
    by (auto simp add: map_of_write_file job_binaries_def) (simp_all add: plan_file_def str_def)
  have sorted: "sorted (map fst ?all) \<and> distinct (map fst ?all)"
    by (intro write_file_ok) simp
  have "map_of ?files plan_file = Some planBytes" by (simp add: map_of_write_file plan_file_def str_def)
  then have "register_execute e job ex ?st1 = Runs (?st2, None)"
    by (intro register_execute_ready [OF io(3,2) _ _ t(6,7,4,8)]) simp_all
  moreover note register_merge_ready [OF io(2) _ t(5), of ?st2 "write_file (str ''map.wasm'') mapBinary ?files"]
    register_split_new [OF io(1,2) t(2,3)]
  ultimately have "\<exists>st. RegisterJob e job = Runs (st, None) \<and> rs_dir st = Some ?all \<and>
      rs_events st = [EventJobSubmitted ((planned_job e job plan mapBinary)\<lparr>MergerBinary := reduceBinary\<rparr>) tds]"
    using assms(2) io(4) t(1) by (simp add: RegisterJob_def new_reg_def del: write_file.simps)
  with dir sorted show ?thesis by blast
qed

text \<open>An event without a job type is rejected.\<close>

lemma untyped_job_rejected:
  assumes "handleEvent env s (EventJobSubmitted (zero_job\<lparr>MergerBinary := b\<rparr>) tasks) = Runs (s', err)"
  shows "err \<noteq> None \<and> Tasks s' = Tasks s \<and> batchTasks s' = batchTasks s"
  using assms
  by (auto simp: handleEvent_def handle_submit_def zero_job_def TypeStream_def TypeBatch_def str_def split: if_splits)

lemma reload_dirs_append:
  "reload_dirs e fsys n before q = Runs (q', None) \<Longrightarrow>
   \<exists>n'. reload_dirs e fsys n (before @ after) q = reload_dirs e fsys n' after q'"
proof (induction before arbitrary: n q)
  case (Cons d before)
  then obtain evs m q1 where "reload_job e fsys n d = Ok (evs, m)" "send_events evs q = Some q1"
    "reload_dirs e fsys m before q1 = Runs (q', None)"
    by (auto split: outcome.splits option.splits)
  with Cons.IH show ?case by simp
qed auto

subsection \<open>Properties\<close>

text \<open>
  C7. A restart loses no result and repeats none: let a job be submitted from a plan whose tasks are numbered from
  0, and let any sequence of events follow. If the scheduler then stops before the job's output is written, the reload submits
  the job again under its identifier with the same progress, and its tasks are exactly the tasks of
  the plan that were not done, each with its decoded standard input; when all were done it asks for the merge.
\<close>

theorem reload_resumes:
  assumes "reach sched_init sched_step s" "submitted s j planBytes plan" "sched_step\<^sup>*\<^sup>* s s'"
    and "output_file \<notin> dom (dir_map s' j)" "reads_dir fsys s' j" "reload_Unmarshal e planBytes = Ok plan"
  shows "\<exists>jd tds n' job'. reload_job e fsys n (NodeId_String j, True) =
      Ok (if tds \<noteq> [] then [EventJobSubmitted jd tds] else [EventJobSubmitted jd [], EventJobDone j], n') \<and>
    jd_ID jd = j \<and> jd_Type jd = TypeBatch \<and> TasksTotal jd = Total plan \<and>
    Jobs s' j = Some job' \<and> TasksDone jd = TasksDone job' \<and>
    map (\<lambda>td. (ChunkID td, Ok (td_Stdin td))) tds =
      map (\<lambda>t. (etp_ID t, b64_DecodeString (etp_Stdin t)))
        (filter (\<lambda>t. etp_ID t \<notin> done_chunks s' j) (ep_Tasks plan)) \<and>
    list_all (\<lambda>td. td_JobID td = j \<and> fresh_task td) tds"
proof -
  have inv: "sched_inv s" using sched.reach_inv [OF assms(1)] .
  note dir = submitted_dir [OF assms(2) inv assms(3,4)]
  have "plan_ok plan" using assms(2) by (simp add: submitted_def)
  from reload_job_resumes [where s = s' and j = j and fsys = fsys and e = e and n = n, OF assms(4) dir(1,3,2) assms(5,6) this] dir(4)
  show ?thesis by (elim exE conjE) (intro exI conjI, assumption+, simp, assumption+)
qed

text \<open>A job of two tasks: its files, its submission, and the result of its first task.\<close>

definition two_files :: "(bytes \<times> bytes) list" where
  "two_files = [(str ''map.wasm'', []), (plan_file, [1]), (str ''plan.wasm'', []), (str ''reduce.wasm'', [])]"

definition two_plan :: ExecutionPlan where
  "two_plan = \<lparr>ep_Name = [], Total = 2, ep_Tasks = [\<lparr>etp_ID = 0, etp_Stdin = []\<rparr>, \<lparr>etp_ID = 1, etp_Stdin = []\<rparr>]\<rparr>"

definition two_task :: "nat \<Rightarrow> int \<Rightarrow> TaskDescription" where
  "two_task i n = (new_task i)\<lparr>ChunkID := n\<rparr>"

definition two_job :: JobDescription where
  "two_job = example_job\<lparr>TasksTotal := 2\<rparr>"

definition two_registered :: Scheduler where
  "two_registered = NewScheduler\<lparr>job_dir := (job_dir NewScheduler)(id_of_nat 1 := two_files)\<rparr>"

definition two_submitted :: Scheduler where
  "two_submitted = two_registered\<lparr>Jobs := [id_of_nat 1 \<mapsto> two_job],
     Tasks := [id_of_nat 2 \<mapsto> (two_task 2 0)\<lparr>Queued := True, EnqueuedAt := 100\<rparr>,
               id_of_nat 3 \<mapsto> (two_task 3 1)\<lparr>Queued := True, EnqueuedAt := 100\<rparr>],
     batchTasks := [id_of_nat 2, id_of_nat 3], stats := [IncEnqueued, IncEnqueued]\<rparr>"

definition two_leased :: Scheduler where
  "two_leased = fst (handle_lease example_env two_submitted example_lease)"

definition two_halfway :: Scheduler where
  "two_halfway = (case markTaskDone example_env two_leased (id_of_nat 2) [49] of Runs (s, _) \<Rightarrow> s | _ \<Rightarrow> two_leased)"

lemma id23: "id_of_nat 2 \<noteq> id_of_nat 3" "id_of_nat 3 \<noteq> id_of_nat 2"
  by code_simp+

lemmas two_eval = two_task_def two_job_def two_registered_def two_submitted_def new_task_def example_job_def example_env_def NewScheduler_def

lemma two_steps:
  "reach sched_init sched_step two_submitted" "sched_step two_submitted two_leased" "sched_step two_leased two_halfway"
  "done_set two_halfway (id_of_nat 1) = {id_of_nat 2}" "output_file \<notin> dom (dir_map two_halfway (id_of_nat 1))"
  "ChunkID (the (Tasks two_halfway (id_of_nat 2))) = 0"
proof -
  have "reach sched_init sched_step NewScheduler" by (rule reach_init) (simp add: sched_init_def)
  moreover have "sched_step NewScheduler two_registered"
    unfolding two_registered_def by (rule sched_register) (simp add: NewScheduler_def)
  moreover have "sched_step two_registered two_submitted"
  proof (rule sched_event)
    show "event_ok two_registered (EventJobSubmitted two_job [two_task 2 0, two_task 3 1])"
      using id23 by (simp add: event_ok_def two_eval)
    show "handleEvent example_env two_registered (EventJobSubmitted two_job [two_task 2 0, two_task 3 1]) = Runs (two_submitted, None)"
      using TypeBatch_not_Stream id23
      by (simp add: handleEvent_def handle_submit_def two_eval enqueueTask_def push_task_def add_stat_def taskQueueSize_def)
  qed
  ultimately show "reach sched_init sched_step two_submitted" by (meson reach_step)
  show "sched_step two_submitted two_leased"
  proof (rule sched_event)
    show "event_ok two_submitted (EventLeaseRequest example_lease)" by (simp add: event_ok_def two_eval)
    show "handleEvent example_env two_submitted (EventLeaseRequest example_lease) =
        Runs (two_leased, snd (handle_lease example_env two_submitted example_lease))"
      by (simp add: handleEvent_def example_env_def two_leased_def)
  qed
  let ?t = "dispatched example_env ((two_task 2 0)\<lparr>Queued := True, EnqueuedAt := 100\<rparr>)"
  have l: "Tasks two_leased = (Tasks two_submitted)(id_of_nat 2 \<mapsto> ?t)" "Jobs two_leased = Jobs two_submitted"
    "job_dir two_leased = job_dir two_submitted"
    unfolding two_leased_def
    by (simp_all add: handle_lease_def two_eval markTaskDispatched_def send_response_def add_stat_def dispatched_def id23)
  have t: "td_State ?t = StateRunning" "td_JobID ?t = id_of_nat 1" "ChunkID ?t = 0"
    by (simp_all add: two_task_def new_task_def dispatched_def)
  have j: "Jobs two_leased (id_of_nat 1) = Some two_job" using l by (simp add: two_submitted_def)
  obtain u where u: "markTaskDone example_env two_leased (id_of_nat 2) [49] = Runs (u, None)"
    "Tasks u = (Tasks two_leased)(id_of_nat 2 \<mapsto> ?t\<lparr>td_State := StateDone, Queued := False, BackoffUntil := 0, LeaseUntil := 0, DoneAt := 100\<rparr>)"
    "job_dir u (id_of_nat 1) = write_file (chunk_file 0) [49] two_files"
    using l t j by (simp add: markTaskDone_def Let_def add_stat_def two_job_def example_job_def example_env_def two_submitted_def two_registered_def del: write_file.simps)
  then have h: "two_halfway = u" by (simp add: two_halfway_def)
  show "sched_step two_leased two_halfway"
    by (rule sched_event [of two_leased "EventTaskDone (id_of_nat 2) [49]" example_env])
      (use u h in \<open>simp_all add: event_ok_def handleEvent_def, simp add: example_env_def\<close>)
  show "done_set two_halfway (id_of_nat 1) = {id_of_nat 2}"
    using u(2) t l(1) id23 by (auto simp: done_set_def h two_submitted_def two_task_def new_task_def split: if_splits)
  show "ChunkID (the (Tasks two_halfway (id_of_nat 2))) = 0" using u(2) t by (simp add: h)
  show "output_file \<notin> dom (dir_map two_halfway (id_of_nat 1))"
    using u(3) chunk_file_names(1) [THEN not_sym]
    by (simp add: dir_map_def h map_of_write_file two_files_def del: write_file.simps) (simp add: output_file_def plan_file_def str_def)
qed

lemma two_submitted_plan: "submitted two_submitted (id_of_nat 1) [1] two_plan"
proof -
  have "done_set two_submitted (id_of_nat 1) = {}" by (auto simp: done_set_def two_eval split: if_splits)
  moreover have "dom (dir_map two_submitted (id_of_nat 1)) = insert plan_file job_binaries"
    "dir_map two_submitted (id_of_nat 1) plan_file = Some [1]"
    by (auto simp: dir_map_def two_submitted_def two_registered_def two_files_def job_binaries_def) (simp add: plan_file_def str_def)
  moreover have "job_chunks two_submitted (id_of_nat 1) = {(id_of_nat 2, 0), (id_of_nat 3, 1)}"
    using id23 by (auto simp: job_chunks_def two_eval)
  moreover have "plan_ok two_plan" by (simp add: plan_ok_def two_plan_def b64_DecodeString_def upt_rec)
  ultimately show ?thesis by (simp add: submitted_def two_eval two_plan_def)
qed

definition halfway_fs :: job_fs where
  "halfway_fs = \<lparr>root_dir = Ok [(NodeId_String (id_of_nat 1), True)],
     list_dir = \<lambda>_. Ok (map fst (job_dir two_halfway (id_of_nat 1))),
     read_in = \<lambda>_ f. case dir_map two_halfway (id_of_nat 1) f of None \<Rightarrow> Err [] | Some c \<Rightarrow> Ok c\<rparr>"

theorem reload_resumes_witness:
  "\<exists>jd td n'. reload_job \<lparr>reload_id = id_of_nat, reload_Unmarshal = \<lambda>_. Ok two_plan\<rparr> halfway_fs 0 (NodeId_String (id_of_nat 1), True) =
      Ok ([EventJobSubmitted jd [td]], n') \<and> jd_ID jd = id_of_nat 1 \<and> TasksDone jd = 1 \<and> ChunkID td = 1"
proof -
  let ?e = "\<lparr>reload_id = id_of_nat, reload_Unmarshal = \<lambda>_. Ok two_plan\<rparr>"
  have reads: "reads_dir halfway_fs two_halfway (id_of_nat 1)" by (simp add: reads_dir_def halfway_fs_def)
  have steps: "sched_step\<^sup>*\<^sup>* two_submitted two_halfway" using two_steps(2,3) by (meson rtranclp.simps)
  have d: "done_chunks two_halfway (id_of_nat 1) = {0}" unfolding done_chunks_def two_steps(4) by (simp add: two_steps(6))
  have un: "reload_Unmarshal ?e [1] = Ok two_plan" by simp
  from reload_resumes [OF two_steps(1) two_submitted_plan steps two_steps(5) reads un, of 0]
  obtain jd tds n' job' where r: "reload_job ?e halfway_fs 0 (NodeId_String (id_of_nat 1), True) =
      Ok (if tds \<noteq> [] then [EventJobSubmitted jd tds] else [EventJobSubmitted jd [], EventJobDone (id_of_nat 1)], n')"
    "jd_ID jd = id_of_nat 1" "TasksDone jd = TasksDone job'" "Jobs two_halfway (id_of_nat 1) = Some job'"
    "map (\<lambda>td. (ChunkID td, Ok (td_Stdin td))) tds = map (\<lambda>t. (etp_ID t, b64_DecodeString (etp_Stdin t)))
        (filter (\<lambda>t. etp_ID t \<notin> done_chunks two_halfway (id_of_nat 1)) (ep_Tasks two_plan))" by blast
  from r(5) have "map (\<lambda>td. (ChunkID td, Ok (td_Stdin td))) tds = [(1, Ok [])]"
    unfolding d by (simp add: two_plan_def b64_DecodeString_def)
  then obtain td where "tds = [td]" "ChunkID td = 1" by (cases tds) auto
  moreover have "TasksDone job' = 1"
    using submitted_dir(4) [OF two_submitted_plan sched.reach_inv [OF two_steps(1)] steps two_steps(5)] r(4) d by simp
  ultimately show ?thesis using r(1-3) by auto
qed

text \<open>
  C32. A batch job is registered only when Go happens to iterate over the map of its stages in the order split,
  execute, merge: then the event with all tasks of the plan is sent and the directory holds the plan and the three binaries. In
  every other order no call fails, and still no event is sent that gives the scheduler a task.
\<close>

theorem register_order:
  assumes "reg_fine e job planBytes plan mapBinary reduceBinary tds"
    and "distinct (spec_order e)" "set (spec_order e) = {k_split, k_execute, k_merge}"
  shows "\<exists>st err. RegisterJob e job = Runs (st, err) \<and>
    (if spec_order e = [k_split, k_execute, k_merge]
     then err = None \<and>
       (\<exists>jd files. rs_events st = [EventJobSubmitted jd tds] \<and> jd_ID jd = random_id e 0 \<and> jd_Type jd = TypeBatch \<and>
          TasksTotal jd = int (length tds) \<and> jd_Binary jd = mapBinary \<and> MergerBinary jd = reduceBinary \<and>
          rs_dir st = Some files \<and> dom (map_of files) = insert plan_file job_binaries \<and>
          map_of files plan_file = Some planBytes)
     else \<forall>ev \<in> set (rs_events st). \<forall>env s s' err'.
       handleEvent env s ev = Runs (s', err') \<longrightarrow> err' \<noteq> None \<and> Tasks s' = Tasks s \<and> batchTasks s' = batchTasks s)"
proof -
  note fine = assms(1) [unfolded reg_fine_def]
  then obtain sp ex mg b where t: "js_Tasks job = [k_split \<mapsto> sp, k_execute \<mapsto> ex, k_merge \<mapsto> mg]"
    "ReadFile e (Run sp) = Ok b" "reg_planner e b = Ok planBytes" "ReadFile e (Run ex) = Ok mapBinary"
    "ReadFile e (Run mg) = Ok reduceBinary" "Unmarshal e planBytes = Ok plan" "Total plan = int (length (ep_Tasks plan))"
    "plan_tasks (\<lambda>n. random_id e (n + 1)) (random_id e 0) (js_Topic job)
          (if ts_Type ex = [] then TaskTypeBatch else ts_Type ex) (ep_Name plan) (ep_Tasks plan) = Ok tds" by blast
  have io: "mkdir_err e = None" "\<forall>f. reg_write_err e f = None" "plan_read_err e = None" "js_Type job \<noteq> TypeStream"
    using fine by auto
  let ?files = "write_file plan_file planBytes (write_file (str ''plan.wasm'') b [])"
  let ?st1 = "new_reg\<lparr>rs_dir := Some ?files\<rparr>"
  note split = register_split_new [OF io(1,2) t(2,3)]
  have plan: "map_of (write_file (str ''reduce.wasm'') r ?files) plan_file = Some planBytes" for r
    by (simp_all add: map_of_write_file plan_file_def str_def)
  consider "spec_order e = [k_split, k_execute, k_merge]" | "spec_order e = [k_split, k_merge, k_execute]"
    | rest where "spec_order e = k_execute # rest" | rest where "spec_order e = k_merge # rest"
    using perms3 [OF assms(2,3)] by auto
  then show ?thesis
  proof cases
    case 1
    let ?jd = "(planned_job e job plan mapBinary)\<lparr>MergerBinary := reduceBinary\<rparr>"
    have jd: "jd_ID ?jd = random_id e 0" "jd_Type ?jd = TypeBatch" "TasksTotal ?jd = int (length tds)" "jd_Binary ?jd = mapBinary"
        "MergerBinary ?jd = reduceBinary"
      using length_plan_tasks [OF t(8)] t(7) by (simp_all add: planned_job_def)
    from register_in_order [OF assms(1) 1] obtain st files where "RegisterJob e job = Runs (st, None)"
      "rs_events st = [EventJobSubmitted ?jd tds]" "rs_dir st = Some files" "dom (map_of files) = insert plan_file job_binaries"
      "map_of files plan_file = Some planBytes" by blast
    with jd show ?thesis unfolding if_P [OF 1] by blast
  next
    case 2
    let ?files' = "write_file (str ''reduce.wasm'') reduceBinary ?files"
    let ?st2 = "?st1\<lparr>rs_dir := Some ?files', rs_jd := (rs_jd ?st1)\<lparr>MergerBinary := reduceBinary\<rparr>,
      rs_events := rs_events ?st1 @ [EventJobSubmitted ((rs_jd ?st1)\<lparr>MergerBinary := reduceBinary\<rparr>) (rs_tasks ?st1)]\<rparr>"
    have "register_merge e mg ?st1 = Runs (?st2, None)"
      by (rule register_merge_ready [OF io(2) _ t(5)]) simp
    moreover note register_execute_ready [OF io(3,2) _ plan t(6,7,4,8), of ?st2]
    ultimately have "\<exists>st. RegisterJob e job = Runs (st, None) \<and> rs_events st = rs_events ?st2"
      using 2 io(4) t(1) split by (simp add: RegisterJob_def del: write_file.simps)
    then obtain st where st: "RegisterJob e job = Runs (st, None)" "rs_events st = rs_events ?st2" by blast
    have "rs_events ?st2 = [EventJobSubmitted (zero_job\<lparr>MergerBinary := reduceBinary\<rparr>) []]" by (simp add: new_reg_def)
    with st untyped_job_rejected 2 show ?thesis by (intro exI [of _ st] exI [of _ None]) auto
  next
    case 3
    with register_early(1) [of new_reg e job ex] io(4) t(1) show ?thesis
      by (auto simp: RegisterJob_def) (auto simp: new_reg_def)
  next
    case 4
    with register_early(2) [of new_reg e mg reduceBinary] io(4) t(1,5) show ?thesis
      by (auto simp: RegisterJob_def) (auto simp: new_reg_def)
  qed
qed

definition example_reg :: "bytes list \<Rightarrow> reg_env" where
  "example_reg order = \<lparr>random_id = id_of_nat, ReadFile = \<lambda>_. Ok [0], mkdir_err = None, reg_write_err = \<lambda>_. None,
     plan_read_err = None, reg_planner = \<lambda>_. Ok [1], Unmarshal = \<lambda>_. Ok two_plan, spec_order = order\<rparr>"

definition example_spec :: JobSpec where
  "example_spec = \<lparr>js_Name = [], js_Type = TypeBatch, js_Topic = [], js_TargetTags = [], js_Binary = [],
     js_Tasks = [k_split \<mapsto> \<lparr>Input = [], Run = [1], ts_Type = []\<rparr>, k_execute \<mapsto> \<lparr>Input = [], Run = [2], ts_Type = []\<rparr>,
       k_merge \<mapsto> \<lparr>Input = [], Run = [3], ts_Type = []\<rparr>]\<rparr>"

lemma example_reg_fine: "\<exists>tds. reg_fine (example_reg order) example_spec [1] two_plan [0] [0] tds \<and> length tds = 2"
proof -
  let ?e = "example_reg order" and ?tasks = "js_Tasks example_spec"
  have tasks: "?tasks = [k_split \<mapsto> \<lparr>Input = [], Run = [1], ts_Type = []\<rparr>, k_execute \<mapsto> \<lparr>Input = [], Run = [2], ts_Type = []\<rparr>,
      k_merge \<mapsto> \<lparr>Input = [], Run = [3], ts_Type = []\<rparr>]" by (simp add: example_spec_def)
  have io: "js_Type example_spec \<noteq> TypeStream" "mkdir_err ?e = None" "\<forall>f. reg_write_err ?e f = None" "plan_read_err ?e = None"
    using TypeBatch_not_Stream by (simp_all add: example_spec_def example_reg_def)
  obtain tds where "plan_tasks (\<lambda>n. random_id ?e (n + 1)) (random_id ?e 0) (js_Topic example_spec) TaskTypeBatch (ep_Name two_plan)
      (ep_Tasks two_plan) = Ok tds"
    by (simp add: two_plan_def b64_DecodeString_def)
  moreover from length_plan_tasks [OF this] have "length tds = 2" by (simp add: two_plan_def)
  ultimately show ?thesis
    unfolding reg_fine_def tasks using io
    by (intro exI [of _ tds] conjI exI [of _ "\<lparr>Input = [], Run = [1], ts_Type = []\<rparr>"]
        exI [of _ "\<lparr>Input = [], Run = [2], ts_Type = []\<rparr>"] exI [of _ "\<lparr>Input = [], Run = [3], ts_Type = []\<rparr>"] exI [of _ "[0]"])
      (simp_all add: example_reg_def, simp_all add: two_plan_def)
qed

theorem register_order_witness:
  "\<exists>st jd tds. RegisterJob (example_reg [k_split, k_execute, k_merge]) example_spec = Runs (st, None) \<and>
     rs_events st = [EventJobSubmitted jd tds] \<and> length tds = 2"
proof -
  let ?e = "example_reg [k_split, k_execute, k_merge]"
  obtain tds where f: "reg_fine ?e example_spec [1] two_plan [0] [0] tds" "length tds = 2"
    using example_reg_fine by blast
  have o: "spec_order ?e = [k_split, k_execute, k_merge]" by (simp add: example_reg_def)
  then have d: "distinct (spec_order ?e)" "set (spec_order ?e) = {k_split, k_execute, k_merge}" by simp_all
  from register_order [OF f(1) d] show ?thesis unfolding if_P [OF o] using f(2) by blast
qed

text \<open>
  One failed registration ends every later reload: when the planner of a new job fails, \<open>RegisterJob\<close> returns the
  error and leaves the job's directory with the planner's binary only; on every restart the reload stops with an
  error at this directory, and the jobs whose directories come after it in the listing are not submitted.
\<close>

theorem failed_registration_stops_reload:
  assumes "js_Type job \<noteq> TypeStream" "spec_order e = k_split # rest" "js_Tasks job k_split = Some sp"
    and "mkdir_err e = None" "\<forall>f. reg_write_err e f = None" "ReadFile e (Run sp) = Ok b" "reg_planner e b = Err err"
    and "list_dir fsys d = Ok [str ''plan.wasm'']" "read_in fsys d (str ''plan.json'') = Err err2" "d = NodeId_String (random_id e 0)"
    and "reload_dirs e' fsys 0 before [] = Runs (queue, None)" "root_dir fsys = Ok (before @ (d, True) # after)"
  shows "(\<exists>st. RegisterJob e job = Runs (st, Some err) \<and> rs_dir st = Some [(str ''plan.wasm'', b)] \<and> rs_events st = []) \<and>
    reloadMemoryOnStartup e' fsys = Runs (queue, Some err2)"
proof
  show "\<exists>st. RegisterJob e job = Runs (st, Some err) \<and> rs_dir st = Some [(str ''plan.wasm'', b)] \<and> rs_events st = []"
    using assms(1-7) by (simp add: RegisterJob_def register_split_def reg_bind_def reg_write_def new_reg_def)
  have wasm: "scan_files [str ''plan.wasm''] [] = (False, [])" by (simp add: ends_with_def str_def)
  have bad: "reload_job e' fsys n (d, True) = Err err2" for n
    using assms(8,9) reload_hex [of "random_id e 0"] unfolding assms(10) by (simp add: reload_job_def wasm del: scan_files.simps)
  show "reloadMemoryOnStartup e' fsys = Runs (queue, Some err2)"
    using reload_dirs_append [OF assms(11), of "(d, True) # after"] bad assms(12) by (simp add: reloadMemoryOnStartup_def)
qed

definition broken_fs :: job_fs where
  "broken_fs = \<lparr>root_dir = Ok [(NodeId_String (id_of_nat 0), True), (NodeId_String (id_of_nat 1), True)],
     list_dir = \<lambda>_. Ok [str ''plan.wasm''], read_in = \<lambda>_ _. Err ''file does not exist''\<rparr>"

theorem failed_registration_stops_reload_witness:
  "(\<exists>st. RegisterJob ((example_reg [k_split, k_execute, k_merge])\<lparr>reg_planner := \<lambda>_. Err ''trap''\<rparr>) example_spec = Runs (st, Some ''trap'')) \<and>
   reloadMemoryOnStartup \<lparr>reload_id = id_of_nat, reload_Unmarshal = \<lambda>_. Ok two_plan\<rparr> broken_fs = Runs ([], Some ''file does not exist'')"
proof -
  let ?e = "(example_reg [k_split, k_execute, k_merge])\<lparr>reg_planner := \<lambda>_. Err ''trap''\<rparr>"
  let ?e' = "\<lparr>reload_id = id_of_nat, reload_Unmarshal = \<lambda>_. Ok two_plan\<rparr>"
  have spec: "js_Type example_spec \<noteq> TypeStream" "js_Tasks example_spec k_split = Some \<lparr>Input = [], Run = [1], ts_Type = []\<rparr>"
    using TypeBatch_not_Stream by (simp_all add: example_spec_def)
  have env: "spec_order ?e = k_split # [k_execute, k_merge]" "mkdir_err ?e = None" "\<forall>f. reg_write_err ?e f = None"
    "ReadFile ?e (Run \<lparr>Input = [], Run = [1], ts_Type = []\<rparr>) = Ok [0]" "reg_planner ?e [0] = Err ''trap''"
    by (simp_all add: example_reg_def)
  have fs: "list_dir broken_fs (NodeId_String (random_id ?e 0)) = Ok [str ''plan.wasm'']"
    "read_in broken_fs (NodeId_String (random_id ?e 0)) (str ''plan.json'') = Err ''file does not exist''"
    "root_dir broken_fs = Ok ([] @ (NodeId_String (random_id ?e 0), True) # [(NodeId_String (id_of_nat 1), True)])"
    by (simp_all add: broken_fs_def example_reg_def)
  have "reload_dirs ?e' broken_fs 0 [] [] = Runs ([], None)" by simp
  from failed_registration_stops_reload [OF spec(1) env(1) spec(2) env(2-5) fs(1,2) refl this fs(3)]
  show ?thesis by blast
qed

end
