(* ===== verification/Worker.thy ===== *)
theory Worker
  imports Task_Codec "HOL-Library.Multiset"
begin

text \<open>
  The worker (\<open>src/scheduler/worker.go\<close>): a goroutine that polls the scheduler for tasks, eight that execute them and eight
  that send results, joined by the channels \<open>batchTasks\<close> and \<open>batchResults\<close> of capacity eight.
  \<^item> \<open>Worker\<close> is the struct. \<open>worker_state\<close> adds where each goroutine stands: the poller waits for a response or to
    send to \<open>batchTasks\<close>; an executor waits for a task, runs one, waits to send its result, or has returned; a result writer waits
    or sends. It also records what happened: the batch tasks received, those dropped and failed, and the results that were sent.
  \<^item> \<open>w_step\<close> is one action of one goroutine; Go may interleave them in any order. The response of the network to
    a poll is arbitrary; \<open>exec\<close> is the runtime. A panic of the decoder or of the runtime ends the process, so
    there is no step.
  \<^item> \<open>starting\<close> holds the stream tasks whose goroutine was started with \<open>go w.startStreamTask\<close> but has not yet run.
  The end of the context, which stops every goroutine, and logging are left out.
\<close>

definition execWorkerPoolSize :: nat where "execWorkerPoolSize = 8"
definition resultWorkerPoolSize :: nat where "resultWorkerPoolSize = 8"

record ExecResult =
  er_TaskID :: NodeId
  er_Result :: bytes

record Worker =
  w_streamTasks :: "NodeId set"
  maxStreams :: nat
  w_batchTasks :: "Task list"
  w_batchResults :: "ExecResult list"
  w_mountDir :: bytes
  w_capabilities :: "bytes list"
  w_tags :: "bytes list"
  topicPublisher :: bool

definition NewWorker :: "bytes \<Rightarrow> bytes list \<Rightarrow> bytes list \<Rightarrow> Worker" where
  "NewWorker mountDir capabilities tags =
     \<lparr>w_streamTasks = {}, maxStreams = 1, w_batchTasks = [], w_batchResults = [], w_mountDir = mountDir,
      w_capabilities = capabilities, w_tags = tags, topicPublisher = False\<rparr>"

definition RegisterTopicPublisher :: "Worker \<Rightarrow> Worker" where
  "RegisterTopicPublisher w = w\<lparr>topicPublisher := True\<rparr>"

datatype fetch_state = Polling | Pushing Task
datatype exec_state = ExecIdle | ExecRunning Task | ExecSending ExecResult | ExecReturned
datatype write_state = WriteIdle | Writing ExecResult

record worker_state =
  worker :: Worker
  fetcher :: fetch_state
  executors :: "exec_state list"
  writers :: "write_state list"
  starting :: "Task list"
  streams :: "Task list"
  received :: "Task list"
  dropped :: "Task list"
  failures :: "Task list"
  sent :: "ExecResult list"

definition startWorkers :: "Worker \<Rightarrow> worker_state" where
  "startWorkers w =
     \<lparr>worker = w, fetcher = Polling, executors = replicate execWorkerPoolSize ExecIdle,
      writers = replicate resultWorkerPoolSize WriteIdle, starting = [], streams = [], received = [], dropped = [],
      failures = [], sent = []\<rparr>"

subsection \<open>The body of the goroutines\<close>

definition zero_Task :: Task where
  "zero_Task =
     \<lparr>task_OpCode = 0, TaskID = zero_id, JobID = zero_id, Type = [], Topic = [], task_RequestMode = 0, Binary = [], TTL = 0,
      Result = [], Stdin = [], Capabilities = [], Tags = []\<rparr>"

definition fetch_request :: "Worker \<Rightarrow> Task" where
  "fetch_request w =
     (let mode = (if card (w_streamTasks w) < maxStreams w then RequestModeNeedBatchOrStream else RequestModeNeedBatch)
      in zero_Task\<lparr>task_OpCode := LeaseRequest, Capabilities := w_capabilities w, Tags := w_tags w,
           task_RequestMode := mode\<rparr>)"

datatype fetch_action = FetchNothing | FetchPush Task | FetchStart Task | FetchCrash

definition fetch_response :: "nat \<Rightarrow> Worker \<Rightarrow> bytes outcome \<Rightarrow> fetch_action" where
  "fetch_response mem w response =
     (case response of
        Err _ \<Rightarrow> FetchNothing
      | Panic \<Rightarrow> FetchCrash
      | Ok resp \<Rightarrow>
          (case DecodeTask mem resp of
             Err _ \<Rightarrow> FetchNothing
           | Panic \<Rightarrow> FetchCrash
           | Ok task \<Rightarrow>
               if Type task = TaskTypeBatch then FetchPush task
               else if Type task = TaskTypeStream then
                 if JobID task \<in> w_streamTasks w then FetchNothing else FetchStart task
               else FetchNothing))"

definition exec_take :: "Task \<Rightarrow> exec_state" where
  "exec_take task = (if length (Binary task) = 0 then ExecReturned else ExecRunning task)"

definition exec_finish :: "Task \<Rightarrow> bytes outcome \<Rightarrow> exec_state option" where
  "exec_finish task result =
     (case result of
        Ok result \<Rightarrow> Some (ExecSending \<lparr>er_TaskID = TaskID task, er_Result = result\<rparr>)
      | Err _ \<Rightarrow> Some ExecIdle
      | Panic \<Rightarrow> None)"

definition result_message :: "ExecResult \<Rightarrow> bytes" where
  "result_message result =
     EncodeTask (zero_Task\<lparr>task_OpCode := ExecutionResponse, TaskID := er_TaskID result, Result := er_Result result\<rparr>)"

subsection \<open>The machine\<close>

abbreviation set_worker :: "(Worker \<Rightarrow> Worker) \<Rightarrow> worker_state \<Rightarrow> worker_state" where
  "set_worker f st \<equiv> st\<lparr>worker := f (worker st)\<rparr>"

inductive w_step :: "nat \<Rightarrow> (bytes \<Rightarrow> bytes \<Rightarrow> bytes outcome) \<Rightarrow> worker_state \<Rightarrow> worker_state \<Rightarrow> bool"
  for mem exec where
  fetch_batch: "fetcher st = Polling \<Longrightarrow> fetch_response mem (worker st) resp = FetchPush task \<Longrightarrow>
    w_step mem exec st (st\<lparr>fetcher := Pushing task, received := received st @ [task]\<rparr>)"
| fetch_push: "fetcher st = Pushing task \<Longrightarrow> length (w_batchTasks (worker st)) < execWorkerPoolSize \<Longrightarrow>
    w_step mem exec st ((set_worker (\<lambda>w. w\<lparr>w_batchTasks := w_batchTasks w @ [task]\<rparr>) st)\<lparr>fetcher := Polling\<rparr>)"
| fetch_stream: "fetcher st = Polling \<Longrightarrow> fetch_response mem (worker st) resp = FetchStart task \<Longrightarrow>
    w_step mem exec st (st\<lparr>starting := starting st @ [task]\<rparr>)"
| take_run: "w_batchTasks (worker st) = task # rest \<Longrightarrow> i < length (executors st) \<Longrightarrow> executors st ! i = ExecIdle \<Longrightarrow>
    exec_take task = ExecRunning task \<Longrightarrow>
    w_step mem exec st ((set_worker (\<lambda>w. w\<lparr>w_batchTasks := rest\<rparr>) st)\<lparr>executors := (executors st)[i := ExecRunning task]\<rparr>)"
| take_return: "w_batchTasks (worker st) = task # rest \<Longrightarrow> i < length (executors st) \<Longrightarrow> executors st ! i = ExecIdle \<Longrightarrow>
    exec_take task = ExecReturned \<Longrightarrow>
    w_step mem exec st ((set_worker (\<lambda>w. w\<lparr>w_batchTasks := rest\<rparr>) st)\<lparr>executors := (executors st)[i := ExecReturned],
      dropped := dropped st @ [task]\<rparr>)"
| run_ok: "i < length (executors st) \<Longrightarrow> executors st ! i = ExecRunning task \<Longrightarrow>
    exec_finish task (exec (Binary task) (Stdin task)) = Some (ExecSending r) \<Longrightarrow>
    w_step mem exec st (st\<lparr>executors := (executors st)[i := ExecSending r]\<rparr>)"
| run_err: "i < length (executors st) \<Longrightarrow> executors st ! i = ExecRunning task \<Longrightarrow>
    exec_finish task (exec (Binary task) (Stdin task)) = Some ExecIdle \<Longrightarrow>
    w_step mem exec st (st\<lparr>executors := (executors st)[i := ExecIdle], failures := failures st @ [task]\<rparr>)"
| result_push: "i < length (executors st) \<Longrightarrow> executors st ! i = ExecSending r \<Longrightarrow>
    length (w_batchResults (worker st)) < resultWorkerPoolSize \<Longrightarrow>
    w_step mem exec st ((set_worker (\<lambda>w. w\<lparr>w_batchResults := w_batchResults w @ [r]\<rparr>) st)
      \<lparr>executors := (executors st)[i := ExecIdle]\<rparr>)"
| write_take: "w_batchResults (worker st) = r # rest \<Longrightarrow> i < length (writers st) \<Longrightarrow> writers st ! i = WriteIdle \<Longrightarrow>
    w_step mem exec st ((set_worker (\<lambda>w. w\<lparr>w_batchResults := rest\<rparr>) st)\<lparr>writers := (writers st)[i := Writing r]\<rparr>)"
| write_send: "i < length (writers st) \<Longrightarrow> writers st ! i = Writing r \<Longrightarrow>
    w_step mem exec st (st\<lparr>writers := (writers st)[i := WriteIdle], sent := sent st @ [r]\<rparr>)"
| stream_begin: "starting st = before @ task # after \<Longrightarrow>
    w_step mem exec st ((set_worker (\<lambda>w. w\<lparr>w_streamTasks := insert (JobID task) (w_streamTasks w)\<rparr>) st)
      \<lparr>starting := before @ after, streams := streams st @ [task]\<rparr>)"
| stream_end: "streams st = before @ task # after \<Longrightarrow>
    w_step mem exec st (st\<lparr>streams := before @ after\<rparr>)"

inductive_cases w_stepE: "w_step mem exec st st'"

definition w_init :: "worker_state \<Rightarrow> bool" where
  "w_init st \<longleftrightarrow> (\<exists>m caps tags. st = startWorkers (RegisterTopicPublisher (NewWorker m caps tags)))"

subsection \<open>Where tasks and results are\<close>

fun pushing_of :: "fetch_state \<Rightarrow> Task list" where
  "pushing_of (Pushing t) = [t]"
| "pushing_of Polling = []"

fun running_of :: "exec_state \<Rightarrow> Task list" where
  "running_of (ExecRunning t) = [t]"
| "running_of _ = []"

fun sending_of :: "exec_state \<Rightarrow> ExecResult list" where
  "sending_of (ExecSending r) = [r]"
| "sending_of _ = []"

fun writing_of :: "write_state \<Rightarrow> ExecResult list" where
  "writing_of (Writing r) = [r]"
| "writing_of WriteIdle = []"

abbreviation running :: "worker_state \<Rightarrow> Task list" where
  "running st \<equiv> concat (map running_of (executors st))"

definition tasks_held :: "worker_state \<Rightarrow> Task multiset" where
  "tasks_held st = mset (pushing_of (fetcher st)) + mset (w_batchTasks (worker st)) + mset (running st)"

definition results_held :: "worker_state \<Rightarrow> ExecResult multiset" where
  "results_held st =
     mset (concat (map sending_of (executors st))) + mset (w_batchResults (worker st)) + mset (concat (map writing_of (writers st)))"

lemma mset_concat_update:
  "i < length xs \<Longrightarrow> mset (concat (map f (xs[i := y]))) + mset (f (xs ! i)) = mset (concat (map f xs)) + mset (f y)"
proof -
  assume i: "i < length xs"
  have "mset (concat (map f xs)) = mset (concat (map f (take i xs))) + mset (f (xs ! i)) + mset (concat (map f (drop (Suc i) xs)))"
    by (subst id_take_nth_drop [OF i]) simp
  with i show ?thesis by (simp add: upd_conv_take_nth_drop)
qed

lemma concat_update_same:
  "i < length xs \<Longrightarrow> f y = f (xs ! i) \<Longrightarrow> mset (concat (map f (xs[i := y]))) = mset (concat (map f xs))"
  using mset_concat_update [of i xs f y] by simp

lemma concat_update_add:
  "i < length xs \<Longrightarrow> f (xs ! i) = [] \<Longrightarrow> mset (concat (map f (xs[i := y]))) = mset (concat (map f xs)) + mset (f y)"
  using mset_concat_update [of i xs f y] by simp

lemma concat_update_remove:
  "i < length xs \<Longrightarrow> f y = [] \<Longrightarrow> mset (concat (map f xs)) = mset (concat (map f (xs[i := y]))) + mset (f (xs ! i))"
  using mset_concat_update [of i xs f y] by simp

lemma running_in: "i < length xs \<Longrightarrow> xs ! i = ExecRunning t \<Longrightarrow> \<exists>x \<in> set xs. t \<in> set (running_of x)"
  using nth_mem [of i xs] by (intro bexI [of _ "xs ! i"]) simp_all

lemma concat_update_set: "t \<in> set (concat (map f (xs[i := y]))) \<Longrightarrow> t \<in> set (f y) \<or> t \<in> set (concat (map f xs))"
  using set_update_subset_insert [of xs i y] by auto

text \<open>
  The effect of a step on the multisets: a task moves from being received to being held, then to one of dropped, failed, or
  a result, and a result from being held to being sent.
\<close>

lemma w_step_flow:
  assumes "w_step mem exec st st'"
  obtains (recv) t where "received st' = received st @ [t]" "tasks_held st' = add_mset t (tasks_held st)"
      "dropped st' = dropped st" "failures st' = failures st" "results_held st' = results_held st" "sent st' = sent st"
  | (move) "received st' = received st" "tasks_held st' = tasks_held st"
      "dropped st' = dropped st" "failures st' = failures st" "results_held st' = results_held st" "sent st' = sent st"
  | (drop) t where "Binary t = []" "received st' = received st" "tasks_held st = add_mset t (tasks_held st')"
      "dropped st' = dropped st @ [t]" "failures st' = failures st" "results_held st' = results_held st" "sent st' = sent st"
  | (fail) t why where "t \<in> set (running st)" "exec (Binary t) (Stdin t) = Err why"
      "received st' = received st" "tasks_held st = add_mset t (tasks_held st')"
      "dropped st' = dropped st" "failures st' = failures st @ [t]" "results_held st' = results_held st" "sent st' = sent st"
  | (finish) t r where "t \<in> set (running st)" "received st' = received st" "tasks_held st = add_mset t (tasks_held st')"
      "dropped st' = dropped st" "failures st' = failures st" "results_held st' = add_mset r (results_held st)" "sent st' = sent st"
      "er_TaskID r = TaskID t" "exec (Binary t) (Stdin t) = Ok (er_Result r)"
  | (send) r where "received st' = received st" "tasks_held st' = tasks_held st"
      "dropped st' = dropped st" "failures st' = failures st" "results_held st = add_mset r (results_held st')" "sent st' = sent st @ [r]"
  using assms
proof cases
  case (fetch_batch resp task)
  then show thesis by (intro recv [of task]) (simp_all add: tasks_held_def results_held_def)
next
  case (fetch_push task)
  then show thesis by (intro move) (simp_all add: tasks_held_def results_held_def)
next
  case (fetch_stream resp task)
  then show thesis by (intro move) (simp_all add: tasks_held_def results_held_def)
next
  case (take_run task rest i)
  then show thesis
    by (intro move) (simp_all add: tasks_held_def results_held_def concat_update_add concat_update_same)
next
  case (take_return task rest i)
  then show thesis
    by (intro drop [of task])
      (simp_all add: tasks_held_def results_held_def concat_update_same exec_take_def split: if_splits)
next
  case (run_ok i task r)
  then have r: "er_TaskID r = TaskID task" "exec (Binary task) (Stdin task) = Ok (er_Result r)"
    by (auto simp: exec_finish_def split: outcome.splits)
  have "mset (concat (map running_of (executors st))) = add_mset task (mset (concat (map running_of ((executors st)[i := ExecSending r]))))"
    using run_ok concat_update_remove [of i "executors st" running_of "ExecSending r"] by simp
  with run_ok r show thesis
    by (intro finish [of task r]) (simp_all add: tasks_held_def results_held_def concat_update_add running_in)
next
  case (run_err i task)
  then obtain why where why: "exec (Binary task) (Stdin task) = Err why"
    by (auto simp: exec_finish_def split: outcome.splits)
  have "mset (concat (map running_of (executors st))) = add_mset task (mset (concat (map running_of ((executors st)[i := ExecIdle]))))"
    using run_err concat_update_remove [of i "executors st" running_of ExecIdle] by simp
  with run_err why show thesis
    by (intro fail [of task]) (simp_all add: tasks_held_def results_held_def concat_update_same running_in)
next
  case (result_push i r)
  have "mset (concat (map sending_of (executors st))) = add_mset r (mset (concat (map sending_of ((executors st)[i := ExecIdle]))))"
    using result_push concat_update_remove [of i "executors st" sending_of ExecIdle] by simp
  with result_push show thesis
    by (intro move) (simp_all add: tasks_held_def results_held_def concat_update_same)
next
  case (write_take r rest i)
  then show thesis by (intro move) (simp_all add: tasks_held_def results_held_def concat_update_add)
next
  case (write_send i r)
  have "mset (concat (map writing_of (writers st))) = add_mset r (mset (concat (map writing_of ((writers st)[i := WriteIdle]))))"
    using write_send concat_update_remove [of i "writers st" writing_of WriteIdle] by simp
  with write_send show thesis by (intro send [of r]) (simp_all add: tasks_held_def results_held_def)
next
  case (stream_begin before task after)
  then show thesis by (intro move) (simp_all add: tasks_held_def results_held_def)
next
  case (stream_end before task after)
  then show thesis by (intro move) (simp_all add: tasks_held_def results_held_def)
qed

subsection \<open>Invariants\<close>

definition flow_ok :: "(bytes \<Rightarrow> bytes \<Rightarrow> bytes outcome) \<Rightarrow> worker_state \<Rightarrow> bool" where
  "flow_ok exec st \<longleftrightarrow>
     mset (map TaskID (received st)) =
       image_mset TaskID (tasks_held st) + mset (map TaskID (dropped st @ failures st)) +
       image_mset er_TaskID (results_held st) + mset (map er_TaskID (sent st)) \<and>
     set_mset (tasks_held st) \<subseteq> set (received st) \<and>
     (\<forall>r \<in> set_mset (results_held st) \<union> set (sent st).
        \<exists>t \<in> set (received st). er_TaskID r = TaskID t \<and> exec (Binary t) (Stdin t) = Ok (er_Result r))"

lemma flow_ok_step:
  assumes "flow_ok exec st" "w_step mem exec st st'"
  shows "flow_ok exec st'"
  using assms(2)
proof (cases rule: w_step_flow)
  case (finish t r)
  then have t: "t \<in> set (received st)" using assms(1) by (auto simp: flow_ok_def)
  have "\<forall>x \<in> set_mset (results_held st') \<union> set (sent st').
      \<exists>t \<in> set (received st'). er_TaskID x = TaskID t \<and> exec (Binary t) (Stdin t) = Ok (er_Result x)"
    using assms(1) finish t unfolding flow_ok_def by auto
  with assms(1) finish show ?thesis unfolding flow_ok_def by simp
qed (use assms(1) in \<open>auto simp: flow_ok_def\<close>)

definition pool_ok :: "worker_state \<Rightarrow> bool" where
  "pool_ok st \<longleftrightarrow>
     length (executors st) = execWorkerPoolSize \<and> length (writers st) = resultWorkerPoolSize \<and>
     length (w_batchTasks (worker st)) \<le> execWorkerPoolSize \<and> length (w_batchResults (worker st)) \<le> resultWorkerPoolSize \<and>
     maxStreams (worker st) = 1 \<and>
     length (filter (\<lambda>x. x = ExecReturned) (executors st)) = length (dropped st) \<and> list_all (\<lambda>t. Binary t = []) (dropped st)"

lemma length_filter_update:
  "i < length xs \<Longrightarrow> length (filter P (xs[i := y])) + (if P (xs ! i) then 1 else 0) = length (filter P xs) + (if P y then 1 else 0)"
proof -
  assume i: "i < length xs"
  have "length (filter P xs) = length (filter P (take i xs)) + (if P (xs ! i) then 1 else 0) + length (filter P (drop (Suc i) xs))"
    by (subst id_take_nth_drop [OF i]) simp
  with i show ?thesis by (simp add: upd_conv_take_nth_drop)
qed

lemma pool_ok_step:
  assumes "pool_ok st" "w_step mem exec st st'"
  shows "pool_ok st'"
  using assms(2)
proof cases
  case (take_return task rest i)
  with assms(1) length_filter_update [of i "executors st" "\<lambda>x. x = ExecReturned" ExecReturned] show ?thesis
    by (auto simp: pool_ok_def exec_take_def split: if_splits)
next
  case (take_run task rest i)
  with assms(1) length_filter_update [of i "executors st" "\<lambda>x. x = ExecReturned" "ExecRunning task"] show ?thesis
    by (auto simp: pool_ok_def)
next
  case (run_ok i task r)
  with assms(1) length_filter_update [of i "executors st" "\<lambda>x. x = ExecReturned" "ExecSending r"] show ?thesis
    by (auto simp: pool_ok_def)
next
  case (run_err i task)
  with assms(1) length_filter_update [of i "executors st" "\<lambda>x. x = ExecReturned" ExecIdle] show ?thesis
    by (auto simp: pool_ok_def)
next
  case (result_push i r)
  with assms(1) length_filter_update [of i "executors st" "\<lambda>x. x = ExecReturned" ExecIdle] show ?thesis
    by (auto simp: pool_ok_def)
qed (use assms(1) in \<open>auto simp: pool_ok_def\<close>)

text \<open>No executor runs an empty binary, and every received task is held, dropped, failed, or one of the finished tasks \<open>D\<close>, which have the results.\<close>

definition running_ok :: "worker_state \<Rightarrow> bool" where
  "running_ok st \<longleftrightarrow> (\<forall>t \<in> set (running st). Binary t \<noteq> [])"

lemma running_ok_step:
  assumes "running_ok st" "w_step mem exec st st'"
  shows "running_ok st'"
  unfolding running_ok_def
proof
  fix t assume "t \<in> set (running st')"
  with assms(2) have "t \<in> set (running st) \<or> exec_take t = ExecRunning t"
    by cases (auto dest!: concat_update_set [simplified])
  with assms(1) show "Binary t \<noteq> []" by (auto simp: running_ok_def exec_take_def split: if_splits)
qed

definition accounted :: "(bytes \<Rightarrow> bytes \<Rightarrow> bytes outcome) \<Rightarrow> worker_state \<Rightarrow> bool" where
  "accounted exec st \<longleftrightarrow>
     (\<forall>t \<in> set (failures st). Binary t \<noteq> [] \<and> (\<exists>why. exec (Binary t) (Stdin t) = Err why)) \<and>
     (\<exists>D. mset (received st) = tasks_held st + mset (dropped st) + mset (failures st) + D \<and> (\<forall>t \<in># D. Binary t \<noteq> []) \<and>
        image_mset (\<lambda>t. (TaskID t, exec (Binary t) (Stdin t))) D =
          image_mset (\<lambda>r. (er_TaskID r, Ok (er_Result r))) (results_held st + mset (sent st)))"

lemma accounted_step:
  assumes "accounted exec st" "running_ok st" "w_step mem exec st st'"
  shows "accounted exec st'"
proof -
  obtain D where D: "mset (received st) = tasks_held st + mset (dropped st) + mset (failures st) + D" "\<forall>t \<in># D. Binary t \<noteq> []"
    "image_mset (\<lambda>t. (TaskID t, exec (Binary t) (Stdin t))) D =
       image_mset (\<lambda>r. (er_TaskID r, Ok (er_Result r))) (results_held st + mset (sent st))"
    using assms(1) unfolding accounted_def by blast
  have f: "\<forall>t \<in> set (failures st). Binary t \<noteq> [] \<and> (\<exists>why. exec (Binary t) (Stdin t) = Err why)"
    using assms(1) unfolding accounted_def by blast
  from assms(3) show ?thesis
  proof (cases rule: w_step_flow)
    case (finish t r)
    then have "Binary t \<noteq> []" using assms(2) by (auto simp: running_ok_def)
    with D f finish show ?thesis unfolding accounted_def by (intro conjI exI [of _ "add_mset t D"]) simp_all
  next
    case (fail t why)
    then have "Binary t \<noteq> []" using assms(2) by (auto simp: running_ok_def)
    with D f fail show ?thesis unfolding accounted_def by (intro conjI exI [of _ D]) simp_all
  qed (use D f in \<open>unfold accounted_def, intro conjI exI [of _ D]; simp\<close>)+
qed

interpretation wk: invariant_system w_init "w_step mem exec"
  "\<lambda>st. flow_ok exec st \<and> pool_ok st \<and> running_ok st \<and> accounted exec st" for mem exec
proof unfold_locales
  fix st assume "w_init st"
  then show "flow_ok exec st \<and> pool_ok st \<and> running_ok st \<and> accounted exec st"
    by (auto simp: w_init_def startWorkers_def NewWorker_def RegisterTopicPublisher_def flow_ok_def pool_ok_def tasks_held_def
        results_held_def execWorkerPoolSize_def resultWorkerPoolSize_def running_ok_def accounted_def)
qed (use flow_ok_step pool_ok_step running_ok_step accounted_step in blast)

subsection \<open>A pool without executors\<close>

abbreviation all_returned :: "worker_state \<Rightarrow> bool" where
  "all_returned st \<equiv> executors st = replicate execWorkerPoolSize ExecReturned"

lemma dropped_all_returned:
  assumes "pool_ok st" "length (dropped st) = execWorkerPoolSize"
  shows "all_returned st"
proof (rule replicate_eqI)
  show "length (executors st) = execWorkerPoolSize" using assms(1) by (simp add: pool_ok_def)
  have full: "length (filter (\<lambda>x. x = ExecReturned) (executors st)) = length (executors st)"
    using assms by (simp add: pool_ok_def)
  show "x = ExecReturned" if "x \<in> set (executors st)" for x
    using that full length_filter_less [of x "executors st" "\<lambda>x. x = ExecReturned"] by auto
qed

lemma all_returned_step:
  assumes "all_returned st" "w_step mem exec st st'"
  shows "all_returned st' \<and> dropped st' = dropped st \<and> failures st' = failures st \<and>
    results_held st' + mset (sent st') = results_held st + mset (sent st)"
proof -
  have nth: "i < length (executors st) \<Longrightarrow> executors st ! i = ExecReturned" for i using assms(1) by simp
  from assms(2) show ?thesis
  proof cases
    case (write_take r rest i)
    with assms(1) show ?thesis by (simp add: results_held_def concat_update_add)
  next
    case (write_send i r)
    with assms(1) concat_update_remove [of i "writers st" writing_of WriteIdle] show ?thesis by (simp add: results_held_def)
  qed (use assms(1) nth in \<open>simp_all add: results_held_def\<close>)
qed

lemma all_returned_steps:
  assumes "(w_step mem exec)\<^sup>*\<^sup>* st st'" "all_returned st"
  shows "all_returned st' \<and> dropped st' = dropped st \<and> failures st' = failures st \<and>
    results_held st' + mset (sent st') = results_held st + mset (sent st)"
  using assms(1)
proof (induction rule: rtranclp_induct)
  case (step u v)
  with all_returned_step [OF _ step.hyps(2)] show ?case by metis
qed (use assms(2) in simp)

lemma received_size:
  "flow_ok exec st \<Longrightarrow> length (received st) =
     size (tasks_held st) + length (dropped st) + length (failures st) + size (results_held st + mset (sent st))"
proof -
  assume "flow_ok exec st"
  then have "size (mset (map TaskID (received st))) = size (image_mset TaskID (tasks_held st) +
      mset (map TaskID (dropped st @ failures st)) + image_mset er_TaskID (results_held st) + mset (map er_TaskID (sent st)))"
    by (simp add: flow_ok_def)
  then show ?thesis by simp
qed

lemma pushing_length: "length (pushing_of f) \<le> 1"
  by (cases f) simp_all

text \<open>A worker that executes one task, and one that takes tasks with an empty binary.\<close>

definition idle_worker :: worker_state where
  "idle_worker = startWorkers (RegisterTopicPublisher (NewWorker [] [] []))"

definition batch_task :: "bytes \<Rightarrow> Task" where
  "batch_task b = zero_Task\<lparr>Type := TaskTypeBatch, Binary := b\<rparr>"

lemma batch_task_received: "length b \<le> 1 \<Longrightarrow> fetch_response 1000 w (Ok (EncodeTask (batch_task b))) = FetchPush (batch_task b)"
proof -
  assume b: "length b \<le> 1"
  have "wf_task 1000 (batch_task b)"
    using b by (simp add: wf_task_def wf_header_def wf_section_def batch_task_def zero_Task_def TaskTypeBatch_def str_def)
  from DecodeTask_EncodeTask [OF this, of "[]"] show ?thesis
    by (simp add: fetch_response_def batch_task_def zero_Task_def Duration_Abs_def)
qed

definition poisoned :: "nat \<Rightarrow> worker_state" where
  "poisoned n = idle_worker\<lparr>executors := replicate n ExecReturned @ replicate (8 - n) ExecIdle,
     received := replicate n (batch_task []), dropped := replicate n (batch_task [])\<rparr>"

lemmas worker_eval = idle_worker_def startWorkers_def RegisterTopicPublisher_def NewWorker_def execWorkerPoolSize_def resultWorkerPoolSize_def

lemma reach_idle: "reach w_init S idle_worker"
  by (rule reach_init) (auto simp: w_init_def idle_worker_def)

lemma poisoned_reach: "n \<le> 8 \<Longrightarrow> reach w_init (w_step 1000 exec) (poisoned n)"
proof (induction n)
  case 0
  have "poisoned 0 = idle_worker" by (simp add: poisoned_def worker_eval numeral_eq_Suc)
  then show ?case by (simp add: reach_idle)
next
  case (Suc n)
  let ?t = "batch_task []"
  let ?a = "(poisoned n)\<lparr>fetcher := Pushing ?t, received := received (poisoned n) @ [?t]\<rparr>"
  let ?b = "(set_worker (\<lambda>w. w\<lparr>w_batchTasks := w_batchTasks w @ [?t]\<rparr>) ?a)\<lparr>fetcher := Polling\<rparr>"
  let ?c = "(set_worker (\<lambda>w. w\<lparr>w_batchTasks := []\<rparr>) ?b)\<lparr>executors := (executors ?b)[n := ExecReturned], dropped := dropped ?b @ [?t]\<rparr>"
  have "w_step 1000 exec (poisoned n) ?a"
    by (rule fetch_batch [OF _ batch_task_received]) (simp_all add: poisoned_def worker_eval)
  moreover have "w_step 1000 exec ?a ?b" by (rule fetch_push) (simp_all add: poisoned_def worker_eval)
  moreover have "w_step 1000 exec ?b ?c"
    by (rule take_return) (use Suc.prems in \<open>simp_all add: poisoned_def worker_eval exec_take_def batch_task_def zero_Task_def nth_append\<close>)
  ultimately have "reach w_init (w_step 1000 exec) ?c" using Suc by (meson Suc_leD reach_step)
  moreover have "8 - n = Suc (8 - Suc n)" using Suc.prems by simp
  then have "?c = poisoned (Suc n)"
    by (simp add: poisoned_def worker_eval list_update_append replicate_append_same)
  ultimately show ?case by simp
qed

text \<open>From the poll to the result: the steps between, in which the worker neither receives nor sends, and the last one.\<close>

definition quiet_step :: "nat \<Rightarrow> (bytes \<Rightarrow> bytes \<Rightarrow> bytes outcome) \<Rightarrow> worker_state \<Rightarrow> worker_state \<Rightarrow> bool" where
  "quiet_step mem exec w w' \<longleftrightarrow> w_step mem exec w w' \<and> received w' = received w \<and> sent w' = sent w"

definition writing_worker :: "Task \<Rightarrow> ExecResult \<Rightarrow> worker_state" where
  "writing_worker t r = idle_worker\<lparr>received := [t], writers := (writers idle_worker)[0 := Writing r]\<rparr>"

lemma worker_executes:
  assumes "exec_take t = ExecRunning t" "exec (Binary t) (Stdin t) = Ok out"
  shows "(quiet_step mem exec)\<^sup>*\<^sup>* (idle_worker\<lparr>fetcher := Pushing t, received := [t]\<rparr>) (writing_worker t \<lparr>er_TaskID = TaskID t, er_Result = out\<rparr>)"
proof -
  let ?S = "quiet_step mem exec" and ?r = "\<lparr>er_TaskID = TaskID t, er_Result = out\<rparr> :: ExecResult"
  let ?a = "idle_worker\<lparr>fetcher := Pushing t, received := [t]\<rparr>"
  let ?b = "(set_worker (\<lambda>w. w\<lparr>w_batchTasks := w_batchTasks w @ [t]\<rparr>) ?a)\<lparr>fetcher := Polling\<rparr>"
  let ?c = "(set_worker (\<lambda>w. w\<lparr>w_batchTasks := []\<rparr>) ?b)\<lparr>executors := (executors ?b)[0 := ExecRunning t]\<rparr>"
  let ?d = "?c\<lparr>executors := (executors ?c)[0 := ExecSending ?r]\<rparr>"
  let ?e = "(set_worker (\<lambda>w. w\<lparr>w_batchResults := w_batchResults w @ [?r]\<rparr>) ?d)\<lparr>executors := (executors ?d)[0 := ExecIdle]\<rparr>"
  let ?f = "(set_worker (\<lambda>w. w\<lparr>w_batchResults := []\<rparr>) ?e)\<lparr>writers := (writers ?e)[0 := Writing ?r]\<rparr>"
  have "?S ?a ?b" unfolding quiet_step_def by (intro conjI fetch_push) (simp_all add: worker_eval)
  moreover have "?S ?b ?c" unfolding quiet_step_def by (intro conjI take_run) (simp_all add: worker_eval assms(1))
  moreover have "?S ?c ?d" unfolding quiet_step_def by (intro conjI run_ok [of 0 _ t]) (simp_all add: worker_eval assms(2) exec_finish_def)
  moreover have "?S ?d ?e" unfolding quiet_step_def by (intro conjI result_push) (simp_all add: worker_eval)
  moreover have "?S ?e ?f" unfolding quiet_step_def by (intro conjI write_take) (simp_all add: worker_eval)
  ultimately have "?S\<^sup>*\<^sup>* ?a ?f" by (meson converse_rtranclp_into_rtranclp rtranclp.rtrancl_refl)
  moreover have "?f = writing_worker t ?r" by (simp add: writing_worker_def worker_eval numeral_eq_Suc)
  ultimately show ?thesis by simp
qed

lemma worker_sends: "w_step mem exec (writing_worker t r) (idle_worker\<lparr>received := [t], sent := [r]\<rparr>)"
proof -
  let ?w = "writing_worker t r"
  have "w_step mem exec ?w (?w\<lparr>writers := (writers ?w)[0 := WriteIdle], sent := sent ?w @ [r]\<rparr>)"
    by (rule write_send) (simp_all add: writing_worker_def worker_eval)
  then show ?thesis by (simp add: writing_worker_def worker_eval numeral_eq_Suc)
qed

definition executed_worker :: worker_state where
  "executed_worker = idle_worker\<lparr>received := [batch_task [1]], sent := [\<lparr>er_TaskID = zero_id, er_Result = [7]\<rparr>]\<rparr>"

lemma executed_reach: "reach w_init (w_step 1000 (\<lambda>_ _. Ok [7])) executed_worker"
proof -
  let ?S = "w_step 1000 (\<lambda>_ _. Ok [7])" and ?t = "batch_task [1]" and ?r = "\<lparr>er_TaskID = zero_id, er_Result = [7]\<rparr> :: ExecResult"
  have steps: "reach w_init ?S w \<Longrightarrow> (quiet_step 1000 (\<lambda>_ _. Ok [7]))\<^sup>*\<^sup>* w w' \<Longrightarrow> reach w_init ?S w'" for w w'
    by (erule rtranclp_induct) (auto simp: quiet_step_def intro: reach_step)
  have "?S idle_worker (idle_worker\<lparr>fetcher := Pushing ?t, received := received idle_worker @ [?t]\<rparr>)"
    by (rule fetch_batch [OF _ batch_task_received]) (simp_all add: worker_eval)
  then have "reach w_init ?S (idle_worker\<lparr>fetcher := Pushing ?t, received := [?t]\<rparr>)"
    using reach_idle [of ?S] by (simp add: reach_step worker_eval)
  moreover have "(quiet_step 1000 (\<lambda>_ _. Ok [7]))\<^sup>*\<^sup>* (idle_worker\<lparr>fetcher := Pushing ?t, received := [?t]\<rparr>) (writing_worker ?t ?r)"
    using worker_executes [of ?t "\<lambda>_ _. Ok [7]" "[7]" 1000] by (simp add: exec_take_def batch_task_def zero_Task_def)
  ultimately have "reach w_init ?S (writing_worker ?t ?r)" by (rule steps)
  from reach_step [OF this worker_sends] show ?thesis by (simp add: executed_worker_def)
qed

definition stream_task_message :: Task where
  "stream_task_message = zero_Task\<lparr>Type := TaskTypeStream, Binary := [1]\<rparr>"

lemma stream_received:
  "zero_id \<notin> w_streamTasks w \<Longrightarrow>
   fetch_response 1000 w (Ok (EncodeTask stream_task_message)) = FetchStart stream_task_message"
proof -
  assume w: "zero_id \<notin> w_streamTasks w"
  have "wf_task 1000 stream_task_message"
    by (simp add: wf_task_def wf_header_def wf_section_def stream_task_message_def zero_Task_def TaskTypeStream_def str_def)
  moreover have "TaskTypeStream \<noteq> TaskTypeBatch" by (simp add: TaskTypeStream_def TaskTypeBatch_def str_def)
  ultimately show ?thesis
    using w DecodeTask_EncodeTask [of 1000 stream_task_message "[]"]
    by (simp add: fetch_response_def stream_task_message_def zero_Task_def Duration_Abs_def)
qed

subsection \<open>Properties\<close>

text \<open>
  C34. The worker accounts for every batch task it receives, whatever the interleaving of its goroutines. The received tasks are, with their
  multiplicities, those that wait or run, the dropped, the failed and the finished ones. The dropped tasks are those whose binary was empty, and each
  has ended one executor; the runtime returned an error for every failed task; and the results that wait or were sent are, one for one, the
  identifiers of the finished tasks with what the runtime returned for them. Neither channel exceeds its capacity.
\<close>

theorem worker_accounting:
  assumes "reach w_init (w_step mem exec) st"
  shows "\<exists>finished. mset (received st) = tasks_held st + mset (dropped st) + mset (failures st) + finished \<and>
    (\<forall>t \<in> set (dropped st). Binary t = []) \<and> length (filter (\<lambda>x. x = ExecReturned) (executors st)) = length (dropped st) \<and>
    (\<forall>t \<in> set (failures st). Binary t \<noteq> [] \<and> (\<exists>why. exec (Binary t) (Stdin t) = Err why)) \<and>
    (\<forall>t \<in># finished. Binary t \<noteq> []) \<and>
    image_mset (\<lambda>t. (TaskID t, exec (Binary t) (Stdin t))) finished =
      image_mset (\<lambda>r. (er_TaskID r, Ok (er_Result r))) (results_held st + mset (sent st)) \<and>
    length (w_batchTasks (worker st)) \<le> execWorkerPoolSize \<and> length (w_batchResults (worker st)) \<le> resultWorkerPoolSize"
proof -
  have "pool_ok st" "accounted exec st" using wk.reach_inv [OF assms] by blast+
  then show ?thesis unfolding pool_ok_def accounted_def by (auto simp: list_all_iff)
qed

theorem worker_accounting_witness:
  "(\<exists>finished. {# batch_task [1] #} = finished \<and> sent executed_worker = [\<lparr>er_TaskID = zero_id, er_Result = [7]\<rparr>] \<and>
      image_mset (\<lambda>t. (TaskID t, Ok [7])) finished = {# (zero_id, Ok [7]) #}) \<and>
   dropped (poisoned 2) = [batch_task [], batch_task []] \<and> Binary (batch_task []) = [] \<and>
   length (filter (\<lambda>x. x = ExecReturned) (executors (poisoned 2))) = 2"
proof -
  have "tasks_held executed_worker = {#}" "results_held executed_worker = {#}"
    by (simp_all add: executed_worker_def worker_eval tasks_held_def results_held_def)
  with worker_accounting [OF executed_reach]
  have "\<exists>finished. {# batch_task [1] #} = finished \<and> image_mset (\<lambda>t. (TaskID t, Ok [7])) finished = {# (zero_id, Ok [7]) #}"
    by (auto simp: executed_worker_def worker_eval)
  moreover have "dropped (poisoned 2) = [batch_task [], batch_task []]" by (simp add: poisoned_def numeral_2_eq_2)
  ultimately show ?thesis
    using worker_accounting [OF poisoned_reach [of 2 "\<lambda>_ _. Ok []"]] by (auto simp: executed_worker_def)
qed

text \<open>
  Eight batch tasks with an empty binary stop a worker for ever: each makes the goroutine that takes it return, and once eight were
  taken no later step produces a result; the worker still takes at most nine more tasks from the scheduler, which it
  never executes.
\<close>

theorem empty_binaries_stop_worker:
  assumes "reach w_init (w_step mem exec) st" "length (dropped st) = execWorkerPoolSize" "(w_step mem exec)\<^sup>*\<^sup>* st st'"
  shows "results_held st' + mset (sent st') = results_held st + mset (sent st) \<and> failures st' = failures st \<and>
    length (received st') \<le> length (received st) + 9"
proof -
  have inv: "flow_ok exec st" "pool_ok st" using wk.reach_inv [OF assms(1)] by auto
  have inv': "flow_ok exec st'" "pool_ok st'" using wk.steps_inv [OF assms(3)] wk.reach_inv [OF assms(1)] by auto
  note ret = all_returned_steps [OF assms(3) dropped_all_returned [OF inv(2) assms(2)]]
  have "size (tasks_held st') \<le> 9"
    using ret inv'(2) pushing_length [of "fetcher st'"] by (simp add: tasks_held_def pool_ok_def execWorkerPoolSize_def)
  moreover have "length (received st') = size (tasks_held st') + (length (received st) - size (tasks_held st))"
    using ret by (simp add: received_size [OF inv(1)] received_size [OF inv'(1)])
  ultimately show ?thesis using ret by simp
qed

theorem empty_binaries_stop_worker_witness:
  "results_held (poisoned 8) + mset (sent (poisoned 8)) = {#} \<and> length (received (poisoned 8)) \<le> 8 + 9"
proof -
  have "length (dropped (poisoned 8)) = execWorkerPoolSize" by (simp add: poisoned_def execWorkerPoolSize_def)
  from empty_binaries_stop_worker [OF poisoned_reach [of 8 "\<lambda>_ _. Ok []"] this rtranclp.rtrancl_refl]
  show ?thesis by (simp add: poisoned_def worker_eval results_held_def)
qed

text \<open>
  A worker takes streams only once: from the moment a stream was begun its polls ask for batch tasks only, also
  after the stream has ended, because its entry is never removed.
\<close>

theorem stream_slot_never_freed:
  assumes "reach w_init (w_step mem exec) st" "j \<in> w_streamTasks (worker st)" "(w_step mem exec)\<^sup>*\<^sup>* st st'"
  shows "task_RequestMode (fetch_request (worker st')) = RequestModeNeedBatch"
proof -
  have "j \<in> w_streamTasks (worker st') \<and> finite (w_streamTasks (worker st'))"
    using assms(3)
  proof (induction rule: rtranclp_induct)
    case (step u v)
    from step.hyps(2) step.IH show ?case by cases auto
  qed (use assms(2) in simp)
  then have "card (w_streamTasks (worker st')) > 0" by (auto simp: card_gt_0_iff)
  moreover have "pool_ok st'" using wk.steps_inv [OF assms(3)] wk.reach_inv [OF assms(1)] by blast
  ultimately show ?thesis by (auto simp: fetch_request_def pool_ok_def Let_def)
qed

definition streaming_worker :: worker_state where
  "streaming_worker = (set_worker (\<lambda>w. w\<lparr>w_streamTasks := {zero_id}\<rparr>) idle_worker)\<lparr>streams := [stream_task_message]\<rparr>"

lemma streaming_reach: "reach w_init (w_step 1000 exec) streaming_worker"
proof -
  let ?S = "w_step 1000 exec" and ?t = stream_task_message
  let ?a = "idle_worker\<lparr>starting := starting idle_worker @ [?t]\<rparr>"
  let ?b = "(set_worker (\<lambda>w. w\<lparr>w_streamTasks := insert (JobID ?t) (w_streamTasks w)\<rparr>) ?a)
      \<lparr>starting := [] @ [], streams := streams ?a @ [?t]\<rparr>"
  have "?S idle_worker ?a" by (rule fetch_stream [OF _ stream_received]) (simp_all add: worker_eval)
  moreover have "?S ?a ?b" by (rule stream_begin) (simp add: worker_eval)
  ultimately have "reach w_init ?S ?b" using reach_idle by (meson reach_step)
  moreover have "?b = streaming_worker"
    by (simp add: streaming_worker_def worker_eval stream_task_message_def zero_Task_def)
  ultimately show ?thesis by simp
qed

theorem stream_slot_never_freed_witness:
  "\<exists>st' :: worker_state. streams st' = [] \<and> task_RequestMode (fetch_request (worker st')) = RequestModeNeedBatch"
proof -
  let ?st' = "streaming_worker\<lparr>streams := [] @ []\<rparr>"
  have "w_step 1000 (\<lambda>_ _. Ok []) streaming_worker ?st'" by (rule stream_end) (simp add: streaming_worker_def)
  then have "(w_step 1000 (\<lambda>_ _. Ok []))\<^sup>*\<^sup>* streaming_worker ?st'" by (rule r_into_rtranclp)
  moreover have "zero_id \<in> w_streamTasks (worker streaming_worker)" by (simp add: streaming_worker_def)
  ultimately have "task_RequestMode (fetch_request (worker ?st')) = RequestModeNeedBatch"
    using stream_slot_never_freed [OF streaming_reach] by blast
  then show ?thesis by (intro exI [of _ ?st']) simp
qed

text \<open>
  A worker can run the same stream twice although \<open>maxStreams\<close> is 1: the poller starts the stream in a new goroutine, which only then
  enters it into the map, and may poll again before.
\<close>

theorem stream_started_twice:
  "\<exists>st :: worker_state. reach w_init (w_step 1000 exec) st \<and> maxStreams (worker st) = 1 \<and> streams st = [stream_task_message, stream_task_message]"
proof -
  let ?S = "w_step 1000 exec" and ?t = stream_task_message
  let ?a = "idle_worker\<lparr>starting := starting idle_worker @ [?t]\<rparr>"
  let ?b = "?a\<lparr>starting := starting ?a @ [?t]\<rparr>"
  let ?c = "(set_worker (\<lambda>w. w\<lparr>w_streamTasks := insert (JobID ?t) (w_streamTasks w)\<rparr>) ?b)
      \<lparr>starting := [] @ [?t], streams := streams ?b @ [?t]\<rparr>"
  let ?d = "(set_worker (\<lambda>w. w\<lparr>w_streamTasks := insert (JobID ?t) (w_streamTasks w)\<rparr>) ?c)
      \<lparr>starting := [] @ [], streams := streams ?c @ [?t]\<rparr>"
  have "?S idle_worker ?a" by (rule fetch_stream [OF _ stream_received]) (simp_all add: worker_eval)
  moreover have "?S ?a ?b" by (rule fetch_stream [OF _ stream_received]) (simp_all add: worker_eval)
  moreover have "?S ?b ?c" by (rule stream_begin) (simp add: worker_eval)
  moreover have "?S ?c ?d" by (rule stream_begin) (simp add: worker_eval)
  ultimately have "reach w_init ?S ?d" using reach_idle by (meson reach_step)
  then show ?thesis by (intro exI [of _ ?d]) (simp add: worker_eval)
qed

end
