(* ===== verification/Word_Count.thy ===== *)
theory Word_Count
  imports Job_Registration "HOL-Library.Multiset"
begin

text \<open>
  The sample job that counts words, as the WebAssembly programs of \<open>src/.binaries\<close>: \<open>plan.go\<close> cuts the input into tasks at white
  space, \<open>map.go\<close> counts the words of one task, \<open>reduce.go\<close> adds the counts of all tasks.
  \<^item> The cursor \<open>i\<close> of \<open>splitToTasksBase64\<close> is the rest of the data; \<open>data[start:end]\<close> is a prefix of it. The target size is a natural
    number; \<open>start + targetSize\<close> does not overflow for the only call, with 64.
  \<^item> The tables of package \<open>unicode\<close> are parameters: \<open>ToLower\<close> on strings and \<open>isWord\<close> (a letter or digit) on runes. Decoding of
    runes (\<open>utf8.DecodeRuneInString\<close>, \<open>utf8.DecodeLastRuneInString\<close>) is modelled.
  \<^item> JSON is a parameter: what a program prints is a value of its result type, and \<open>Unmarshal\<close> reads a line.
  \<open>add.go\<close> and \<open>subtract.go\<close> are one-line functions on 32-bit words.
\<close>

subsection \<open>Planning\<close>

definition isSpace :: "byte \<Rightarrow> bool" where
  "isSpace b \<longleftrightarrow> b \<in> {32, 10, 13, 9, 11, 12}"

record PlanTask =
  pt_ID :: int
  pt_Stdin :: bytes

record Plan =
  p_Name :: bytes
  p_Total :: int
  p_Tasks :: "PlanTask list"

function split_loop :: "nat \<Rightarrow> bytes \<Rightarrow> int \<Rightarrow> PlanTask list" where
  "split_loop targetSize data n =
     (let data = dropWhile isSpace data in
      if data = [] then []
      else
        let rest = drop targetSize data;
            chunk = take targetSize data @ takeWhile (\<lambda>b. \<not> isSpace b) rest;
            rest = dropWhile (\<lambda>b. \<not> isSpace b) rest
        in \<lparr>pt_ID = n, pt_Stdin = b64_EncodeToString chunk\<rparr> # split_loop targetSize rest (n + 1))"
  by pat_completeness auto
termination
proof (relation "measure (\<lambda>(targetSize, data, n). length data)")
  fix targetSize :: nat and data :: bytes and n :: int and x xa xb xc
  assume a: "x = dropWhile isSpace data" "x \<noteq> []" "xa = drop targetSize x" "xc = dropWhile (\<lambda>b. \<not> isSpace b) xa"
  have "length xc < length x"
  proof (cases targetSize)
    case 0
    obtain y ys where x: "x = y # ys" using a(2) by (cases x) auto
    then have "\<not> isSpace y" using a(1) by (metis dropWhile_eq_Cons_conv)
    with a(3,4) x 0 show ?thesis by (simp add: length_dropWhile_le less_Suc_eq_le)
  next
    case (Suc k)
    have "length xc \<le> length xa" unfolding a(4) by (rule length_dropWhile_le)
    with a(2,3) Suc show ?thesis by (cases x) auto
  qed
  moreover have "length x \<le> length data" unfolding a(1) by (rule length_dropWhile_le)
  ultimately show "((targetSize, xc, n + 1), targetSize, data, n) \<in> measure (\<lambda>(targetSize, data, n). length data)" by simp
qed simp

declare split_loop.simps [simp del]

definition splitToTasksBase64 :: "bytes \<Rightarrow> int \<Rightarrow> PlanTask list" where
  "splitToTasksBase64 data targetSize =
     (let targetSize = (if targetSize \<le> 0 then 64 else targetSize) in split_loop (nat targetSize) data 0)"

definition plan_run :: "bytes \<Rightarrow> Plan" where
  "plan_run data =
     (let tasks = splitToTasksBase64 data 64 in
      \<lparr>p_Name = str ''count-words'', p_Total = int (length tasks), p_Tasks = tasks\<rparr>)"

subsection \<open>Counting\<close>

abbreviation RuneError :: nat where "RuneError \<equiv> 0xFFFD"

definition is_cont :: "byte \<Rightarrow> bool" where
  "is_cont b \<longleftrightarrow> 0x80 \<le> b \<and> b \<le> 0xBF"

text \<open>The range of the second byte after a given first byte of a sequence of three or four.\<close>

definition second_ok :: "byte \<Rightarrow> byte \<Rightarrow> bool" where
  "second_ok p0 p1 \<longleftrightarrow>
     (if p0 = 0xE0 then 0xA0 else if p0 = 0xF0 then 0x90 else 0x80) \<le> p1 \<and>
     p1 \<le> (if p0 = 0xED then 0x9F else if p0 = 0xF4 then 0x8F else 0xBF)"

definition low :: "byte \<Rightarrow> nat \<Rightarrow> nat" where
  "low b m = unat b mod m"

definition DecodeRuneInString :: "bytes \<Rightarrow> nat \<times> nat" where
  "DecodeRuneInString s =
     (case s of
        [] \<Rightarrow> (RuneError, 0)
      | p0 # s1 \<Rightarrow>
          if p0 < 0x80 then (unat p0, 1)
          else case s1 of
            [] \<Rightarrow> (RuneError, 1)
          | p1 # s2 \<Rightarrow>
              if 0xC2 \<le> p0 \<and> p0 \<le> 0xDF \<and> is_cont p1 then (low p0 32 * 64 + low p1 64, 2)
              else case s2 of
                [] \<Rightarrow> (RuneError, 1)
              | p2 # s3 \<Rightarrow>
                  if 0xE0 \<le> p0 \<and> p0 \<le> 0xEF \<and> second_ok p0 p1 \<and> is_cont p2
                  then (low p0 16 * 4096 + low p1 64 * 64 + low p2 64, 3)
                  else case s3 of
                    [] \<Rightarrow> (RuneError, 1)
                  | p3 # _ \<Rightarrow>
                      if 0xF0 \<le> p0 \<and> p0 \<le> 0xF4 \<and> second_ok p0 p1 \<and> is_cont p2 \<and> is_cont p3
                      then (low p0 8 * 262144 + low p1 64 * 4096 + low p2 64 * 64 + low p3 64, 4)
                      else (RuneError, 1))"

text \<open>The last rune: the decoder goes back at most three bytes to the start of a sequence that must end at the end.\<close>

definition rune_start :: "bytes \<Rightarrow> nat" where
  "rune_start s =
     (case find (\<lambda>k. \<not> is_cont (s ! (length s - k))) (filter (\<lambda>k. k \<le> length s) [2, 3, 4]) of
        Some k \<Rightarrow> length s - k
      | None \<Rightarrow> if length s < 4 then 0 else length s - 5)"

definition DecodeLastRuneInString :: "bytes \<Rightarrow> nat \<times> nat" where
  "DecodeLastRuneInString s =
     (if s = [] then (RuneError, 0)
      else if last s < 0x80 then (unat (last s), 1)
      else
        let start = rune_start s; (r, size) = DecodeRuneInString (drop start s)
        in if start + size \<noteq> length s then (RuneError, 1) else (r, size))"

lemma DecodeRune_size: "s \<noteq> [] \<Longrightarrow> 0 < snd (DecodeRuneInString s)"
  by (auto simp: DecodeRuneInString_def split: list.splits if_splits)

lemma DecodeLastRune_size: "s \<noteq> [] \<Longrightarrow> 0 < snd (DecodeLastRuneInString s)"
proof -
  assume s: "s \<noteq> []"
  obtain r size where d: "DecodeRuneInString (drop (rune_start s) s) = (r, size)" by (cases "DecodeRuneInString (drop (rune_start s) s)")
  have "size \<noteq> 0" if "rune_start s + size = length s"
  proof -
    have "rune_start s < length s" using s by (auto simp: rune_start_def split: option.splits)
    with that show ?thesis by simp
  qed
  with s d show ?thesis by (auto simp: DecodeLastRuneInString_def)
qed

function strip_left :: "(nat \<Rightarrow> bool) \<Rightarrow> bytes \<Rightarrow> bytes option" where
  "strip_left isWord s =
     (if s = [] then Some []
      else
        let (r, size) = DecodeRuneInString s in
        if r = RuneError \<and> size = 1 then None
        else if isWord r then Some s
        else strip_left isWord (drop size s))"
  by pat_completeness auto
termination
proof (relation "measure (\<lambda>(isWord, s). length s)")
  fix isWord :: "nat \<Rightarrow> bool" and s :: bytes and x r size
  assume "s \<noteq> []" "x = DecodeRuneInString s" "(r, size) = x"
  then have "0 < size" "0 < length s" using DecodeRune_size [of s] by (auto, metis snd_conv)
  then show "((isWord, drop size s), (isWord, s)) \<in> measure (\<lambda>(isWord, s). length s)"
    by (simp del: length_greater_0_conv)
qed simp

function strip_right :: "(nat \<Rightarrow> bool) \<Rightarrow> bytes \<Rightarrow> bytes option" where
  "strip_right isWord s =
     (if s = [] then Some []
      else
        let (r, size) = DecodeLastRuneInString s in
        if r = RuneError \<and> size = 1 then None
        else if isWord r then Some s
        else strip_right isWord (take (length s - size) s))"
  by pat_completeness auto
termination
proof (relation "measure (\<lambda>(isWord, s). length s)")
  fix isWord :: "nat \<Rightarrow> bool" and s :: bytes and x r size
  assume "s \<noteq> []" "x = DecodeLastRuneInString s" "(r, size) = x"
  then have "0 < size" "0 < length s" using DecodeLastRune_size [of s] by (auto, metis snd_conv)
  then show "((isWord, take (length s - size) s), (isWord, s)) \<in> measure (\<lambda>(isWord, s). length s)"
    by (simp del: length_greater_0_conv)
qed simp

declare strip_left.simps [simp del] strip_right.simps [simp del]

text \<open>An invalid rune at an edge makes the whole word empty.\<close>

definition stripEdgeJunk :: "(nat \<Rightarrow> bool) \<Rightarrow> bytes \<Rightarrow> bytes" where
  "stripEdgeJunk isWord s =
     (case strip_left isWord s of
        None \<Rightarrow> []
      | Some s \<Rightarrow> (case strip_right isWord s of None \<Rightarrow> [] | Some s \<Rightarrow> s))"

record unicode_tables =
  ToLower :: "bytes \<Rightarrow> bytes"
  isWord :: "nat \<Rightarrow> bool"

definition normalizeWord :: "unicode_tables \<Rightarrow> bytes \<Rightarrow> bytes" where
  "normalizeWord u w = stripEdgeJunk (isWord u) (ToLower u w)"

definition count_word :: "unicode_tables \<Rightarrow> (bytes \<rightharpoonup> 32 word) \<Rightarrow> bytes \<Rightarrow> (bytes \<rightharpoonup> 32 word)" where
  "count_word u m w =
     (let w = normalizeWord u w in
      if w = [] then m else m(w \<mapsto> (case m w of None \<Rightarrow> 0 | Some n \<Rightarrow> n) + 1))"

definition countWords :: "unicode_tables \<Rightarrow> bytes \<Rightarrow> (bytes \<rightharpoonup> 32 word)" where
  "countWords u b = foldl (count_word u) Map.empty (Fields b)"

subsection \<open>Adding up\<close>

definition trimSpaces :: "bytes \<Rightarrow> bytes" where
  "trimSpaces b = rev (dropWhile isSpace (rev (dropWhile isSpace b)))"

definition add_counts :: "(bytes \<rightharpoonup> u64) \<Rightarrow> (bytes \<rightharpoonup> u64) \<Rightarrow> (bytes \<rightharpoonup> u64)" where
  "add_counts tot partial k =
     (case partial k of
        None \<Rightarrow> tot k
      | Some v \<Rightarrow> Some ((case tot k of None \<Rightarrow> 0 | Some n \<Rightarrow> n) + v))"

fun reduce_lines :: "(bytes \<Rightarrow> (bytes \<rightharpoonup> u64) outcome) \<Rightarrow> (bytes \<rightharpoonup> u64) \<Rightarrow> bytes list \<Rightarrow> (bytes \<rightharpoonup> u64) option" where
  "reduce_lines unmarshal tot [] = Some tot"
| "reduce_lines unmarshal tot (line # lines) =
     (if length (trimSpaces line) = 0 then reduce_lines unmarshal tot lines
      else
        case unmarshal line of
          Ok partial \<Rightarrow> reduce_lines unmarshal (add_counts tot partial) lines
        | _ \<Rightarrow> None)"

text \<open>The exit code of the program, or the counts it prints.\<close>

definition reduceTokenSize :: nat where "reduceTokenSize = 4 * 1024 * 1024"

definition reduce_run :: "(bytes \<Rightarrow> (bytes \<rightharpoonup> u64) outcome) \<Rightarrow> bytes \<Rightarrow> int + (bytes \<rightharpoonup> u64)" where
  "reduce_run unmarshal stdin =
     (let (lines, tooLong) = scan_lines reduceTokenSize stdin in
      case reduce_lines unmarshal Map.empty lines of
        None \<Rightarrow> Inl 2
      | Some tot \<Rightarrow> if tooLong then Inl 1 else Inr tot)"

definition add_run :: "32 word \<Rightarrow> 32 word \<Rightarrow> 32 word" where "add_run x y = x + y"
definition subtract_run :: "32 word \<Rightarrow> 32 word \<Rightarrow> 32 word" where "subtract_run x y = x - y"

subsection \<open>The plan\<close>

definition task_chunk :: "PlanTask \<Rightarrow> bytes" where
  "task_chunk t = (case b64_DecodeString (pt_Stdin t) of Ok c \<Rightarrow> c | _ \<Rightarrow> [])"

lemma isSpace_ascii: "isSpace = ascii_space"
  by (simp add: fun_eq_iff isSpace_def ascii_space_def)

lemma Fields_dropWhile: "Fields (dropWhile isSpace s) = Fields s"
  by (induction s) (auto simp: Fields_space isSpace_ascii)

lemma Fields_cut:
  "Fields (c @ dropWhile (\<lambda>b. \<not> isSpace b) r) = Fields c @ Fields (dropWhile (\<lambda>b. \<not> isSpace b) r)"
proof (cases "dropWhile (\<lambda>b. \<not> isSpace b) r")
  case (Cons sp b)
  then have "ascii_space sp" by (metis dropWhile_eq_Cons_conv isSpace_ascii)
  then show ?thesis unfolding Cons by (simp add: Fields_append Fields_space)
next
  case Nil
  then show ?thesis unfolding Nil by simp
qed

lemma split_loop_words: "concat (map (\<lambda>t. Fields (task_chunk t)) (split_loop k data n)) = Fields data"
proof (induction k data n rule: split_loop.induct)
  case (1 k data n)
  define d where "d = dropWhile isSpace data"
  show ?case
  proof (cases "d = []")
    case True
    then show ?thesis
      using Fields_dropWhile [of data] unfolding d_def [symmetric]
      by (subst split_loop.simps) (simp flip: d_def)
  next
    case False
    define rest where "rest = dropWhile (\<lambda>b. \<not> isSpace b) (drop k d)"
    define chunk where "chunk = take k d @ takeWhile (\<lambda>b. \<not> isSpace b) (drop k d)"
    have "d = chunk @ rest" by (simp add: chunk_def rest_def)
    then have "Fields data = Fields chunk @ Fields rest"
      using Fields_dropWhile [of data] Fields_cut [of chunk "drop k d"] by (simp add: d_def rest_def)
    moreover have "concat (map (\<lambda>t. Fields (task_chunk t)) (split_loop k rest (n + 1))) = Fields rest"
      using "1" [OF d_def False refl _ rest_def] by simp
    moreover have "split_loop k data n = \<lparr>pt_ID = n, pt_Stdin = b64_EncodeToString chunk\<rparr> # split_loop k rest (n + 1)"
      using False by (subst split_loop.simps) (simp add: Let_def chunk_def rest_def flip: d_def)
    ultimately show ?thesis by (simp add: task_chunk_def b64_DecodeString_Encode)
  qed
qed

lemma split_loop_shape:
  "map pt_ID (split_loop k data n) = map (\<lambda>i. n + int i) [0..<length (split_loop k data n)] \<and>
   list_all (\<lambda>t. \<exists>c. b64_DecodeString (pt_Stdin t) = Ok c \<and> c \<noteq> [] \<and> \<not> isSpace (hd c)) (split_loop k data n)"
proof (induction k data n rule: split_loop.induct)
  case (1 k data n)
  define d where "d = dropWhile isSpace data"
  show ?case
  proof (cases "d = []")
    case True
    then have "split_loop k data n = []" by (subst split_loop.simps) (simp flip: d_def)
    then show ?thesis by simp
  next
    case False
    define rest where "rest = dropWhile (\<lambda>b. \<not> isSpace b) (drop k d)"
    define chunk where "chunk = take k d @ takeWhile (\<lambda>b. \<not> isSpace b) (drop k d)"
    have hd: "\<not> isSpace (hd d)" using False hd_dropWhile [of isSpace data] by (auto simp: d_def)
    obtain y ys where y: "d = y # ys" using False by (cases d) auto
    have "chunk \<noteq> [] \<and> hd chunk = hd d" using hd y by (cases k) (auto simp: chunk_def)
    moreover have loop: "split_loop k data n = \<lparr>pt_ID = n, pt_Stdin = b64_EncodeToString chunk\<rparr> # split_loop k rest (n + 1)"
      using False by (subst split_loop.simps) (simp add: Let_def chunk_def rest_def flip: d_def)
    moreover note "1" [OF d_def False refl _ rest_def]
    moreover have "map (\<lambda>i. n + int i) [0..<Suc m] = n # map (\<lambda>i. n + 1 + int i) [0..<m]" for m
      by (subst upt_conv_Cons) (simp_all add: map_Suc_upt [symmetric] del: upt_Suc)
    ultimately show ?thesis using hd by (simp add: b64_DecodeString_Encode del: upt_Suc)
  qed
qed

subsection \<open>Counts\<close>

definition words :: "unicode_tables \<Rightarrow> bytes \<Rightarrow> bytes list" where
  "words u b = filter (\<lambda>w. w \<noteq> []) (map (normalizeWord u) (Fields b))"

lemma count_list_append_single: "count_list (xs @ [x]) y = count_list xs y + (if x = y then 1 else 0)"
  by (induction xs) auto

lemma countWords_count:
  "countWords u b w = (let n = count_list (words u b) w in if n = 0 then None else Some (of_nat n))"
proof -
  have "foldl (count_word u) Map.empty fs w =
      (let n = count_list (filter (\<lambda>w. w \<noteq> []) (map (normalizeWord u) fs)) w in if n = 0 then None else Some (of_nat n))" for fs
  proof (induction fs arbitrary: w rule: rev_induct)
    case (snoc f fs)
    then show ?case by (auto simp: count_word_def Let_def count_list_append_single split: option.splits)
  qed simp
  then show ?thesis by (simp add: countWords_def words_def)
qed

lemma length_fields_from: "length (fields_from s acc) \<le> length s + (if acc = [] then 0 else 1)"
proof (induction s acc rule: fields_from.induct)
  case (2 c s acc)
  show ?case
  proof (cases "find (starts_with (c # s)) space_runes")
    case None
    with "2.IH"(1) show ?thesis by (simp add: fields_from.simps(2))
  next
    case (Some r)
    then have "r \<noteq> []" by (auto simp: find_Some_iff starts_with_def)
    then have "length (drop (length r) (c # s)) \<le> length s" by (cases r) simp_all
    moreover have "fields_from (c # s) acc = flush acc @ fields_from (drop (length r) (c # s)) []"
      by (subst fields_from.simps(2)) (simp only: Some option.case)
    moreover have "length (fields_from (drop (length r) (c # s)) []) \<le> length (drop (length r) (c # s))"
      using "2.IH"(2) [OF Some] by simp
    ultimately show ?thesis by simp
  qed
qed simp

lemma count_words_le: "count_list (words u b) w \<le> length b"
proof -
  have "count_list (words u b) w \<le> length (words u b)" by (rule count_le_length)
  also have "\<dots> \<le> length (Fields b)" by (simp add: words_def le_trans [OF length_filter_le])
  also have "\<dots> \<le> length b" using length_fields_from [of b "[]"] by (simp add: Fields_def)
  finally show ?thesis .
qed

abbreviation cval :: "(bytes \<rightharpoonup> u64) \<Rightarrow> bytes \<Rightarrow> u64" where
  "cval m w \<equiv> (case m w of None \<Rightarrow> 0 | Some v \<Rightarrow> v)"

lemma add_counts_all:
  "foldl add_counts tot ps w =
     (if tot w = None \<and> (\<forall>p \<in> set ps. p w = None) then None else Some (cval tot w + sum_list (map (\<lambda>p. cval p w) ps)))"
proof (induction ps arbitrary: tot)
  case Nil
  show ?case by (cases "tot w") simp_all
next
  case (Cons p ps)
  show ?case
  proof (cases "p w")
    case None
    with Cons show ?thesis by (simp add: add_counts_def)
  next
    case (Some v)
    then have "add_counts tot p w = Some (cval tot w + v)" by (simp add: add_counts_def)
    with Cons Some show ?thesis by (simp add: add.assoc)
  qed
qed

lemma reduce_lines_all:
  "list_all (\<lambda>l. trimSpaces l \<noteq> [] \<and> unmarshal l = Ok (g l)) ls \<Longrightarrow>
   reduce_lines unmarshal tot ls = Some (foldl add_counts tot (map g ls))"
  by (induction ls arbitrary: tot) auto

subsection \<open>The reducer's input\<close>

text \<open>What is relied on of \<open>encoding/json\<close>: an object is printed in braces on one line, and reading it gives the counts back.\<close>

definition json_ok :: "((bytes \<rightharpoonup> 32 word) \<Rightarrow> bytes) \<Rightarrow> (bytes \<Rightarrow> (bytes \<rightharpoonup> u64) outcome) \<Rightarrow> (bytes \<rightharpoonup> 32 word) \<Rightarrow> bool" where
  "json_ok marshal unmarshal m \<longleftrightarrow>
     unmarshal (marshal m) = Ok (\<lambda>k. map_option ucast (m k)) \<and>
     (\<exists>body. marshal m = 123 # body @ [125] \<and> 10 \<notin> set body \<and> 13 \<notin> set body \<and> length body + 2 < reduceTokenSize)"

lemma json_line:
  assumes "json_ok marshal unmarshal m"
  shows "TrimSpace (marshal m @ [10]) = marshal m" "marshal m \<noteq> []" "plain_line reduceTokenSize (marshal m)"
    "trimSpaces (marshal m) \<noteq> []"
proof -
  obtain body where b: "marshal m = 123 # body @ [125]" "10 \<notin> set body" "13 \<notin> set body" "length body + 2 < reduceTokenSize"
    using assms by (auto simp: json_ok_def)
  have "\<forall>r \<in> set space_runes. 123 \<notin> set r \<and> 125 \<notin> set r" by (simp add: space_runes_def)
  then have "trimmed (marshal m)"
    by (intro trimmed_guard [of "[]" "[]" 123 125 _ "body @ [125]" "123 # body"]) (simp_all add: b(1))
  then show "TrimSpace (marshal m @ [10]) = marshal m" by (rule TrimSpace_newline) (simp add: b(1))
  show "marshal m \<noteq> []" "plain_line reduceTokenSize (marshal m)" using b by (simp_all add: plain_line_def)
  show "trimSpaces (marshal m) \<noteq> []" by (simp add: trimSpaces_def b(1) isSpace_def)
qed

definition result_files :: "(bytes \<times> bytes) list \<Rightarrow> bytes list" where
  "result_files files =
     map snd (filter (\<lambda>(name, _). name \<noteq> str ''plan.json'' \<and> \<not> ends_with name (str ''.wasm'')) files)"

lemma ndjson_lines:
  "list_all (\<lambda>b. TrimSpace b \<noteq> []) (result_files files) \<Longrightarrow> ndjson files = as_text (map TrimSpace (result_files files))"
  by (induction files) (auto simp: ndjson_def as_text_def result_files_def Let_def)

lemma cval_counts:
  assumes "length b < 2 ^ 32"
  shows "cval (\<lambda>k. map_option ucast (countWords u b k)) w = of_nat (count_list (words u b) w)"
proof -
  let ?n = "count_list (words u b) w"
  have "?n < 2 ^ 32" using count_words_le [of u b w] assms by linarith
  then have "(ucast (of_nat ?n :: 32 word) :: u64) = of_nat ?n"
    by (simp add: unsigned_of_nat take_bit_nat_eq_self)
  then show ?thesis by (simp add: countWords_count Let_def)
qed

lemma count_list_concat: "count_list (concat xss) x = sum_list (map (\<lambda>xs. count_list xs x) xss)"
  by (induction xss) simp_all

lemma words_concat: "concat (map (words u) bs) = filter (\<lambda>w. w \<noteq> []) (map (normalizeWord u) (concat (map Fields bs)))"
  by (induction bs) (simp_all add: words_def)

lemma sum_counts: "sum_list (map (\<lambda>x. of_nat (f x)) xs) = (of_nat (sum_list (map f xs)) :: u64)"
  by (induction xs) simp_all

lemma length_task_chunk: "t \<in> set (split_loop k data n) \<Longrightarrow> length (task_chunk t) \<le> length data"
proof (induction k data n rule: split_loop.induct)
  case (1 k data n)
  define d where "d = dropWhile isSpace data"
  define rest where "rest = dropWhile (\<lambda>b. \<not> isSpace b) (drop k d)"
  define chunk where "chunk = take k d @ takeWhile (\<lambda>b. \<not> isSpace b) (drop k d)"
  have "d \<noteq> []" using "1.prems" by (subst (asm) split_loop.simps) (auto simp: Let_def simp flip: d_def split: if_splits)
  moreover have "split_loop k data n = \<lparr>pt_ID = n, pt_Stdin = b64_EncodeToString chunk\<rparr> # split_loop k rest (n + 1)"
    using \<open>d \<noteq> []\<close> by (subst split_loop.simps) (simp add: Let_def chunk_def rest_def flip: d_def)
  moreover have len: "length chunk + length rest \<le> length data"
  proof -
    have "chunk @ rest = d" by (simp add: chunk_def rest_def)
    then have "length chunk + length rest = length d" by (metis length_append)
    then show ?thesis using length_dropWhile_le [of isSpace data] by (simp add: d_def)
  qed
  ultimately show ?case
    using "1.IH" [OF d_def \<open>d \<noteq> []\<close> refl _ rest_def] "1.prems" by (auto simp: task_chunk_def b64_DecodeString_Encode)
qed

subsection \<open>Properties\<close>

text \<open>
  C36. The planner keeps all words: its tasks are numbered from 0, each carries a non-empty piece of the input that starts with no
  space, and the words of the pieces, in order, are the words of the input.
\<close>

theorem plan_keeps_words:
  "map pt_ID (splitToTasksBase64 data k) = map int [0..<length (splitToTasksBase64 data k)] \<and>
   list_all (\<lambda>t. \<exists>c. b64_DecodeString (pt_Stdin t) = Ok c \<and> c \<noteq> [] \<and> \<not> isSpace (hd c)) (splitToTasksBase64 data k) \<and>
   concat (map (\<lambda>t. Fields (task_chunk t)) (splitToTasksBase64 data k)) = Fields data"
  using split_loop_shape [of "nat (if k \<le> 0 then 64 else k)" data 0] split_loop_words [of "nat (if k \<le> 0 then 64 else k)" data 0]
  by (simp add: splitToTasksBase64_def Let_def)

text \<open>
  The reducer's output, for the input the scheduler makes of the mapper's results for some chunks, in whatever order, is the number of
  occurrences of each normalized word in the chunks.
\<close>

lemma add_counts_total:
  assumes "mset ls = mset (map (\<lambda>c. marshal (countWords u c)) cs)"
    and "\<And>c. c \<in> set cs \<Longrightarrow> g (marshal (countWords u c)) = (\<lambda>k. map_option ucast (countWords u c k))"
    and "\<forall>c \<in> set cs. length c < 2 ^ 32"
  shows "foldl add_counts Map.empty (map g ls) w =
    (let n = count_list (concat (map (words u) cs)) w in if n = 0 then None else Some (of_nat n))"
proof -
  have total: "sum_list (map (\<lambda>c. count_list (words u c) w) cs) = count_list (concat (map (words u) cs)) w"
    by (simp add: count_list_concat comp_def)
  have "sum_list (map (\<lambda>l. cval (g l) w) ls) = sum_mset (image_mset (\<lambda>l. cval (g l) w) (mset ls))" by (simp flip: sum_mset_sum_list)
  also have "\<dots> = sum_list (map (\<lambda>c. cval (g (marshal (countWords u c))) w) cs)"
    unfolding assms(1) by (simp add: image_mset.compositionality comp_def flip: sum_mset_sum_list)
  also have "map (\<lambda>c. cval (g (marshal (countWords u c))) w) cs = map (\<lambda>c. of_nat (count_list (words u c) w)) cs"
  proof (rule map_cong)
    fix c assume "c \<in> set cs"
    then show "cval (g (marshal (countWords u c))) w = of_nat (count_list (words u c) w)"
      unfolding assms(2) [OF \<open>c \<in> set cs\<close>] by (intro cval_counts) (use assms(3) in blast)
  qed simp
  finally have sum: "sum_list (map (\<lambda>l. cval (g l) w) ls) = of_nat (count_list (concat (map (words u) cs)) w)"
    by (simp add: sum_counts total)
  have set: "set ls = (\<lambda>c. marshal (countWords u c)) ` set cs" using assms(1) by (metis image_set mset_eq_setD)
  have "(\<forall>l \<in> set ls. g l w = None) \<longleftrightarrow> (\<forall>c \<in> set cs. count_list (words u c) w = 0)"
    using assms(2) by (simp add: set countWords_count Let_def)
  also have "\<dots> \<longleftrightarrow> count_list (concat (map (words u) cs)) w = 0" unfolding total [symmetric] by (auto simp: sum_list_eq_0_iff)
  finally show ?thesis using sum by (simp add: add_counts_all comp_def Let_def)
qed

lemma reduce_counts:
  assumes "mset (result_files files) = mset (map (\<lambda>c. marshal (countWords u c) @ [10]) cs)"
    and "\<forall>c \<in> set cs. json_ok marshal unmarshal (countWords u c) \<and> length c < 2 ^ 32"
  shows "reduce_run unmarshal (ndjson files) =
    Inr (\<lambda>w. let n = count_list (concat (map (words u) cs)) w in if n = 0 then None else Some (of_nat n))"
proof -
  let ?m = "\<lambda>c. marshal (countWords u c)"
  have ok: "json_ok marshal unmarshal (countWords u c)" if "c \<in> set cs" for c using assms(2) that by blast
  define ls where "ls = map TrimSpace (result_files files)"
  have "mset ls = image_mset TrimSpace (mset (result_files files))" by (simp add: ls_def)
  also have "\<dots> = mset (map (\<lambda>c. TrimSpace (?m c @ [10])) cs)" unfolding assms(1) by (simp add: image_mset.compositionality comp_def)
  also have "map (\<lambda>c. TrimSpace (?m c @ [10])) cs = map ?m cs" using json_line(1) [OF ok] by simp
  finally have ls: "mset ls = mset (map ?m cs)" .
  then have set: "set ls = ?m ` set cs" by (metis image_set mset_eq_setD)
  have line: "l \<noteq> []" "plain_line reduceTokenSize l" "trimSpaces l \<noteq> []" if l: "l \<in> set ls" for l
  proof -
    obtain c where c: "c \<in> set cs" "l = ?m c" using l unfolding set by blast
    show "l \<noteq> []" "plain_line reduceTokenSize l" "trimSpaces l \<noteq> []" unfolding c(2) using json_line(2-4) [OF ok [OF c(1)]] by simp_all
  qed
  then have "list_all (\<lambda>b. TrimSpace b \<noteq> []) (result_files files)" by (auto simp: ls_def list_all_iff)
  then have "ndjson files = as_text ls" by (simp add: ndjson_lines ls_def)
  moreover have "list_all (plain_line reduceTokenSize) ls" using line(2) by (simp add: list_all_iff)
  ultimately have scan: "scan_lines reduceTokenSize (ndjson files) = (ls, False)" by (simp add: scan_lines_as_text)
  define g where "g l = (case unmarshal l of Ok p \<Rightarrow> p | _ \<Rightarrow> Map.empty)" for l
  have g: "g (?m c) = (\<lambda>k. map_option ucast (countWords u c k))" "unmarshal (?m c) = Ok (g (?m c))" if "c \<in> set cs" for c
    using ok [OF that] by (simp_all add: g_def json_ok_def)
  have "list_all (\<lambda>l. trimSpaces l \<noteq> [] \<and> unmarshal l = Ok (g l)) ls"
    using line(3) g(2) set by (auto simp: list_all_iff)
  then have "reduce_run unmarshal (ndjson files) = Inr (foldl add_counts Map.empty (map g ls))"
    by (simp add: reduce_run_def scan reduce_lines_all)
  with add_counts_total [OF ls g(1)] assms(2) show ?thesis by (simp add: fun_eq_iff)
qed

text \<open>The chunks of the planner have the words of its input.\<close>

lemma plan_run_words: "concat (map (\<lambda>t. words u (task_chunk t)) (p_Tasks (plan_run data))) = words u data"
  using split_loop_words [of 64 data 0] words_concat [of u "map task_chunk (p_Tasks (plan_run data))"]
  by (simp add: plan_run_def splitToTasksBase64_def Let_def words_def comp_def)

definition ascii_tables :: unicode_tables where
  "ascii_tables =
     \<lparr>ToLower = map (\<lambda>b. if 65 \<le> b \<and> b \<le> 90 then b + 32 else b), isWord = (\<lambda>r. 97 \<le> r \<and> r \<le> 122 \<or> 48 \<le> r \<and> r \<le> 57)\<rparr>"

definition sample_files :: "(bytes \<times> bytes) list" where
  "sample_files =
     [(str ''task0'', str ''{go:2}'' @ [10]), (str ''map.wasm'', str ''code''), (str ''plan.json'', str ''{}'')]"

lemma sample_plan: "p_Tasks (plan_run (str ''Go, go'')) = [\<lparr>pt_ID = 0, pt_Stdin = b64_EncodeToString (str ''Go, go'')\<rparr>]"
  by code_simp

lemma sample_words: "words ascii_tables (str ''Go, go'') = [str ''go'', str ''go'']"
proof -
  have "Fields (str ''Go, go'') = [str ''Go,'', str ''go'']"
    by (simp add: Fields_def str_def fields_from.simps space_runes_def starts_with_def)
  moreover have "normalizeWord ascii_tables (str ''Go,'') = str ''go''" "normalizeWord ascii_tables (str ''go'') = str ''go''"
    by (simp_all add: normalizeWord_def ascii_tables_def str_def stripEdgeJunk_def strip_left.simps strip_right.simps
        DecodeRuneInString_def DecodeLastRuneInString_def)
  ultimately show ?thesis by (simp add: words_def) (simp add: str_def)
qed

lemma sample_counts:
  "mset (result_files sample_files) =
     mset (map (\<lambda>t. str ''{go:2}'' @ [10]) (p_Tasks (plan_run (str ''Go, go''))))"
  "\<forall>t \<in> set (p_Tasks (plan_run (str ''Go, go''))).
     json_ok (\<lambda>_. str ''{go:2}'') (\<lambda>_. Ok [str ''go'' \<mapsto> 2]) (countWords ascii_tables (task_chunk t))"
  "length (str ''Go, go'') < 2 ^ 32"
proof -
  have "result_files sample_files = [str ''{go:2}'' @ [10]]" by code_simp
  then show "mset (result_files sample_files) = mset (map (\<lambda>t. str ''{go:2}'' @ [10]) (p_Tasks (plan_run (str ''Go, go''))))"
    by (simp add: sample_plan)
  have c: "task_chunk \<lparr>pt_ID = 0, pt_Stdin = b64_EncodeToString (str ''Go, go'')\<rparr> = str ''Go, go''"
    by (simp add: task_chunk_def b64_DecodeString_Encode)
  have "json_ok (\<lambda>_. str ''{go:2}'') (\<lambda>_. Ok [str ''go'' \<mapsto> 2]) (countWords ascii_tables (str ''Go, go''))"
    by (auto simp: json_ok_def countWords_count sample_words Let_def reduceTokenSize_def fun_eq_iff) (simp_all add: str_def)
  with c show "\<forall>t \<in> set (p_Tasks (plan_run (str ''Go, go''))).
      json_ok (\<lambda>_. str ''{go:2}'') (\<lambda>_. Ok [str ''go'' \<mapsto> 2]) (countWords ascii_tables (task_chunk t))"
    by (simp add: sample_plan)
  show "length (str ''Go, go'') < 2 ^ 32" by (simp add: str_def)
qed

end
