(* ===== verification/Task_Lifecycle.thy ===== *)
theory Task_Lifecycle
  imports Scheduler_Properties Job_Files Worker Quic_Network Word_Count
begin

text \<open>
  The components together: a worker asks for a task, executes it and reports the result, over the task streams of the network, the
  message handler and the event loop of the scheduler (\<open>fetchTasks\<close>, \<open>execTask\<close>, \<open>writeTaskResult\<close> of \<open>worker.go\<close>, \<open>RequestTask\<close>, \<open>SendTask\<close> and the
  stream server of \<open>quic_network.go\<close>, \<open>HandleMessage\<close> of \<open>task.go\<close>, \<open>handleEvent\<close> of \<open>scheduler.go\<close>). \<open>answer_message\<close> is the message
  handler with an event loop that is idle when the message arrives; \<open>call_scheduler\<close> is a call of the worker over a stream that does not fail.
  The last part runs the sample programs: \<open>wasm_map\<close> and \<open>wasm_reduce\<close> are \<open>map.go\<close> and \<open>reduce.go\<close> as the engine sees them; reading the standard
  input, a byte slice, and encoding a map of counts do not fail.
\<close>

fun handle_all :: "sched_env \<Rightarrow> Event list \<Rightarrow> Scheduler \<Rightarrow> Scheduler progress" where
  "handle_all e [] s = Runs s"
| "handle_all e (ev # evs) s =
     (case handleEvent e s ev of Runs (s, _) \<Rightarrow> handle_all e evs s | Blocks \<Rightarrow> Blocks | Crashes \<Rightarrow> Crashes)"

definition answer_message :: "nat \<Rightarrow> sched_env \<Rightarrow> nat \<Rightarrow> bytes \<Rightarrow> Scheduler \<Rightarrow> bytes outcome \<times> Scheduler" where
  "answer_message mem e ch message s =
     (case handle_all e (snd (HandleMessage mem ch None message)) s of
        Runs s' \<Rightarrow> (fst (HandleMessage mem ch (map_of (responses s') ch) message), s')
      | _ \<Rightarrow> (Panic, s))"

definition sound_stream :: "bytes \<Rightarrow> quic_stream" where
  "sound_stream reply =
     \<lparr>dial_err = None, open_err = None, write_length_err = None, write_data_err = None, peer_reply = \<lambda>_. reply\<rparr>"

definition call_scheduler :: "nat \<Rightarrow> sched_env \<Rightarrow> nat \<Rightarrow> bytes \<Rightarrow> Scheduler \<Rightarrow> bytes outcome \<times> Scheduler" where
  "call_scheduler mem e ch data s =
     (case serve_stream mem (answer_message mem e ch) s (write_frame data) of
        Ok (reply, s') \<Rightarrow> (RequestTask mem None (sound_stream reply) data, s')
      | _ \<Rightarrow> (Err ''connection lost'', s))"

definition frame_ok :: "nat \<Rightarrow> bytes \<Rightarrow> bool" where
  "frame_ok mem b \<longleftrightarrow> length b \<le> mem \<and> length b < 2 ^ 64"

lemma call_scheduler_Ok:
  assumes "frame_ok mem data" "answer_message mem e ch data s = (Ok response, s')" "frame_ok mem response"
  shows "call_scheduler mem e ch data s = (Ok response, s')"
proof -
  have "serve_stream mem (answer_message mem e ch) s (write_frame data) = Ok (write_frame response, s')"
    using serve_stream_frame [of data mem "answer_message mem e ch" s "[]"] assms(1,2) by (simp add: frame_ok_def)
  moreover have "RequestTask mem None (sound_stream (write_frame response)) data = Ok response"
    using assms(3) frame.dec_enc [of response mem _ _ "[]"]
    by (simp add: RequestTask_frames sound_stream_def frame_ok_def)
  ultimately show ?thesis by (simp add: call_scheduler_def)
qed

lemma answer_lease:
  assumes "wf_task mem req" "task_OpCode req = LeaseRequest" "TTL req = 0" "\<not> ctx_done e 0"
    and "handle_lease e s \<lparr>responseChan = ch, lr_request = req\<rparr> = (s', err)"
    and "responses s' = responses s @ [(ch, \<lparr>payload = p, lr_err = None\<rparr>)]" "ch \<notin> fst ` set (responses s)"
  shows "answer_message mem e ch (EncodeTask req) s = (Ok p, s')"
proof -
  have "DecodeTask mem (EncodeTask req) = Ok req"
    using DecodeTask_EncodeTask [OF assms(1), of "[]"] assms(3) by (simp add: Duration_Abs_def)
  moreover have "map_of (responses s') ch = Some \<lparr>payload = p, lr_err = None\<rparr>"
    using assms(6,7) by (simp add: map_of_eq_None_iff map_add_Some_iff)
  ultimately show ?thesis
    using assms(2,4,5)
    by (simp add: answer_message_def HandleMessage_def HandleTaskLeaseRequest_def handleEvent_def ExecutionResponse_def LeaseRequest_def)
qed

lemma answer_result:
  assumes "wf_task mem (zero_Task\<lparr>task_OpCode := ExecutionResponse, TaskID := i, Result := out\<rparr>)"
    and "\<not> ctx_done e 0" "markTaskDone e s i out = Runs (s', err)"
  shows "answer_message mem e ch (result_message \<lparr>er_TaskID = i, er_Result = out\<rparr>) s = (Ok [], s')"
proof -
  let ?r = "zero_Task\<lparr>task_OpCode := ExecutionResponse, TaskID := i, Result := out\<rparr>"
  have "DecodeTask mem (EncodeTask ?r) = Ok ?r"
    using DecodeTask_EncodeTask [OF assms(1), of "[]"] by (simp add: Duration_Abs_def zero_Task_def)
  then show ?thesis
    using assms(2,3) by (simp add: answer_message_def HandleMessage_def handleEvent_def result_message_def)
qed

text \<open>What the end of a running task leaves behind.\<close>

lemma markTaskDone_running:
  assumes "Tasks s i = Some t" "td_State t = StateRunning" "Jobs s (td_JobID t) = Some job" "jd_ID job = td_JobID t"
    and "write_err e (td_JobID t) (chunk_file (ChunkID t)) = None" "\<forall>x. planner e (MergerBinary job) x \<noteq> Panic"
  obtains s' where "markTaskDone e s i out = Runs (s', None)"
    "Tasks s' i = Some (t\<lparr>td_State := StateDone, Queued := False, BackoffUntil := 0, LeaseUntil := 0, DoneAt := now e\<rparr>)"
    "Jobs s' (td_JobID t) = Some (job\<lparr>TasksDone := TasksDone job + 1\<rparr>)"
    "map_of (job_dir s' (td_JobID t)) (chunk_file (ChunkID t)) = Some out"
proof -
  have "\<exists>s'. markTaskDone e s i out = Runs (s', None)"
    using assms
    by (auto simp: markTaskDone_def markJobDone_def Let_def add_stat_def split: option.splits outcome.splits)
  then obtain s' where s': "markTaskDone e s i out = Runs (s', None)" by blast
  have new: "s' \<noteq> s" using s' assms
    by (auto simp: markTaskDone_def markJobDone_def Let_def add_stat_def split: option.splits outcome.splits if_splits
        dest: arg_cong [where f = stats])
  show thesis
  proof (rule markTaskDone_cases [OF s'])
    assume "s' = s"
    with new show thesis by simp
  next
    fix t1 t' job1 st d
    assume a: "Tasks s i = Some t1" "Jobs s (td_JobID t1) = Some job1"
      "t' = t1\<lparr>td_State := StateDone, Queued := False, BackoffUntil := 0, LeaseUntil := 0, DoneAt := now e\<rparr>"
      "s' = s\<lparr>Tasks := (Tasks s)(i \<mapsto> t'), Jobs := (Jobs s)(td_JobID t1 \<mapsto> job1\<lparr>TasksDone := TasksDone job1 + 1\<rparr>),
         stats := st, job_dir := d\<rparr>"
      "d = with_result t1 out (job_dir s) \<or>
       (\<exists>j res. d = (with_result t1 out (job_dir s))(j := write_file (str ''output.json'') res (with_result t1 out (job_dir s) j)))"
    have eq: "t1 = t" "job1 = job" using a assms by auto
    have "map_of (d (td_JobID t)) (chunk_file (ChunkID t)) = Some out"
      using a(5) chunk_file_names(1) [of "ChunkID t"]
      by (auto simp: with_result_def map_of_write_file eq output_file_def)
    with a eq show thesis by (intro that [OF s']) simp_all
  qed
qed

text \<open>
  C5. The life of a task, end to end: a worker that polls while the task is first in the queue receives it with the job's binary and the
  task's input, executes it, and reports the result; after that the task is done, its job counts one more finished task,
  and the result file of its chunk contains exactly what the execution wrote.
\<close>

theorem task_life_cycle:
  assumes "reach sched_init sched_step s" "batchTasks s = i # rest" "Tasks s i = Some t" "Jobs s (td_JobID t) = Some job"
    and "td_Type t = TaskTypeBatch" "jd_Binary job \<noteq> []" "exec (jd_Binary job) (td_Stdin t) = Ok out"
    and "\<not> ctx_done e 0" "ch \<notin> fst ` set (responses s)"
    and "\<not> ctx_done e' 0" "write_err e' (td_JobID t) (chunk_file (ChunkID t)) = None" "\<forall>x. planner e' (MergerBinary job) x \<noteq> Panic"
    and "wf_task mem (fetch_request w)" "wf_task mem (response_task t job)" "fits out"
    and "frame_ok mem (EncodeTask (fetch_request w))" "frame_ok mem (EncodeTask (response_task t job))"
      "frame_ok mem (result_message \<lparr>er_TaskID = i, er_Result = out\<rparr>)"
  shows "\<exists>response s1 task result s2.
    call_scheduler mem e ch (EncodeTask (fetch_request w)) s = (Ok response, s1) \<and>
    fetch_response mem w (Ok response) = FetchPush task \<and> exec_take task = ExecRunning task \<and>
    exec_finish task (exec (Binary task) (Stdin task)) = Some (ExecSending result) \<and>
    call_scheduler mem e' ch' (result_message result) s1 = (Ok [], s2) \<and>
    (\<exists>t2. Tasks s2 i = Some t2 \<and> td_State t2 = StateDone) \<and>
    Jobs s2 (td_JobID t) = Some (job\<lparr>TasksDone := TasksDone job + 1\<rparr>) \<and>
    map_of (job_dir s2 (td_JobID t)) (chunk_file (ChunkID t)) = Some out"
proof -
  have inv: "sched_inv s" by (rule sched.reach_inv [OF assms(1)])
  then have ids: "td_ID t = i" "jd_ID job = td_JobID t" using assms(3,4) by (simp_all add: sched_inv_def tasks_ok_def)
  let ?req = "\<lparr>responseChan = ch, lr_request = fetch_request w\<rparr>" and ?task = "response_task t job"
  obtain st where lease: "handle_lease e s ?req = (s\<lparr>batchTasks := rest, Tasks := (Tasks s)(i \<mapsto> dispatched e t), stats := st,
      responses := responses s @ [(ch, \<lparr>payload = EncodeTask ?task, lr_err = None\<rparr>)]\<rparr>, None)" (is "_ = (?s1, None)")
    using handle_lease_queue [OF inv assms(2-4), of e ?req] by auto
  have poll: "call_scheduler mem e ch (EncodeTask (fetch_request w)) s = (Ok (EncodeTask ?task), ?s1)"
    by (rule call_scheduler_Ok [OF assms(16) answer_lease [OF assms(13) _ _ assms(8) lease] assms(17)])
      (use assms(9) in \<open>simp_all add: fetch_request_def zero_Task_def Let_def\<close>)
  have push: "fetch_response mem w (Ok (EncodeTask ?task)) = FetchPush ?task"
    using DecodeTask_response [OF assms(14)] assms(5) by (simp add: fetch_response_def response_task_def)
  let ?r = "\<lparr>er_TaskID = i, er_Result = out\<rparr>"
  have run: "exec_take ?task = ExecRunning ?task" "exec_finish ?task (exec (Binary ?task) (Stdin ?task)) = Some (ExecSending ?r)"
    using assms(6,7) ids(1) by (simp_all add: exec_take_def exec_finish_def response_task_def)
  have d: "task_core (dispatched e t) = task_core t" "td_State (dispatched e t) = StateRunning" "ChunkID (dispatched e t) = ChunkID t"
    by simp_all (simp add: dispatched_def)
  obtain s2 where s2: "markTaskDone e' ?s1 i out = Runs (s2, None)" "\<exists>t2. Tasks s2 i = Some t2 \<and> td_State t2 = StateDone"
    "Jobs s2 (td_JobID t) = Some (job\<lparr>TasksDone := TasksDone job + 1\<rparr>)"
    "map_of (job_dir s2 (td_JobID t)) (chunk_file (ChunkID t)) = Some out"
    by (rule markTaskDone_running [of ?s1 i "dispatched e t" job e' out]) (use assms(4,11,12) ids d in auto)
  have wf: "wf_task mem (zero_Task\<lparr>task_OpCode := ExecutionResponse, TaskID := i, Result := out\<rparr>)"
    using assms(15) by (simp add: wf_task_def wf_header_def wf_section_def zero_Task_def)
  have "call_scheduler mem e' ch' (result_message ?r) ?s1 = (Ok [], s2)"
    by (rule call_scheduler_Ok [OF assms(18) answer_result [OF wf assms(10) s2(1)]]) (simp add: frame_ok_def)
  with poll push run s2 show ?thesis by blast
qed

lemma life_cycle_sizes:
  "wf_task 1000 (fetch_request (NewWorker [] [] []))" "wf_task 1000 (response_task example_task_state example_job)"
  "frame_ok 1000 (EncodeTask (fetch_request (NewWorker [] [] [])))" "frame_ok 1000 (EncodeTask (response_task example_task_state example_job))"
  "frame_ok 1000 (result_message \<lparr>er_TaskID = id_of_nat 2, er_Result = [49]\<rparr>)"
proof -
  have l: "length (EncodeTask t) = length (encode_header t) + length (encode_section (Capabilities t)) + length (encode_section (Tags t)) +
      length (len_prefixed (Topic t))" for t
    by (simp add: EncodeTask_def)
  note defs = fetch_request_def NewWorker_def response_task_def example_task_state_def new_task_def example_job_def zero_Task_def
    TaskTypeBatch_def str_def Let_def
  show "wf_task 1000 (fetch_request (NewWorker [] [] []))" "wf_task 1000 (response_task example_task_state example_job)"
    by (simp_all add: wf_task_def wf_header_def wf_section_def defs)
  show "frame_ok 1000 (EncodeTask (fetch_request (NewWorker [] [] [])))" "frame_ok 1000 (EncodeTask (response_task example_task_state example_job))"
    "frame_ok 1000 (result_message \<lparr>er_TaskID = id_of_nat 2, er_Result = [49]\<rparr>)"
    by (simp_all add: frame_ok_def result_message_def l encode_header_def encode_section_def len_prefixed_def defs)
qed

theorem task_life_cycle_witness:
  "\<exists>response s1 result s2 t2.
     call_scheduler 1000 example_env 4 (EncodeTask (fetch_request (NewWorker [] [] []))) example_state = (Ok response, s1) \<and>
     call_scheduler 1000 example_env 5 (result_message result) s1 = (Ok [], s2) \<and>
     Tasks s2 (id_of_nat 2) = Some t2 \<and> td_State t2 = StateDone \<and>
     map_of (job_dir s2 (id_of_nat 1)) (chunk_file 2) = Some [49]"
proof -
  have b: "batchTasks example_state = [id_of_nat 2]" "Tasks example_state (id_of_nat 2) = Some example_task_state"
    "Jobs example_state (td_JobID example_task_state) = Some example_job"
    by (simp_all add: example_state_def example_task_state_def new_task_def)
  have t: "td_Type example_task_state = TaskTypeBatch" "td_JobID example_task_state = id_of_nat 1" "ChunkID example_task_state = 2"
    "jd_Binary example_job \<noteq> []" "responses example_state = []"
    by (simp_all add: example_task_state_def new_task_def example_job_def example_state_def NewScheduler_def)
  have e: "\<not> ctx_done example_env 0" "write_err example_env (td_JobID example_task_state) (chunk_file (ChunkID example_task_state)) = None"
    "\<forall>x. planner example_env (MergerBinary example_job) x \<noteq> Panic"
    by (simp_all add: example_env_def)
  have c: "4 \<notin> fst ` set (responses example_state)" "fits [49]" using t(5) by simp_all
  from task_life_cycle [where exec = "\<lambda>_ _. Ok [49]" and ch' = 5, OF reach_example b t(1,4) refl e(1) c(1) e life_cycle_sizes(1,2) c(2) life_cycle_sizes(3-5)]
  show ?thesis unfolding t(2,3) by blast
qed

subsection \<open>The reducer in the scheduler\<close>

definition wasm_reduce :: "(bytes \<Rightarrow> (bytes \<rightharpoonup> u64) outcome) \<Rightarrow> ((bytes \<rightharpoonup> u64) \<Rightarrow> bytes) \<Rightarrow> bytes \<Rightarrow> bytes \<times> u64 list \<times> string option" where
  "wasm_reduce unmarshal encode stdin =
     (case reduce_run unmarshal stdin of
        Inl code \<Rightarrow> ([], [of_int code], None)
      | Inr tot \<Rightarrow> (encode tot @ [10], [0], None))"

definition wasm_map :: "((bytes \<rightharpoonup> 32 word) \<Rightarrow> bytes) \<Rightarrow> unicode_tables \<Rightarrow> bytes \<Rightarrow> bytes \<times> u64 list \<times> string option" where
  "wasm_map marshal u stdin = (marshal (countWords u stdin) @ [10], [0], None)"

definition engine_ok :: "wasm_engine \<Rightarrow> bytes \<Rightarrow> bytes \<Rightarrow> bool" where
  "engine_ok en dir binary \<longleftrightarrow>
     dir \<noteq> [] \<and> binary \<noteq> [] \<and> stat_IsDir en dir = Ok True \<and> wasi_err en = None \<and> instantiate_err en binary = None"

lemma RunTask_map:
  "engine_ok en dir binary \<Longrightarrow> run_export en binary = Some (wasm_map marshal u) \<Longrightarrow>
   RunTask en dir binary stdin = Ok (marshal (countWords u stdin) @ [10])"
  by (auto simp: RunTask_def engine_ok_def wasm_map_def)

lemma RunTask_reduce:
  "engine_ok en dir binary \<Longrightarrow> run_export en binary = Some (wasm_reduce unmarshal encode) \<Longrightarrow>
   RunTask en dir binary stdin = Ok (case reduce_run unmarshal stdin of Inl _ \<Rightarrow> [] | Inr tot \<Rightarrow> encode tot @ [10])"
  by (auto simp: RunTask_def engine_ok_def wasm_reduce_def split: sum.splits)

lemma scan_finds_output: "output_file \<in> set files \<Longrightarrow> fst (scan_files files existing)"
  by (induction files arbitrary: existing) (auto simp: output_file_def split: outcome.splits)

lemma markJobDone_reduce:
  assumes "Jobs s j = Some job" "dir_err e j = None" "write_err e j output_file = None" "planner e = RunTask en dir"
    and "engine_ok en dir (MergerBinary job)" "run_export en (MergerBinary job) = Some (wasm_reduce unmarshal encode)"
  shows "\<exists>s'. markJobDone e s j = Runs (s', None) \<and> output_file \<in> set (map fst (job_dir s' j)) \<and>
    dir_map s' j output_file =
      Some (case reduce_run unmarshal (ndjson (job_dir s j)) of Inl _ \<Rightarrow> [] | Inr tot \<Rightarrow> encode tot @ [10])"
proof -
  let ?res = "case reduce_run unmarshal (ndjson (job_dir s j)) of Inl _ \<Rightarrow> [] | Inr tot \<Rightarrow> encode tot @ [10]"
  let ?s = "s\<lparr>job_dir := (job_dir s)(j := write_file output_file ?res (job_dir s j))\<rparr>"
  have "markJobDone e s j = Runs (?s, None)"
    using assms(1-4) RunTask_reduce [OF assms(5,6)] by (simp add: markJobDone_def output_file_def)
  moreover have d: "dir_map ?s j output_file = Some ?res" by (simp add: dir_map_def map_of_write_file)
  moreover have "output_file \<in> set (map fst (job_dir ?s j))"
    using d by (auto simp: dir_map_def dest!: map_of_SomeD intro: rev_image_eqI)
  ultimately show ?thesis by blast
qed

definition sample_engine :: wasm_engine where
  "sample_engine = \<lparr>stat_IsDir = \<lambda>_. Ok True, wasi_err = None, instantiate_err = \<lambda>_. None,
     run_export = \<lambda>_. Some (wasm_reduce (\<lambda>_. Ok [str ''go'' \<mapsto> 2]) (\<lambda>_. str ''{go:2}''))\<rparr>"

text \<open>
  C40. A reducer that fails finishes the job all the same: when \<open>reduce.go\<close> ends with a non-zero code, because a result is no JSON or a line is too long, the
  runtime does not look at the code, the scheduler writes an empty output file without an error, and after a restart the job
  counts as completed.
\<close>

theorem failed_reducer_completes_job:
  assumes "Jobs s j = Some job" "dir_err e j = None" "write_err e j output_file = None" "planner e = RunTask en dir"
    and "engine_ok en dir (MergerBinary job)" "run_export en (MergerBinary job) = Some (wasm_reduce unmarshal encode)"
    and "reduce_run unmarshal (ndjson (job_dir s j)) = Inl code"
  shows "\<exists>s'. markJobDone e s j = Runs (s', None) \<and> dir_map s' j output_file = Some [] \<and>
    fst (scan_files (map fst (job_dir s' j)) [])"
  using markJobDone_reduce [OF assms(1-6)] assms(7) scan_finds_output by fastforce

definition reduce_engine :: wasm_engine where
  "reduce_engine = \<lparr>stat_IsDir = \<lambda>_. Ok True, wasi_err = None, instantiate_err = \<lambda>_. None,
     run_export = \<lambda>_. Some (wasm_reduce (\<lambda>_. Err ''bad json'') (\<lambda>_. []))\<rparr>"

theorem failed_reducer_completes_job_witness:
  "\<exists>s'. markJobDone (example_env\<lparr>planner := RunTask reduce_engine [47]\<rparr>)
      (example_state\<lparr>Jobs := [id_of_nat 1 \<mapsto> example_job\<lparr>MergerBinary := [1]\<rparr>], job_dir := (\<lambda>_. [(chunk_file 0, [120])])\<rparr>) (id_of_nat 1) =
        Runs (s', None) \<and> dir_map s' (id_of_nat 1) output_file = Some []"
proof -
  let ?s = "example_state\<lparr>Jobs := [id_of_nat 1 \<mapsto> example_job\<lparr>MergerBinary := [1]\<rparr>], job_dir := (\<lambda>_. [(chunk_file 0, [120])])\<rparr>"
  have "ndjson (job_dir ?s (id_of_nat 1)) = as_text [[120]]"
    by (simp add: as_text_def) code_simp
  moreover have "scan_lines reduceTokenSize (as_text [[120]]) = ([[120]], False)"
    by (rule scan_lines_as_text) (simp add: plain_line_def reduceTokenSize_def)
  ultimately have "reduce_run (\<lambda>_. Err ''bad json'') (ndjson (job_dir ?s (id_of_nat 1))) = Inl 2"
    by (simp add: reduce_run_def trimSpaces_def isSpace_def)
  from failed_reducer_completes_job [where s = ?s and j = "id_of_nat 1" and e = "example_env\<lparr>planner := RunTask reduce_engine [47]\<rparr>"
      and en = reduce_engine and dir = "[47]" and job = "example_job\<lparr>MergerBinary := [1]\<rparr>" and encode = "\<lambda>_. []", OF _ _ _ _ _ _ this]
  show ?thesis
    by (simp add: example_env_def engine_ok_def reduce_engine_def) blast
qed

end
