(* ===== verification/Job_Output.thy ===== *)
theory Job_Output
  imports Job_Properties Task_Lifecycle
begin

text \<open>
  What a job computes, whatever the order of events: \<open>job_inv\<close> says which files the directory of a submitted job holds and what they contain when
  every reported result is the value of a function \<open>f\<close> on the task's input (\<open>honest\<close>). It is kept by every step of the scheduler, so
  when the last task is done the reducer is given exactly one result for each task of the plan.
\<close>

definition honest :: "(bytes \<Rightarrow> bytes) \<Rightarrow> NodeId \<Rightarrow> Scheduler \<Rightarrow> Event \<Rightarrow> bool" where
  "honest f j s ev \<longleftrightarrow>
     (case ev of
        EventTaskDone i result \<Rightarrow> (\<forall>t. Tasks s i = Some t \<and> td_JobID t = j \<longrightarrow> result = f (td_Stdin t))
      | EventJobDone k \<Rightarrow> k \<noteq> j
      | _ \<Rightarrow> True)"

text \<open>The steps of the scheduler in surroundings that satisfy \<open>E\<close>, with honest results for the job \<open>j\<close>.\<close>

inductive job_step :: "(sched_env \<Rightarrow> bool) \<Rightarrow> (bytes \<Rightarrow> bytes) \<Rightarrow> NodeId \<Rightarrow> Scheduler \<Rightarrow> Scheduler \<Rightarrow> bool" for E f j where
  job_event: "E e \<Longrightarrow> event_ok s ev \<Longrightarrow> honest f j s ev \<Longrightarrow> handleEvent e s ev = Runs (s', err) \<Longrightarrow> job_step E f j s s'"
| job_register: "Jobs s k = None \<Longrightarrow> job_step E f j s (s\<lparr>job_dir := (job_dir s)(k := files)\<rparr>)"

lemma job_step_sched: "job_step E f j s s' \<Longrightarrow> sched_step s s'"
  by (induction rule: job_step.induct) (auto intro: sched_event sched_register)

definition task_planned :: "ExecutionPlan \<Rightarrow> TaskDescription \<Rightarrow> bool" where
  "task_planned plan t \<longleftrightarrow>
     (\<exists>p \<in> set (ep_Tasks plan). ChunkID t = etp_ID p \<and> b64_DecodeString (etp_Stdin p) = Ok (td_Stdin t))"

definition job_inv :: "(bytes \<Rightarrow> bytes) \<Rightarrow> NodeId \<Rightarrow> ExecutionPlan \<Rightarrow> bytes \<Rightarrow> Scheduler \<Rightarrow> bool" where
  "job_inv f j plan mb s \<longleftrightarrow>
     sorted (map fst (job_dir s j)) \<and> distinct (map fst (job_dir s j)) \<and>
     (\<exists>job. Jobs s j = Some job \<and> MergerBinary job = mb \<and> TasksTotal job = Total plan \<and> TasksDone job = int (card (done_set s j)) \<and>
        (output_file \<in> dom (dir_map s j) \<longrightarrow> TasksDone job = TasksTotal job)) \<and>
     (\<forall>i t. Tasks s i = Some t \<and> td_JobID t = j \<longrightarrow> task_planned plan t) \<and> inj_on snd (job_chunks s j) \<and>
     (\<forall>i \<in> done_set s j. dir_map s j (chunk_file (ChunkID (the (Tasks s i)))) = Some (f (td_Stdin (the (Tasks s i))))) \<and>
     dom (dir_map s j) - {output_file} = insert plan_file job_binaries \<union> chunk_file ` done_chunks s j"

subsection \<open>Tasks keep what they are\<close>

lemma step_core:
  assumes "sched_inv s" "sched_step s s'" "Tasks s i = Some t"
  shows "\<exists>t'. Tasks s' i = Some t' \<and> task_core t' = task_core t"
proof (rule sched_step_effect [OF assms(1,2)])
  assume "tasks_kept s s'"
  with assms(3) show ?thesis unfolding tasks_kept_def by blast
next
  fix k u u' assume "Tasks s k = Some u" "task_core u' = task_core u" "Tasks s' = (Tasks s)(k \<mapsto> u')"
  with assms(3) show ?thesis by auto
qed

lemma step_core_back:
  assumes "sched_inv s" "sched_step s s'" "Jobs s j \<noteq> None" "Tasks s' i = Some t'" "td_JobID t' = j"
  shows "\<exists>t. Tasks s i = Some t \<and> task_core t' = task_core t"
proof (cases "Tasks s i")
  case None
  with new_task_step [OF assms(1,2) None assms(4)] assms(3,5) show ?thesis by simp
next
  case (Some t)
  with step_core [OF assms(1,2) Some] assms(4) show ?thesis by auto
qed

lemma planned_step:
  assumes "sched_inv s" "sched_step s s'" "Jobs s j \<noteq> None" "\<forall>i t. Tasks s i = Some t \<and> td_JobID t = j \<longrightarrow> task_planned plan t"
  shows "\<forall>i t. Tasks s' i = Some t \<and> td_JobID t = j \<longrightarrow> task_planned plan t"
proof (intro allI impI)
  fix i t' assume t': "Tasks s' i = Some t' \<and> td_JobID t' = j"
  then obtain t where "Tasks s i = Some t" "task_core t' = task_core t" using step_core_back [OF assms(1-3)] by blast
  with t' assms(4) show "task_planned plan t'" by (auto simp: task_planned_def task_core_def)
qed

lemma done_core:
  assumes "sched_inv s" "sched_step s s'" "i \<in> done_set s j"
  shows "ChunkID (the (Tasks s' i)) = ChunkID (the (Tasks s i))" "td_Stdin (the (Tasks s' i)) = td_Stdin (the (Tasks s i))"
  using assms(3) step_core [OF assms(1,2), of i] by (auto simp: done_set_def task_core_def)

lemma job_inv_same:
  assumes "job_inv f j plan mb s" "sched_inv s" "sched_step s s'"
    and "job_dir s' j = job_dir s j" "Jobs s' j = Jobs s j" "done_set s' j = done_set s j"
  shows "job_inv f j plan mb s'"
proof -
  have j: "Jobs s j \<noteq> None" using assms(1) by (auto simp: job_inv_def)
  have dm: "dir_map s' j = dir_map s j" using assms(4) by (simp add: dir_map_def)
  have dc: "done_chunks s' j = done_chunks s j"
    unfolding done_chunks_def assms(6) by (rule image_cong) (simp_all add: done_core [OF assms(2,3)])
  have jc: "job_chunks s' j = job_chunks s j" using job_chunks_step [OF assms(2,3) j] .
  have "\<forall>i t. Tasks s' i = Some t \<and> td_JobID t = j \<longrightarrow> task_planned plan t"
    by (rule planned_step [OF assms(2,3) j]) (use assms(1) in \<open>unfold job_inv_def, blast\<close>)
  then show ?thesis
    using assms(1) done_core [OF assms(2,3)]
    unfolding job_inv_def assms(4-6) dm dc jc by simp
qed

subsection \<open>The end of a task\<close>

lemma job_inv_planned: "job_inv f j plan mb s \<Longrightarrow> Tasks s i = Some t \<Longrightarrow> td_JobID t = j \<Longrightarrow> task_planned plan t"
  by (simp add: job_inv_def)

lemma plan_ids: "plan_ok plan \<Longrightarrow> etp_ID ` set (ep_Tasks plan) = int ` {0..<length (ep_Tasks plan)}"
proof -
  assume "plan_ok plan"
  then have "set (map etp_ID (ep_Tasks plan)) = set (map int [0..<length (ep_Tasks plan)])" by (simp add: plan_ok_def)
  then show ?thesis by simp
qed

lemma planned_range: "plan_ok plan \<Longrightarrow> task_planned plan t \<Longrightarrow> ChunkID t \<in> int ` {0..<length (ep_Tasks plan)}"
  using plan_ids [of plan] by (auto simp: task_planned_def)

lemma plan_range: "plan_ok plan \<Longrightarrow> int ` {0..<length (ep_Tasks plan)} \<subseteq> {- (2 ^ 63)..<2 ^ 63}"
  by (auto simp: plan_ok_def)

lemma chunk_file_inj: "inj_on chunk_file {- (2 ^ 63)..<2 ^ 63}"
proof (rule inj_onI)
  fix a b :: int assume r: "a \<in> {- (2 ^ 63)..<2 ^ 63}" "b \<in> {- (2 ^ 63)..<2 ^ 63}" and eq: "chunk_file a = chunk_file b"
  have "Atoi (TrimSuffix (chunk_file a) (str ''.json'')) = Ok a" using r(1) by (intro Atoi_chunk_file) auto
  moreover have "Atoi (TrimSuffix (chunk_file b) (str ''.json'')) = Ok b" using r(2) by (intro Atoi_chunk_file) auto
  ultimately have "Ok a = Ok b" unfolding eq by (rule trans [OF sym])
  then show "a = b" by simp
qed

lemma done_finite:
  assumes "job_inv f j plan mb s" "plan_ok plan"
  shows "finite (done_set s j)" "done_chunks s j \<subseteq> int ` {0..<length (ep_Tasks plan)}" "card (done_chunks s j) = card (done_set s j)"
proof -
  have inj: "inj_on snd (job_chunks s j)" using assms(1) by (simp add: job_inv_def)
  have sub: "snd ` job_chunks s j \<subseteq> int ` {0..<length (ep_Tasks plan)}"
    using planned_range [OF assms(2) job_inv_planned [OF assms(1)]] by (auto simp: job_chunks_def)
  have fin: "finite (job_chunks s j)" using finite_subset [OF sub] inj by (simp add: finite_image_iff)
  have "done_set s j \<subseteq> fst ` job_chunks s j" by (force simp: done_set_def job_chunks_def)
  with fin show "finite (done_set s j)" by (simp add: finite_subset)
  show "done_chunks s j \<subseteq> int ` {0..<length (ep_Tasks plan)}" using done_chunks_subset [of s j] sub by blast
  show "card (done_chunks s j) = card (done_set s j)" by (rule done_chunks_bij [OF inj])
qed

lemma chunk_of_other:
  assumes "job_inv f j plan mb s" "plan_ok plan" "Tasks s i = Some t" "td_JobID t = j" "k \<in> done_set s j" "k \<noteq> i"
  shows "chunk_file (ChunkID (the (Tasks s k))) \<noteq> chunk_file (ChunkID t)"
proof
  obtain u where u: "Tasks s k = Some u" "td_JobID u = j" using assms(5) by (auto simp: done_set_def)
  assume "chunk_file (ChunkID (the (Tasks s k))) = chunk_file (ChunkID t)"
  moreover have "ChunkID u \<in> {- (2 ^ 63)..<2 ^ 63}" "ChunkID t \<in> {- (2 ^ 63)..<2 ^ 63}"
    using planned_range [OF assms(2) job_inv_planned [OF assms(1)]] plan_range [OF assms(2)] u assms(3,4) by blast+
  ultimately have "ChunkID u = ChunkID t" using chunk_file_inj u(1) by (simp add: inj_on_def)
  moreover have "(k, ChunkID u) \<in> job_chunks s j" "(i, ChunkID t) \<in> job_chunks s j" using u assms(3,4) by (auto simp: job_chunks_def)
  moreover have "inj_on snd (job_chunks s j)" using assms(1) by (simp add: job_inv_def)
  ultimately show False using assms(6) by (metis inj_onD prod.inject snd_conv)
qed

lemma finish_task_simps [simp]:
  "Tasks (finish_task e s i t job r) =
     (Tasks s)(i \<mapsto> t\<lparr>td_State := StateDone, Queued := False, BackoffUntil := 0, LeaseUntil := 0, DoneAt := now e\<rparr>)"
  "Jobs (finish_task e s i t job r) = (Jobs s)(td_JobID t \<mapsto> job\<lparr>TasksDone := TasksDone job + 1\<rparr>)"
  "job_dir (finish_task e s i t job r) = with_result t r (job_dir s)"
  by (simp_all add: finish_task_def)

lemma done_set_finish_task:
  "Tasks s i = Some t \<Longrightarrow> td_State t = StateRunning \<Longrightarrow>
   done_set (finish_task e s i t job r) j = (if td_JobID t = j then insert i (done_set s j) else done_set s j) \<and> i \<notin> done_set s j"
  by (rule done_set_finish [where t' = "t\<lparr>td_State := StateDone, Queued := False, BackoffUntil := 0, LeaseUntil := 0, DoneAt := now e\<rparr>"])
    simp_all

lemma not_yet_done:
  assumes "job_inv f j plan mb s" "plan_ok plan" "Tasks s i = Some t" "td_State t = StateRunning" "td_JobID t = j"
  shows "card (done_set s j) < length (ep_Tasks plan)"
proof -
  have "ChunkID t \<notin> done_chunks s j"
  proof
    assume "ChunkID t \<in> done_chunks s j"
    then obtain k where "k \<in> done_set s j" "ChunkID (the (Tasks s k)) = ChunkID t" by (auto simp: done_chunks_def)
    moreover have "i \<notin> done_set s j" using assms(3,4) by (auto simp: done_set_def)
    ultimately show False using chunk_of_other [OF assms(1-3,5), of k] by auto
  qed
  moreover have "ChunkID t \<in> int ` {0..<length (ep_Tasks plan)}" using planned_range [OF assms(2) job_inv_planned [OF assms(1,3,5)]] .
  ultimately have "done_chunks s j \<subset> int ` {0..<length (ep_Tasks plan)}" using done_finite(2) [OF assms(1,2)] by blast
  then have "card (done_chunks s j) < card (int ` {0..<length (ep_Tasks plan)})" by (intro psubset_card_mono) simp_all
  then show ?thesis using done_finite(3) [OF assms(1,2)] by (simp add: card_image)
qed

lemma job_inv_finish:
  assumes "job_inv f j plan mb s" "plan_ok plan" "Tasks s i = Some t" "td_State t = StateRunning" "td_JobID t = j"
    and "Jobs s j = Some job" "r = f (td_Stdin t)"
  shows "job_inv f j plan mb (finish_task e s i t job r)" "output_file \<notin> dom (dir_map (finish_task e s i t job r) j)"
proof -
  let ?u = "finish_task e s i t job r"
  note inv = assms(1) [unfolded job_inv_def]
  have d: "done_set ?u j = insert i (done_set s j)" "i \<notin> done_set s j" using done_set_finish_task [OF assms(3,4)] assms(5) by auto
  have dm: "dir_map ?u j = (dir_map s j)(chunk_file (ChunkID t) \<mapsto> r)"
    using assms(5) by (simp add: dir_map_def with_result_def map_of_write_file)
  have dc: "done_chunks ?u j = insert (ChunkID t) (done_chunks s j)"
    unfolding done_chunks_def d using d(2) by (auto simp: image_iff)
  have jc: "job_chunks ?u j = job_chunks s j" using assms(3,5) by (auto simp: job_chunks_def)
  have planned: "\<forall>k u. Tasks ?u k = Some u \<and> td_JobID u = j \<longrightarrow> task_planned plan u"
    using inv assms(3,5) by (auto simp: task_planned_def)
  have out: "output_file \<notin> dom (dir_map s j)"
    using inv not_yet_done [OF assms(1-5)] assms(2) by (auto simp: plan_ok_def)
  then show no: "output_file \<notin> dom (dir_map ?u j)" using chunk_file_names(1) [of "ChunkID t"] unfolding dm by auto
  have sorted: "sorted (map fst (job_dir ?u j)) \<and> distinct (map fst (job_dir ?u j))"
    using inv assms(5) write_file_sorted [of "job_dir s j"] by (simp add: with_result_def)
  have job: "\<exists>job. Jobs ?u j = Some job \<and> MergerBinary job = mb \<and> TasksTotal job = Total plan \<and> TasksDone job = int (card (done_set ?u j))"
    using inv assms(5,6) done_finite(1) [OF assms(1,2)] unfolding d by (simp add: d(2))
  have content: "\<forall>k \<in> done_set ?u j. dir_map ?u j (chunk_file (ChunkID (the (Tasks ?u k)))) = Some (f (td_Stdin (the (Tasks ?u k))))"
    unfolding dm d using inv d(2) assms(7) chunk_of_other [OF assms(1-3,5)] by auto
  have "dom (dir_map ?u j) - {output_file} = insert (chunk_file (ChunkID t)) (dom (dir_map s j) - {output_file})"
    unfolding dm using chunk_file_names(1) [of "ChunkID t"] by auto
  also have "\<dots> = insert plan_file job_binaries \<union> chunk_file ` done_chunks ?u j" using inv unfolding dc by auto
  finally have dom: "dom (dir_map ?u j) - {output_file} = insert plan_file job_binaries \<union> chunk_file ` done_chunks ?u j" .
  show "job_inv f j plan mb ?u"
    unfolding job_inv_def jc using sorted job planned inv content dom no by (intro conjI) auto
qed

lemma job_inv_output:
  assumes "job_inv f j plan mb s" "Jobs s j = Some job" "TasksDone job = TasksTotal job"
  shows "job_inv f j plan mb (s\<lparr>job_dir := (job_dir s)(j := write_file (str ''output.json'') res (job_dir s j))\<rparr>)" (is "job_inv _ _ _ _ ?s")
proof -
  note inv = assms(1) [unfolded job_inv_def]
  have dm: "dir_map ?s j = (dir_map s j)(output_file \<mapsto> res)" by (simp add: dir_map_def map_of_write_file output_file_def)
  have ds: "done_set ?s j = done_set s j" "done_chunks ?s j = done_chunks s j" "job_chunks ?s j = job_chunks s j"
    by (simp_all add: done_set_def done_chunks_def job_chunks_def)
  have "sorted (map fst (job_dir ?s j)) \<and> distinct (map fst (job_dir ?s j))"
    using inv write_file_sorted [of "job_dir s j"] by simp
  moreover have "dom (dir_map ?s j) - {output_file} = insert plan_file job_binaries \<union> chunk_file ` done_chunks s j"
    using inv unfolding dm by auto
  moreover have "\<forall>i \<in> done_set s j. dir_map ?s j (chunk_file (ChunkID (the (Tasks s i)))) = Some (f (td_Stdin (the (Tasks s i))))"
    using inv chunk_file_names(1) unfolding dm by auto
  ultimately show ?thesis
    unfolding job_inv_def ds using inv assms(2,3) by (intro conjI) auto
qed

text \<open>What a result does to the job \<open>j\<close>: nothing, one more finished task, or the last one and the merge.\<close>

lemma markTaskDone_job:
  assumes "sched_inv s" "markTaskDone e s i r = Runs (s', err)"
  obtains (other) "job_dir s' j = job_dir s j" "Jobs s' j = Jobs s j" "done_set s' j = done_set s j"
  | (more) t job where "Tasks s i = Some t" "td_State t = StateRunning" "td_JobID t = j" "Jobs s j = Some job"
      "TasksDone job + 1 \<noteq> TasksTotal job" "s' = finish_task e s i t job r"
  | (last) t job err' where "Tasks s i = Some t" "td_State t = StateRunning" "td_JobID t = j" "Jobs s j = Some job"
      "TasksDone job + 1 = TasksTotal job" "markJobDone e (finish_task e s i t job r) j = Runs (s', err')"
proof (cases "\<exists>t job. Tasks s i = Some t \<and> td_State t = StateRunning \<and> Jobs s (td_JobID t) = Some job \<and>
    write_err e (td_JobID t) (chunk_file (ChunkID t)) = None")
  case False
  with markTaskDone_idle [OF assms(2)] show thesis by (intro other) simp_all
next
  case True
  then obtain t job where t: "Tasks s i = Some t" "td_State t = StateRunning" "Jobs s (td_JobID t) = Some job"
    "write_err e (td_JobID t) (chunk_file (ChunkID t)) = None" by blast
  let ?u = "finish_task e s i t job r"
  have id: "jd_ID job = td_JobID t" using assms(1) t(3) by (simp add: sched_inv_def)
  have res: "s' = ?u \<and> TasksDone job + 1 \<noteq> TasksTotal job \<or>
    (\<exists>err. markJobDone e ?u (td_JobID t) = Runs (s', err)) \<and> TasksDone job + 1 = TasksTotal job"
    using assms(2) markTaskDone_running_eq [OF t] id by (auto split: if_splits progress.splits)
  show thesis
  proof (cases "td_JobID t = j")
    case True
    with res t more last show thesis by blast
  next
    case False
    have d: "done_set ?u j = done_set s j" using done_set_finish_task [OF t(1,2)] False by auto
    from res have "job_dir s' j = job_dir s j \<and> Jobs s' j = Jobs s j \<and> done_set s' j = done_set s j"
      using False d by (elim disjE conjE exE markJobDone_frame) (auto simp: with_result_def done_set_def)
    with other show thesis by blast
  qed
qed

lemma job_inv_done:
  assumes "job_inv f j plan mb s" "plan_ok plan" "sched_inv s" "sched_step s s'" "markTaskDone e s i r = Runs (s', err)"
    and "honest f j s (EventTaskDone i r)"
  shows "job_inv f j plan mb s'"
  using assms(3,5)
proof (cases rule: markTaskDone_job [where j = j])
  case other
  then show ?thesis by (rule job_inv_same [OF assms(1,3,4)])
next
  case (more t job)
  with assms(6) job_inv_finish(1) [OF assms(1,2)] show ?thesis by (simp add: honest_def)
next
  case (last t job err')
  with assms(6) have u: "job_inv f j plan mb (finish_task e s i t job r)" using job_inv_finish(1) [OF assms(1,2)] by (simp add: honest_def)
  let ?u = "finish_task e s i t job r"
  have "s' = ?u \<or> (\<exists>res. s' = ?u\<lparr>job_dir := (job_dir ?u)(j := write_file (str ''output.json'') res (job_dir ?u j))\<rparr>)"
    by (rule markJobDone_frame [OF last(6)]) (elim disjE exE, auto simp del: finish_task_simps)
  with u last job_inv_output [OF u, of "job\<lparr>TasksDone := TasksDone job + 1\<rparr>"] show ?thesis by auto
qed

lemma job_step_effect:
  assumes "sched_inv s" "Jobs s j \<noteq> None" "job_step E f j s s'"
  obtains (same) "job_dir s' j = job_dir s j" "Jobs s' j = Jobs s j" "done_set s' j = done_set s j"
  | (result) e i r err where "E e" "honest f j s (EventTaskDone i r)" "markTaskDone e s i r = Runs (s', err)"
  using assms(3)
proof cases
  case (job_event e ev err)
  from assms(1) job_event(2,4) show thesis
  proof (cases rule: handleEvent_dirs)
    case quiet
    with assms(2) show thesis by (intro same done_set_kept) auto
  next
    case (merge k d)
    with job_event(3) have "k \<noteq> j" by (simp add: honest_def)
    with merge show thesis by (intro same) (auto simp: done_set_def)
  next
    case (finish i r)
    with job_event show thesis by (intro result) auto
  qed
next
  case (job_register k files)
  with assms(2) show thesis by (intro same) (auto simp: done_set_def)
qed

lemma job_inv_step:
  assumes "job_inv f j plan mb s" "plan_ok plan" "sched_inv s" "job_step E f j s s'"
  shows "job_inv f j plan mb s'"
proof -
  have step: "sched_step s s'" by (rule job_step_sched [OF assms(4)])
  have "Jobs s j \<noteq> None" using assms(1) by (auto simp: job_inv_def)
  with assms(3) show ?thesis
    using assms(4) by (cases rule: job_step_effect) (use job_inv_same [OF assms(1,3) step] job_inv_done [OF assms(1-3) step] in blast)+
qed

subsection \<open>The results of a finished job\<close>

definition plan_input :: "ExecutionTaskPlan \<Rightarrow> bytes" where
  "plan_input p = (case b64_DecodeString (etp_Stdin p) of Ok b \<Rightarrow> b | _ \<Rightarrow> [])"

lemma result_files_mset:
  assumes "distinct (map fst files)"
  shows "mset (result_files files) = image_mset (\<lambda>n. the (map_of files n))
    (mset_set {n \<in> dom (map_of files). n \<noteq> plan_file \<and> \<not> ends_with n (str ''.wasm'')})"
proof -
  let ?P = "\<lambda>n. n \<noteq> plan_file \<and> \<not> ends_with n (str ''.wasm'')"
  have "map (\<lambda>n. the (map_of files n)) (filter ?P (map fst files)) = result_files files"
    using assms by (auto simp: result_files_def filter_map comp_def plan_file_def case_prod_beta intro!: map_cong filter_cong)
  then have "mset (result_files files) = image_mset (\<lambda>n. the (map_of files n)) (mset (filter ?P (map fst files)))"
    by (metis mset_map)
  also have "mset (filter ?P (map fst files)) = mset_set (set (filter ?P (map fst files)))"
    using assms by (intro mset_set_set [symmetric] distinct_filter)
  also have "set (filter ?P (map fst files)) = {n \<in> dom (map_of files). ?P n}" by (auto simp: dom_map_of_conv_image_fst)
  finally show ?thesis .
qed

lemma job_result_names:
  assumes "dom m - {output_file} = insert plan_file job_binaries \<union> chunk_file ` C" "output_file \<notin> dom m"
  shows "{n \<in> dom m. n \<noteq> plan_file \<and> \<not> ends_with n (str ''.wasm'')} = chunk_file ` C"
proof -
  have "ends_with n (str ''.wasm'')" if "n \<in> job_binaries" for n
    using that by (auto simp: job_binaries_def ends_with_def str_def)
  moreover have "\<not> ends_with (chunk_file c) (str ''.wasm'')" "chunk_file c \<noteq> plan_file" for c
    using chunk_file_names(2) by (simp_all add: chunk_file_def ends_with_def str_def)
  moreover have "dom m = insert plan_file job_binaries \<union> chunk_file ` C" using assms by blast
  ultimately show ?thesis by auto
qed

lemma all_done_chunks:
  assumes "job_inv f j plan mb s" "plan_ok plan" "card (done_set s j) = length (ep_Tasks plan)"
  shows "done_chunks s j = int ` {0..<length (ep_Tasks plan)}"
  using done_finite(2,3) [OF assms(1,2)] assms(3) by (intro card_subset_eq) (simp_all add: card_image)

lemma done_task_of:
  assumes "job_inv f j plan mb s" "plan_ok plan" "card (done_set s j) = length (ep_Tasks plan)" "k < length (ep_Tasks plan)"
  shows "dir_map s j (chunk_file (int k)) = Some (f (plan_input (ep_Tasks plan ! k)))"
proof -
  let ?n = "length (ep_Tasks plan)"
  have "int k \<in> done_chunks s j" using all_done_chunks [OF assms(1-3)] assms(4) by auto
  then obtain i t where t: "i \<in> done_set s j" "Tasks s i = Some t" "td_JobID t = j" "ChunkID t = int k"
    by (auto simp: done_chunks_def done_set_def)
  then obtain p where p: "p \<in> set (ep_Tasks plan)" "etp_ID p = int k" "plan_input p = td_Stdin t"
    using job_inv_planned [OF assms(1) t(2,3)] t(4) by (auto simp: task_planned_def plan_input_def)
  have ids: "map etp_ID (ep_Tasks plan) = map int [0..<?n]" using assms(2) by (simp add: plan_ok_def)
  have nth: "etp_ID (ep_Tasks plan ! l) = int l" if "l < ?n" for l
    using arg_cong [OF ids, of "\<lambda>xs. xs ! l"] that by simp
  from p(1) obtain l where "l < ?n" "p = ep_Tasks plan ! l" by (auto simp: in_set_conv_nth)
  with nth p(2) have "p = ep_Tasks plan ! k" by simp
  moreover have "dir_map s j (chunk_file (ChunkID t)) = Some (f (td_Stdin t))" using assms(1) t(1,2) unfolding job_inv_def by force
  ultimately show ?thesis using t(4) p(3) by simp
qed

lemma job_results:
  assumes "job_inv f j plan mb s" "plan_ok plan" "card (done_set s j) = length (ep_Tasks plan)" "output_file \<notin> dom (dir_map s j)"
  shows "mset (result_files (job_dir s j)) = mset (map (\<lambda>p. f (plan_input p)) (ep_Tasks plan))"
proof -
  let ?n = "length (ep_Tasks plan)" and ?m = "dir_map s j"
  note inv = assms(1) [unfolded job_inv_def]
  have names: "{n \<in> dom ?m. n \<noteq> plan_file \<and> \<not> ends_with n (str ''.wasm'')} = chunk_file ` int ` {0..<?n}"
    using inv assms(4) unfolding all_done_chunks [OF assms(1-3)] by (intro job_result_names) simp_all
  have content: "the (?m (chunk_file (int k))) = f (plan_input (ep_Tasks plan ! k))" if "k < ?n" for k
    using done_task_of [OF assms(1-3) that] by simp
  have inj: "inj_on chunk_file (int ` {0..<?n})" by (rule inj_on_subset [OF chunk_file_inj plan_range [OF assms(2)]])
  have "mset (result_files (job_dir s j)) = image_mset (\<lambda>n. the (?m n)) (mset_set (chunk_file ` int ` {0..<?n}))"
    using result_files_mset [of "job_dir s j"] inv names unfolding dir_map_def by simp
  also have "\<dots> = image_mset (\<lambda>k. the (?m (chunk_file (int k)))) (mset_set {0..<?n})"
    using inj by (simp add: image_mset.compositionality comp_def flip: image_mset_mset_set)
  also have "\<dots> = image_mset (\<lambda>k. f (plan_input (ep_Tasks plan ! k))) (mset_set {0..<?n})"
    by (rule image_mset_cong) (simp add: content)
  also have "\<dots> = mset (map (\<lambda>p. f (plan_input p)) (ep_Tasks plan))"
    using arg_cong [OF map_nth [of "ep_Tasks plan"], of "\<lambda>ps. mset (map (\<lambda>p. f (plan_input p)) ps)"]
    by (simp add: image_mset.compositionality comp_def)
  finally show ?thesis .
qed

subsection \<open>The output of a job\<close>

text \<open>
  The specification of a job, in the sense of map and reduce: once all its tasks are done, the output file contains what the merger makes of one result for each task of
  the plan, in some order; before, and when the merger fails, there is no output file. Surroundings in which the merger is \<open>P\<close> and the output can be
  written are \<open>merge_env P j\<close>.
\<close>

definition merge_env :: "(bytes \<Rightarrow> bytes \<Rightarrow> bytes outcome) \<Rightarrow> NodeId \<Rightarrow> sched_env \<Rightarrow> bool" where
  "merge_env P j e \<longleftrightarrow> planner e = P \<and> dir_err e j = None \<and> write_err e j output_file = None"

definition merged :: "(bytes \<Rightarrow> bytes \<Rightarrow> bytes outcome) \<Rightarrow> (bytes \<Rightarrow> bytes) \<Rightarrow> NodeId \<Rightarrow> ExecutionPlan \<Rightarrow> bytes \<Rightarrow> Scheduler \<Rightarrow> bool" where
  "merged P f j plan mb s \<longleftrightarrow>
     (if card (done_set s j) = length (ep_Tasks plan)
      then \<exists>files. mset (result_files files) = mset (map (\<lambda>p. f (plan_input p)) (ep_Tasks plan)) \<and>
        dir_map s j output_file = (case P mb (ndjson files) of Ok out \<Rightarrow> Some out | _ \<Rightarrow> None)
      else dir_map s j output_file = None)"

lemma merged_same:
  "merged P f j plan mb s \<Longrightarrow> job_dir s' j = job_dir s j \<Longrightarrow> done_set s' j = done_set s j \<Longrightarrow> merged P f j plan mb s'"
  unfolding merged_def dir_map_def by metis

lemma markJobDone_output:
  assumes "markJobDone e s j = Runs (s', err)" "Jobs s j = Some job" "merge_env P j e" "output_file \<notin> dom (dir_map s j)"
  shows "dir_map s' j output_file = (case P (MergerBinary job) (ndjson (job_dir s j)) of Ok out \<Rightarrow> Some out | _ \<Rightarrow> None)"
  using assms by (auto simp: markJobDone_def merge_env_def dir_map_def map_of_write_file output_file_def domIff split: outcome.splits)

lemma merged_done:
  assumes "job_inv f j plan mb s" "plan_ok plan" "sched_inv s" "merged P f j plan mb s"
    and "merge_env P j e" "honest f j s (EventTaskDone i r)" "markTaskDone e s i r = Runs (s', err)"
  shows "merged P f j plan mb s'"
  using assms(3,7)
proof (cases rule: markTaskDone_job [where j = j])
  case other
  with merged_same [OF assms(4)] show ?thesis by blast
next
  case (more t job)
  let ?u = "finish_task e s i t job r"
  have r: "r = f (td_Stdin t)" using assms(6) more by (simp add: honest_def)
  have job: "TasksTotal job = Total plan" "TasksDone job = int (card (done_set s j))" using assms(1) more(4) by (auto simp: job_inv_def)
  have "card (done_set ?u j) = Suc (card (done_set s j))"
    using done_set_finish_task [OF more(1,2), of e job r j] more(3) done_finite(1) [OF assms(1,2)] by simp
  then have "card (done_set ?u j) \<noteq> length (ep_Tasks plan)" using more(5) job assms(2) by (simp add: plan_ok_def)
  moreover have "output_file \<notin> dom (dir_map ?u j)" by (rule job_inv_finish(2) [OF assms(1,2) more(1-4) r])
  ultimately show ?thesis unfolding merged_def more(6) by (auto simp: domIff)
next
  case (last t job err')
  let ?u = "finish_task e s i t job r"
  have r: "r = f (td_Stdin t)" using assms(6) last by (simp add: honest_def)
  note u = job_inv_finish [OF assms(1,2) last(1-4) r, of e]
  have job: "MergerBinary job = mb" "TasksTotal job = Total plan" "TasksDone job = int (card (done_set s j))"
    using assms(1) last(4) by (auto simp: job_inv_def)
  have "card (done_set ?u j) = Suc (card (done_set s j))"
    using done_set_finish_task [OF last(1,2), of e job r j] last(3) done_finite(1) [OF assms(1,2)] by simp
  then have all: "card (done_set ?u j) = length (ep_Tasks plan)" using last(5) job assms(2) by (simp add: plan_ok_def)
  have "done_set s' j = done_set ?u j" by (rule markJobDone_frame [OF last(6)]) (simp add: done_set_def)
  moreover have "dir_map s' j output_file = (case P mb (ndjson (job_dir ?u j)) of Ok out \<Rightarrow> Some out | _ \<Rightarrow> None)"
    using markJobDone_output [OF last(6) _ assms(5) u(2), of "job\<lparr>TasksDone := TasksDone job + 1\<rparr>"] last(3) job(1) by simp
  ultimately show ?thesis unfolding merged_def using all job_results [OF u(1) assms(2) all u(2)] by auto
qed

lemma merged_step:
  assumes "job_inv f j plan mb s" "plan_ok plan" "sched_inv s" "merged P f j plan mb s" "job_step (merge_env P j) f j s s'"
  shows "merged P f j plan mb s'"
proof -
  have "Jobs s j \<noteq> None" using assms(1) by (auto simp: job_inv_def)
  with assms(3) show ?thesis using assms(5)
    by (cases rule: job_step_effect) (use merged_same [OF assms(4)] merged_done [OF assms(1-4)] in blast)+
qed

lemma merged_steps:
  "(job_step (merge_env P j) f j)\<^sup>*\<^sup>* s s' \<Longrightarrow> job_inv f j plan mb s \<Longrightarrow> plan_ok plan \<Longrightarrow> sched_inv s \<Longrightarrow> merged P f j plan mb s \<Longrightarrow>
   job_inv f j plan mb s' \<and> sched_inv s' \<and> merged P f j plan mb s'"
proof (induction rule: rtranclp_induct)
  case (step t u)
  then have "job_inv f j plan mb t" "sched_inv t" "merged P f j plan mb t" by blast+
  with step.hyps(2) step.prems(2) show ?case
    using job_inv_step merged_step sched.inv_step [OF _ job_step_sched] by blast
qed simp

subsection \<open>The word count job\<close>

text \<open>The plan that the scheduler reads from what \<open>plan.go\<close> prints.\<close>

definition word_plan :: "bytes \<Rightarrow> ExecutionPlan" where
  "word_plan data = \<lparr>ep_Name = p_Name (plan_run data), Total = p_Total (plan_run data),
     ep_Tasks = map (\<lambda>t. \<lparr>etp_ID = pt_ID t, etp_Stdin = pt_Stdin t\<rparr>) (p_Tasks (plan_run data))\<rparr>"

lemma split_loop_length: "length (split_loop k data n) \<le> length data"
proof (induction k data n rule: split_loop.induct)
  case (1 k data n)
  define d where "d = dropWhile isSpace data"
  show ?case
  proof (cases "d = []")
    case True
    then show ?thesis by (subst split_loop.simps) (simp add: Let_def flip: d_def)
  next
    case False
    define rest where "rest = dropWhile (\<lambda>b. \<not> isSpace b) (drop k d)"
    have e: "length (split_loop k data n) = Suc (length (split_loop k rest (n + 1)))"
      using False by (subst split_loop.simps) (simp add: Let_def rest_def flip: d_def)
    obtain b bs where b: "d = b # bs" using False by (cases d) auto
    then have "\<not> isSpace b" unfolding d_def by (metis dropWhile_eq_Cons_conv)
    then have "length rest \<le> length bs"
      using length_dropWhile_le [of "\<lambda>b. \<not> isSpace b" "drop k d"] length_dropWhile_le [of "\<lambda>b. \<not> isSpace b" bs] b
      by (cases k) (auto simp: rest_def)
    moreover have "length d \<le> length data" unfolding d_def by (rule length_dropWhile_le)
    moreover have "length (split_loop k rest (n + 1)) \<le> length rest"
      using "1.IH" [OF d_def False refl refl rest_def] .
    ultimately show ?thesis using e b by simp
  qed
qed

lemma word_plan_ok: "length data < 2 ^ 32 \<Longrightarrow> plan_ok (word_plan data)"
proof -
  assume l: "length data < 2 ^ 32"
  let ?ts = "split_loop 64 data 0"
  have ts: "p_Tasks (plan_run data) = ?ts" "p_Total (plan_run data) = int (length ?ts)"
    by (simp_all add: plan_run_def splitToTasksBase64_def Let_def)
  have sh: "map pt_ID ?ts = map int [0..<length ?ts]" "\<And>t. t \<in> set ?ts \<Longrightarrow> \<exists>c. b64_DecodeString (pt_Stdin t) = Ok c"
    using split_loop_shape [of 64 data 0] by (auto simp: list_all_iff)
  have "int (length ?ts) < 2 ^ 63" using split_loop_length [of 64 data 0] l by simp
  with sh show ?thesis by (simp add: plan_ok_def word_plan_def ts comp_def list_all_iff)
qed

lemma word_plan_inputs:
  "map (\<lambda>p. g (plan_input p)) (ep_Tasks (word_plan data)) = map (\<lambda>t. g (task_chunk t)) (p_Tasks (plan_run data))"
  by (simp add: word_plan_def plan_input_def task_chunk_def)

text \<open>A job that was just submitted, with its files and its tasks as registration makes them.\<close>

definition job_started :: "NodeId \<Rightarrow> ExecutionPlan \<Rightarrow> bytes \<Rightarrow> Scheduler \<Rightarrow> bool" where
  "job_started j plan mb s \<longleftrightarrow>
     sorted (map fst (job_dir s j)) \<and> distinct (map fst (job_dir s j)) \<and> dom (dir_map s j) = insert plan_file job_binaries \<and>
     (\<exists>job. Jobs s j = Some job \<and> MergerBinary job = mb \<and> TasksTotal job = Total plan \<and> TasksDone job = 0) \<and>
     done_set s j = {} \<and> inj_on snd (job_chunks s j) \<and>
     (\<forall>i t. Tasks s i = Some t \<and> td_JobID t = j \<longrightarrow> task_planned plan t)"

lemma job_started_inv: "job_started j plan mb s \<Longrightarrow> job_inv f j plan mb s"
proof -
  have "output_file \<notin> insert plan_file job_binaries" by (simp add: output_file_def plan_file_def job_binaries_def str_def)
  then show "job_started j plan mb s \<Longrightarrow> job_inv f j plan mb s"
    by (auto simp: job_started_def job_inv_def done_chunks_def)
qed

lemma job_started_merged:
  assumes "job_started j plan mb s" "ep_Tasks plan \<noteq> []"
  shows "merged P f j plan mb s"
proof -
  have "output_file \<notin> insert plan_file job_binaries" by (simp add: output_file_def plan_file_def job_binaries_def str_def)
  with assms show ?thesis by (auto simp: merged_def job_started_def domIff)
qed

subsection \<open>From the registration to the started job\<close>

lemma enqueueTask_pending:
  assumes "sched_inv s" "Tasks s i = Some t" "td_State t = StatePending" "enqueueTask e s i = Runs (s', err)"
  shows "err = None \<and> (\<exists>u. Tasks s' i = Some u \<and> task_core u = task_core t) \<and> dom (Tasks s') = dom (Tasks s)"
proof -
  have "tasks_ok (Jobs s) (Tasks s) (batchTasks s)" using assms(1) by (simp add: sched_inv_def)
  from this assms(2) show ?thesis by (rule enqueueTask_cases [where e = e]) (use assms(2-4) in auto)
qed

lemma submit_tasks_stored:
  assumes "sched_inv s" "Jobs s job \<noteq> None" "all_new s job tasks"
    and "\<forall>n. \<not> ctx_done e n" "submit_tasks e i tasks s = Runs (s', err)"
  shows "dom (Tasks s') = dom (Tasks s) \<union> td_ID ` set tasks \<and>
    (\<forall>t \<in> set tasks. \<exists>u. Tasks s' (td_ID t) = Some u \<and> task_core u = task_core t)"
  using assms
proof (induction tasks arbitrary: s i)
  case (Cons t tasks)
  let ?s = "set_task (td_ID t) t s"
  obtain s1 err1 where s1: "enqueueTask e ?s (td_ID t) = Runs (s1, err1)"
    using Cons.prems(4,5) by (auto split: progress.splits)
  note first = submit_first [OF Cons.prems(1-3) s1]
  have job1: "Jobs s1 job \<noteq> None" using first(3) Cons.prems(2) by simp
  have "td_State t = StatePending" using Cons.prems(3) by (simp add: all_new_def)
  then obtain u where u: "err1 = None" "Tasks s1 (td_ID t) = Some u" "task_core u = task_core t" "dom (Tasks s1) = insert (td_ID t) (dom (Tasks s))"
    using enqueueTask_pending [OF first(1) _ _ s1] by auto
  have rest: "submit_tasks e (i + 1) tasks s1 = Runs (s', err)" using Cons.prems(4,5) s1 u(1) by simp
  have "tasks_kept s1 s'" using submit_tasks_inv [OF first(2) job1 first(4) rest] by blast
  then obtain v where "Tasks s' (td_ID t) = Some v" "task_core v = task_core t"
    using u(2,3) unfolding tasks_kept_def by metis
  with Cons.IH [OF first(2) job1 first(4) Cons.prems(4) rest] u(4) show ?case by auto
qed simp

lemma plan_tasks_planned:
  "plan_tasks ids j topic ty name ts = Ok tds \<Longrightarrow>
   map ChunkID tds = map etp_ID ts \<and> list_all (\<lambda>t. td_JobID t = j) tds \<and>
   list_all (\<lambda>t. \<exists>p \<in> set ts. ChunkID t = etp_ID p \<and> b64_DecodeString (etp_Stdin p) = Ok (td_Stdin t)) tds"
proof (induction ts arbitrary: ids tds)
  case (Cons p ts)
  then obtain b tds' where b: "b64_DecodeString (etp_Stdin p) = Ok b" "plan_tasks (\<lambda>n. ids (n + 1)) j topic ty name ts = Ok tds'"
    "tds = zero_task\<lparr>td_ID := ids 0, td_JobID := j, td_Name := name @ str ''-'' @ decimal (etp_ID p),
       td_Topic := topic, td_Type := ty, td_Stdin := b, ChunkID := etp_ID p\<rparr> # tds'"
    by (auto simp: obind_Ok_iff split: outcome.splits)
  with Cons.IH [OF b(2)] show ?case by (auto simp: list_all_iff)
qed simp

text \<open>The tasks of the job once its event has been handled.\<close>

lemma submit_stored:
  assumes "sched_inv s" "Jobs s (jd_ID jd) = None" "jd_Type jd = TypeBatch" "event_ok s (EventJobSubmitted jd tds)"
    and "\<forall>n. \<not> ctx_done e n" "handleEvent e s (EventJobSubmitted jd tds) = Runs (s', err)"
  shows "Jobs s' = (Jobs s)(jd_ID jd \<mapsto> jd)" "job_dir s' = job_dir s" "done_set s' (jd_ID jd) = {}"
    "\<And>i u. Tasks s' i = Some u \<Longrightarrow> td_JobID u = jd_ID jd \<Longrightarrow> \<exists>t \<in> set tds. td_ID t = i \<and> task_core u = task_core t"
    "\<forall>t \<in> set tds. \<exists>u. Tasks s' (td_ID t) = Some u \<and> task_core u = task_core t"
proof -
  let ?s = "s\<lparr>Jobs := (Jobs s)(jd_ID jd \<mapsto> jd)\<rparr>"
  have inv: "sched_inv ?s" using assms(1) by (auto simp: sched_inv_def intro: tasks_ok_jobs)
  have sub: "submit_tasks e 1 tds ?s = Runs (s', err)"
    using assms(2,3,5,6) TypeBatch_not_Stream by (simp add: handleEvent_def handle_submit_def)
  have ev: "all_new ?s (jd_ID jd) tds" using assms(4) by (simp add: event_ok_def all_new_def)
  have job: "Jobs ?s (jd_ID jd) \<noteq> None" by simp
  have kept: "tasks_kept ?s s'" "Jobs s' = Jobs ?s" using submit_tasks_inv [OF inv job ev sub] by blast+
  note stored = submit_tasks_stored [OF inv job ev assms(5) sub]
  have other: "td_JobID t \<noteq> jd_ID jd" if "Tasks s i = Some t" for i t
    using that assms(1,2) tasks_ok_fields(2) [of "Jobs s" "Tasks s" "batchTasks s" i t] by (auto simp: sched_inv_def)
  have old: "Tasks s i = None" if "Tasks s' i = Some u" "td_JobID u = jd_ID jd" for i u
  proof (cases "Tasks s i")
    case (Some t)
    with tasks_keptD [OF kept(1), of i t u] that other [OF Some] show ?thesis by (simp add: task_core_def)
  qed
  show "Jobs s' = (Jobs s)(jd_ID jd \<mapsto> jd)" using kept(2) by simp
  show "job_dir s' = job_dir s" using submit_tasks_dir [OF sub] by simp
  show "\<forall>t \<in> set tds. \<exists>u. Tasks s' (td_ID t) = Some u \<and> task_core u = task_core t" using stored by blast
  show "done_set s' (jd_ID jd) = {}" using kept(1) old unfolding done_set_def tasks_kept_def by fastforce
  show "\<exists>t \<in> set tds. td_ID t = i \<and> task_core u = task_core t" if u: "Tasks s' i = Some u" "td_JobID u = jd_ID jd" for i u
  proof -
    have "i \<in> dom (Tasks s) \<union> td_ID ` set tds" using stored u(1) by auto
    then obtain t where "t \<in> set tds" "td_ID t = i" using old [OF u] by auto
    with stored u(1) show ?thesis by force
  qed
qed

subsection \<open>Properties\<close>

text \<open>
  C12. A registration starts its job: when \<open>RegisterJob\<close> meets the three tasks of a specification in the order split, execute, merge and
  the event it sent is handled in any later state of the scheduler, the scheduler holds exactly one task
  for each entry of the plan, with the entry's number and decoded input, none of them done, and the job's
  directory holds the plan and the three binaries: the job is in the state from which its results are
  collected and from which a restart resumes it.
\<close>

theorem register_starts_job:
  assumes "reg_fine re job planBytes plan mapBinary reduceBinary tds" "spec_order re = [k_split, k_execute, k_merge]" "plan_ok plan"
    and "RegisterJob re job = Runs (st, rerr)" "ev \<in> set (rs_events st)"
    and "reach sched_init sched_step s" "Jobs s (random_id re 0) = None" "rs_dir st = Some (job_dir s (random_id re 0))"
    and "event_ok s ev" "\<forall>n. \<not> ctx_done e n" "handleEvent e s ev = Runs (s', err)"
  shows "submitted s' (random_id re 0) planBytes plan \<and> job_started (random_id re 0) plan reduceBinary s' \<and>
    snd ` job_chunks s' (random_id re 0) = etp_ID ` set (ep_Tasks plan) \<and> card (job_chunks s' (random_id re 0)) = length (ep_Tasks plan)"
proof -
  let ?j = "random_id re 0" and ?jd = "(planned_job re job plan mapBinary)\<lparr>MergerBinary := reduceBinary\<rparr>"
  obtain files where st: "ev = EventJobSubmitted ?jd tds" "rs_dir st = Some files"
    and files: "dom (map_of files) = insert plan_file job_binaries" "map_of files plan_file = Some planBytes"
      "sorted (map fst files)" "distinct (map fst files)"
    using register_in_order [OF assms(1,2)] assms(4,5) by auto
  have jd: "jd_ID ?jd = ?j" "jd_Type ?jd = TypeBatch" "TasksTotal ?jd = Total plan" "TasksDone ?jd = 0" "MergerBinary ?jd = reduceBinary"
    by (simp_all add: planned_job_def zero_job_def)
  note s' = submit_stored [OF sched.reach_inv [OF assms(6)], of ?jd tds e s' err, unfolded jd(1), OF assms(7) jd(2)
      assms(9) [unfolded st(1)] assms(10) assms(11) [unfolded st(1)]]
  obtain ty where "plan_tasks (\<lambda>n. random_id re (n + 1)) ?j (js_Topic job) ty (ep_Name plan) (ep_Tasks plan) = Ok tds"
    using assms(1) unfolding reg_fine_def by blast
  note tds = plan_tasks_planned [OF this]
  have ids: "map ChunkID tds = map int [0..<length (ep_Tasks plan)]" using tds assms(3) by (simp add: plan_ok_def)
  have chunks: "job_chunks s' ?j = (\<lambda>t. (td_ID t, ChunkID t)) ` set tds" (is "?l = ?r")
  proof
    show "?l \<subseteq> ?r" using s'(4) by (fastforce simp: job_chunks_def task_core_def)
    show "?r \<subseteq> ?l" using s'(5) tds by (fastforce simp: job_chunks_def task_core_def list_all_iff)
  qed
  have "distinct (map ChunkID tds)" unfolding ids by (simp add: distinct_map)
  then have inj: "inj_on ChunkID (set tds)" by (simp add: distinct_map)
  have snd_inj: "inj_on snd (job_chunks s' ?j)" unfolding chunks using inj by (auto simp: inj_on_def)
  have "set (map ChunkID tds) = set (map etp_ID (ep_Tasks plan))" using tds by simp
  then have ids': "snd ` job_chunks s' ?j = etp_ID ` set (ep_Tasks plan)" by (simp add: chunks image_image)
  have planned: "task_planned plan u" if "Tasks s' i = Some u" "td_JobID u = ?j" for i u
    using s'(4) [OF that] tds by (auto simp: task_planned_def list_all_iff task_core_def)
  have "card (snd ` job_chunks s' ?j) = length (ep_Tasks plan)"
    unfolding ids' plan_ids [OF assms(3)] by (simp add: card_image)
  then have card': "card (job_chunks s' ?j) = length (ep_Tasks plan)" unfolding card_image [OF snd_inj] .
  have dir: "job_dir s' ?j = files" using s'(2) assms(8) st(2) by simp
  have "submitted s' ?j planBytes plan"
    using s'(1,3) jd snd_inj ids' files assms(3) by (simp add: submitted_def dir_map_def dir)
  moreover have "job_started ?j plan reduceBinary s'"
    using s'(1,3) jd snd_inj planned files by (auto simp: job_started_def dir_map_def dir)
  ultimately show ?thesis using ids' card' by blast
qed


theorem register_starts_job_witness:
  "\<exists>st ev s s'. RegisterJob (example_reg [k_split, k_execute, k_merge]) example_spec = Runs (st, None) \<and> rs_events st = [ev] \<and>
     reach sched_init sched_step s \<and> handleEvent example_env s ev = Runs (s', None) \<and>
     card (job_chunks s' (id_of_nat 0)) = length (ep_Tasks two_plan)"
proof -
  let ?e = "example_reg [k_split, k_execute, k_merge]"
  obtain tds where f: "reg_fine ?e example_spec [1] two_plan [0] [0] tds" using example_reg_fine by blast
  have ok: "plan_ok two_plan" by (simp add: plan_ok_def two_plan_def b64_DecodeString_def)
  have o: "spec_order ?e = [k_split, k_execute, k_merge]" and id: "random_id ?e = id_of_nat" by (simp_all add: example_reg_def)
  let ?jd = "(planned_job ?e example_spec two_plan [0])\<lparr>MergerBinary := [0]\<rparr>"
  obtain st files where st: "RegisterJob ?e example_spec = Runs (st, None)" "rs_events st = [EventJobSubmitted ?jd tds]" "rs_dir st = Some files"
    using register_in_order [OF f o] by blast
  let ?s = "NewScheduler\<lparr>job_dir := (job_dir NewScheduler)(id_of_nat 0 := files)\<rparr>"
  have "reach sched_init sched_step NewScheduler" by (rule reach_init) (simp add: sched_init_def)
  moreover have "sched_step NewScheduler ?s" by (rule sched_register) (simp add: NewScheduler_def)
  ultimately have r: "reach sched_init sched_step ?s" by (rule reach_step)
  have jd: "jd_ID ?jd = id_of_nat 0" "jd_Type ?jd = TypeBatch" by (simp_all add: planned_job_def id)
  obtain ty where "plan_tasks (\<lambda>n. random_id ?e (n + 1)) (random_id ?e 0) (js_Topic example_spec) ty (ep_Name two_plan) (ep_Tasks two_plan) = Ok tds"
    using f unfolding reg_fine_def by blast
  then have tds: "map td_ID tds = [id_of_nat 1, id_of_nat 2]" "list_all (\<lambda>t. td_JobID t = id_of_nat 0 \<and> fresh_task t) tds"
    by (auto simp: two_plan_def id obind_Ok_iff zero_task_def fresh_task_def b64_DecodeString_def numeral_2_eq_2)
  have ev: "event_ok ?s (EventJobSubmitted ?jd tds)"
    using tds by (auto simp: event_ok_def jd NewScheduler_def list_all_iff fresh_task_def id_of_nat_eq_iff)
  have "\<exists>s'. handleEvent example_env ?s (EventJobSubmitted ?jd tds) = Runs (s', None)"
    using submit_fresh [of tds example_env "?s\<lparr>Jobs := (Jobs ?s)(jd_ID ?jd \<mapsto> ?jd)\<rparr>" 1] tds jd TypeBatch_not_Stream
    by (auto simp: handleEvent_def handle_submit_def NewScheduler_def example_env_def taskQueueSize_def list_all_iff dest: arg_cong [where f = length])
  then obtain s' where s': "handleEvent example_env ?s (EventJobSubmitted ?jd tds) = Runs (s', None)" ..
  have "card (job_chunks s' (random_id ?e 0)) = length (ep_Tasks two_plan)"
    using register_starts_job [OF f o ok st(1) _ r _ _ ev _ s'] st(2,3)
    by (simp add: id NewScheduler_def example_env_def)
  with st(1,2) r s' show ?thesis unfolding id by blast
qed

end
