(* ===== verification/Lease_Answers.thy ===== *)
theory Lease_Answers
  imports Scheduler_Properties
begin

text \<open>
  What workers are told: every answer the scheduler sends to a lease request decodes to a task, and a batch task carries the identifier and the
  input of a task the scheduler holds and the binary of its job (\<open>leased\<close>). \<open>lease_inv\<close> says so of all answers that were ever sent; it is
  kept by every event, because tasks and jobs keep these fields for ever (\<open>carried\<close>). Byte strings are shorter than
  \<open>2\<^sup>6\<^sup>4\<close>, the largest length the wire format can express (\<open>sizes_ok\<close>).
\<close>

definition leased :: "Scheduler \<Rightarrow> Task \<Rightarrow> bool" where
  "leased s task \<longleftrightarrow>
     (\<exists>t job. Tasks s (TaskID task) = Some t \<and> Jobs s (td_JobID t) = Some job \<and>
        Binary task = jd_Binary job \<and> Stdin task = td_Stdin t)"

definition answer_ok :: "nat \<Rightarrow> Scheduler \<Rightarrow> bytes \<Rightarrow> bool" where
  "answer_ok mem s p \<longleftrightarrow>
     (\<exists>task. DecodeTask mem p = Ok task \<and> (Type task = TaskTypeBatch \<longrightarrow> leased s task))"

definition answers_ok :: "nat \<Rightarrow> Scheduler \<Rightarrow> (nat \<times> leaseResponse) list \<Rightarrow> bool" where
  "answers_ok mem s rs \<longleftrightarrow> list_all (\<lambda>(ch, r). lr_err r = None \<longrightarrow> answer_ok mem s (payload r)) rs"

definition fits_task :: "TaskDescription \<Rightarrow> bool" where
  "fits_task t \<longleftrightarrow> fits (td_Type t) \<and> fits (td_Topic t) \<and> fits (td_Stdin t)"

definition fits_job :: "JobDescription \<Rightarrow> bool" where
  "fits_job job \<longleftrightarrow> fits (jd_Binary job) \<and> fits (jd_Topic job)"

definition sizes_ok :: "Scheduler \<Rightarrow> bool" where
  "sizes_ok s \<longleftrightarrow> (\<forall>i t. Tasks s i = Some t \<longrightarrow> fits_task t) \<and> (\<forall>j job. Jobs s j = Some job \<longrightarrow> fits_job job) \<and>
     (\<forall>j job. streamTasks s j = Some job \<longrightarrow> fits_job job)"

definition event_fits :: "Event \<Rightarrow> bool" where
  "event_fits ev \<longleftrightarrow> (case ev of EventJobSubmitted job tasks \<Rightarrow> fits_job job \<and> list_all fits_task tasks | _ \<Rightarrow> True)"

definition lease_inv :: "nat \<Rightarrow> Scheduler \<Rightarrow> bool" where
  "lease_inv mem s \<longleftrightarrow> sched_inv s \<and> sizes_ok s \<and> answers_ok mem s (responses s)"

text \<open>Tasks and jobs keep what workers were told of them.\<close>

definition carried :: "Scheduler \<Rightarrow> Scheduler \<Rightarrow> bool" where
  "carried s s' \<longleftrightarrow>
     (\<forall>i t. Tasks s i = Some t \<longrightarrow> (\<exists>t'. Tasks s' i = Some t' \<and> task_core t' = task_core t)) \<and>
     (\<forall>j job. Jobs s j = Some job \<longrightarrow> (\<exists>job'. Jobs s' j = Some job' \<and> jd_Binary job' = jd_Binary job))"

lemma carried_kept: "tasks_kept s s' \<Longrightarrow> \<forall>j job. Jobs s j = Some job \<longrightarrow> Jobs s' j = Some job \<Longrightarrow> carried s s'"
  unfolding carried_def tasks_kept_def by blast

lemma carried_trans: "carried s t \<Longrightarrow> carried t u \<Longrightarrow> carried s u"
  unfolding carried_def by metis

lemma carried_step:
  assumes "sched_inv s" "sched_step s s'"
  shows "carried s s'"
  using assms
proof (cases rule: sched_step_effect)
  case kept
  then show ?thesis by (rule carried_kept)
next
  case (finish i t t' job)
  then show ?thesis by (auto simp: carried_def)
qed

lemma leased_carried: "leased s task \<Longrightarrow> carried s s' \<Longrightarrow> leased s' task"
  unfolding leased_def carried_def by (metis task_core_eqD)

lemma answers_ok_carried: "answers_ok mem s rs \<Longrightarrow> carried s s' \<Longrightarrow> answers_ok mem s' rs"
  unfolding answers_ok_def answer_ok_def list_all_iff by (fastforce intro: leased_carried)

lemma answers_ok_append [simp]: "answers_ok mem s (rs @ rs') \<longleftrightarrow> answers_ok mem s rs \<and> answers_ok mem s rs'"
  by (simp add: answers_ok_def)

lemma lease_inv_step:
  assumes "lease_inv mem s" "sched_inv s'" "carried s s'" "sizes_ok s'" "responses s' = responses s @ new" "answers_ok mem s' new"
  shows "lease_inv mem s'"
  using assms answers_ok_carried by (auto simp: lease_inv_def)

subsection \<open>The two kinds of answers\<close>

lemma DecodeTask_plain:
  assumes "wf_task mem t" "TTL t = 0"
  shows "DecodeTask mem (EncodeTask t) = Ok t"
  using DecodeTask_EncodeTask [OF assms(1), of "[]"] assms(2) by (simp add: Duration_Abs_def)

lemma answer_response_task:
  assumes "Tasks s (td_ID t) = Some u" "task_core u = task_core t" "Jobs s (td_JobID t) = Some job" "fits_task t" "fits_job job"
  shows "answer_ok mem s (EncodeTask (response_task t job))"
proof -
  have "wf_task mem (response_task t job)"
    using assms(4,5) by (simp add: wf_task_def wf_header_def wf_section_def response_task_def fits_task_def fits_job_def)
  then have "DecodeTask mem (EncodeTask (response_task t job)) = Ok (response_task t job)"
    by (rule DecodeTask_plain) (simp add: response_task_def)
  moreover have "leased s (response_task t job)"
    using assms(1-3) by (auto simp: leased_def response_task_def dest: task_core_eqD)
  ultimately show ?thesis by (simp add: answer_ok_def)
qed

lemma batch_not_stream_type: "TaskTypeStream \<noteq> TaskTypeBatch"
  by (simp add: TaskTypeStream_def TaskTypeBatch_def str_def)

lemma answer_stream_task:
  assumes "fits_job job"
  shows "answer_ok mem s (EncodeTask (stream_task job))"
proof -
  have "wf_task mem (stream_task job)"
    using assms by (simp add: wf_task_def wf_header_def wf_section_def stream_task_def fits_job_def TaskTypeStream_def str_def)
  then have "DecodeTask mem (EncodeTask (stream_task job)) = Ok (stream_task job)"
    by (rule DecodeTask_plain) (simp add: stream_task_def)
  then show ?thesis using batch_not_stream_type by (simp add: answer_ok_def stream_task_def)
qed

subsection \<open>Every event keeps the invariant\<close>

lemma fits_task_core: "task_core t' = task_core t \<Longrightarrow> fits_task t \<Longrightarrow> fits_task t'"
  by (simp add: fits_task_def task_core_def)

lemma sizes_ok_set:
  assumes "sizes_ok s" "Tasks s i = Some t" "task_core t' = task_core t"
    and "Tasks s' = (Tasks s)(i \<mapsto> t')" "Jobs s' = Jobs s" "streamTasks s' = streamTasks s"
  shows "sizes_ok s'"
  using assms fits_task_core by (auto simp: sizes_ok_def)

lemma carried_set:
  assumes "Tasks s i = Some t" "task_core t' = task_core t" "Tasks s' = (Tasks s)(i \<mapsto> t')" "Jobs s' = Jobs s"
  shows "carried s s'"
  using assms by (auto simp: carried_def)

text \<open>An event that changes one task without touching what it is, and may answer with that task.\<close>

lemma lease_inv_set:
  assumes "lease_inv mem s" "sched_inv s'" "Tasks s i = Some t" "task_core t' = task_core t"
    and "Tasks s' = (Tasks s)(i \<mapsto> t')" "Jobs s' = Jobs s" "streamTasks s' = streamTasks s"
    and "responses s' = responses s @ new"
    and "new = [] \<or> (\<exists>ch job. Jobs s (td_JobID t) = Some job \<and> td_ID t = i \<and>
      new = [(ch, \<lparr>payload = EncodeTask (response_task t job), lr_err = None\<rparr>)])"
  shows "lease_inv mem s'"
proof (rule lease_inv_step [OF assms(1,2) _ _ assms(8)])
  have inv: "sizes_ok s" using assms(1) by (simp add: lease_inv_def)
  show "carried s s'" by (rule carried_set [OF assms(3-6)])
  show "sizes_ok s'" by (rule sizes_ok_set [OF inv assms(3-7)])
  have "answer_ok mem s' (EncodeTask (response_task t job))" if "Jobs s (td_JobID t) = Some job" "td_ID t = i" for job
    using that inv assms(3-6) by (intro answer_response_task [where u = t']) (auto simp: sizes_ok_def)
  with assms(9) show "answers_ok mem s' new" by (auto simp: answers_ok_def)
qed

lemma enqueueTask_lease_inv:
  assumes "lease_inv mem s" "enqueueTask e s i = Runs (s', err)"
  shows "lease_inv mem s'"
proof (cases "Tasks s i")
  case None
  with assms show ?thesis by (simp add: enqueueTask_def)
next
  case (Some t)
  have inv: "sched_inv s" using assms(1) by (simp add: lease_inv_def)
  then have ok: "tasks_ok (Jobs s) (Tasks s) (batchTasks s)" by (simp add: sched_inv_def)
  have inv': "sched_inv s'" by (rule enqueueTask_inv [OF inv assms(2)])
  have id: "td_ID t = i" using tasks_ok_fields(1) [OF ok Some] .
  show ?thesis
  proof (rule enqueueTask_cases [OF ok Some, of e])
    fix r gone rest st job
    assume job: "Jobs s (td_JobID t) = Some job" and eq: "enqueueTask e s i = Runs (s\<lparr>Tasks := (Tasks s)(i \<mapsto> dispatched e t), pendingLeaseRequests := rest,
         stats := st, responses := responses s @ [(responseChan r, \<lparr>payload = EncodeTask (response_task t job), lr_err = None\<rparr>)]\<rparr>, None)"
    show ?thesis
      by (rule lease_inv_set [OF assms(1) inv' Some, of "dispatched e t" "[(responseChan r, \<lparr>payload = EncodeTask (response_task t job), lr_err = None\<rparr>)]"])
        (use eq assms(2) job id in auto)
  next
    fix t' st
    assume eq: "t' = t\<lparr>td_State := StatePending, Queued := True, EnqueuedAt := now e\<rparr>"
      "enqueueTask e s i = Runs (s\<lparr>Tasks := (Tasks s)(i \<mapsto> t'), pendingLeaseRequests := [], batchTasks := batchTasks s @ [i], stats := st\<rparr>, None)"
    show ?thesis by (rule lease_inv_set [OF assms(1) inv' Some, of t' "[]"]) (use eq assms(2) in auto)
  qed (use assms in auto)
qed

lemma tick_tasks_lease_inv: "lease_inv mem s \<Longrightarrow> tick_tasks e order s = Runs (s', err) \<Longrightarrow> lease_inv mem s'"
proof (induction order arbitrary: s)
  case (Cons i order)
  then show ?case
    by (auto split: option.splits if_splits progress.splits dest: enqueueTask_lease_inv)
qed simp

lemma lease_inv_frame:
  assumes "lease_inv mem s" "sched_inv s'" "Tasks s' = Tasks s" "Jobs s' = Jobs s" "streamTasks s' = streamTasks s" "responses s' = responses s"
  shows "lease_inv mem s'"
  by (rule lease_inv_step [OF assms(1,2), where new = "[]"])
    (use assms in \<open>auto simp: lease_inv_def carried_def sizes_ok_def answers_ok_def\<close>)

lemma handle_tick_lease_inv:
  assumes "lease_inv mem s" "handle_tick e s = Runs (s', err)"
  shows "lease_inv mem s'"
proof -
  let ?s = "s\<lparr>pendingLeaseRequests := filter (\<lambda>req. \<not> lease_expired e (responseChan req)) (pendingLeaseRequests s)\<rparr>"
  have "sched_inv ?s" using assms(1) by (auto simp: lease_inv_def sched_inv_def leases_filter)
  then have "lease_inv mem ?s" by (intro lease_inv_frame [OF assms(1)]) simp_all
  with assms(2) show ?thesis by (auto simp: handle_tick_def intro: tick_tasks_lease_inv)
qed

lemma submit_tasks_lease_inv:
  assumes "lease_inv mem s" "Jobs s job \<noteq> None" "all_new s job tasks" "list_all fits_task tasks"
    and "submit_tasks e i tasks s = Runs (s', err)"
  shows "lease_inv mem s'"
  using assms
proof (induction tasks arbitrary: s i)
  case (Cons t tasks)
  let ?s = "set_task (td_ID t) t s"
  show ?case
  proof (cases "ctx_done e i")
    case False
    then obtain s1 err1 where s1: "enqueueTask e ?s (td_ID t) = Runs (s1, err1)"
      using Cons.prems(5) by (auto split: progress.splits)
    have inv: "sched_inv s" using Cons.prems(1) by (simp add: lease_inv_def)
    note first = submit_first [OF inv Cons.prems(2,3) s1]
    have "carried s ?s" using Cons.prems(3) by (auto simp: carried_def all_new_def)
    moreover have "sizes_ok ?s" using Cons.prems(1,4) by (auto simp: lease_inv_def sizes_ok_def)
    ultimately have "lease_inv mem ?s"
      by (intro lease_inv_step [OF Cons.prems(1) first(1), where new = "[]"]) (simp_all add: answers_ok_def)
    then have inv1: "lease_inv mem s1" using s1 by (rule enqueueTask_lease_inv)
    show ?thesis
    proof (cases err1)
      case None
      with Cons.IH [OF inv1 _ first(4), of "i + 1"] Cons.prems(2,4,5) False s1 first(3) show ?thesis by simp
    next
      case (Some x)
      with Cons.prems(5) False s1 inv1 show ?thesis by simp
    qed
  qed (use Cons.prems(1,5) in simp)
qed simp

lemma handle_submit_lease_inv:
  assumes "lease_inv mem s" "event_ok s (EventJobSubmitted job tasks)" "event_fits (EventJobSubmitted job tasks)"
    and "handle_submit e s job tasks = Runs (s', err)"
  shows "lease_inv mem s'"
proof (cases "Jobs s (jd_ID job)")
  case None
  let ?s = "s\<lparr>Jobs := (Jobs s)(jd_ID job \<mapsto> job)\<rparr>"
  have inv: "sched_inv s" "sizes_ok s" using assms(1) by (simp_all add: lease_inv_def)
  have fit: "fits_job job" "list_all fits_task tasks" using assms(3) by (simp_all add: event_fits_def)
  have inv': "sched_inv ?s" using inv(1) by (auto simp: sched_inv_def intro: tasks_ok_jobs)
  have c: "carried s ?s" using None by (auto simp: carried_def)
  have "sizes_ok ?s" using inv(2) fit(1) by (auto simp: sizes_ok_def)
  with inv' c have base: "lease_inv mem ?s" by (intro lease_inv_step [OF assms(1), where new = "[]"]) (simp_all add: answers_ok_def)
  consider "jd_Type job = TypeStream" | "jd_Type job \<noteq> TypeStream" "jd_Type job = TypeBatch" | "jd_Type job \<noteq> TypeStream" "jd_Type job \<noteq> TypeBatch"
    by blast
  then show ?thesis
  proof cases
    case 1
    then have s': "s' = ?s\<lparr>streamTasks := (streamTasks s)(jd_ID job \<mapsto> job)\<rparr>" using assms(4) None by (simp add: handle_submit_def)
    have "sched_inv s'" unfolding s' by (rule sched_inv_cong [OF inv']) simp_all
    moreover have "carried ?s s'" "sizes_ok s'" using base fit(1) by (auto simp: s' carried_def sizes_ok_def lease_inv_def)
    ultimately show ?thesis by (intro lease_inv_step [OF base, where new = "[]"]) (simp_all add: s' answers_ok_def)
  next
    case 2
    then have "submit_tasks e 1 tasks ?s = Runs (s', err)" using assms(4) None by (simp add: handle_submit_def)
    moreover have "all_new ?s (jd_ID job) tasks" using assms(2) by (simp add: event_ok_def all_new_def)
    ultimately show ?thesis by (intro submit_tasks_lease_inv [OF base _ _ fit(2), where job = "jd_ID job"]) simp_all
  next
    case 3
    with assms(4) None base show ?thesis by (simp add: handle_submit_def)
  qed
qed (use assms(1,4) in \<open>simp add: handle_submit_def\<close>)

lemma handle_lease_lease_inv:
  assumes "lease_inv mem s" "responseChan r \<notin> set (map responseChan (pendingLeaseRequests s) @ map fst (responses s))"
  shows "lease_inv mem (fst (handle_lease e s r))"
proof (cases "batchTasks s")
  case Nil
  have inv: "sched_inv s" "sizes_ok s" using assms(1) by (simp_all add: lease_inv_def)
  have inv': "sched_inv (fst (handle_lease e s r))" by (rule handle_lease_inv [OF inv(1) assms(2)])
  let ?P = "\<lambda>j. case streamTasks s j of None \<Rightarrow> False | Some desc \<Rightarrow> list_ex (\<lambda>tag. tag \<in> set (Tags (lr_request r))) (TargetTags desc)"
  show ?thesis
  proof (cases "task_RequestMode (lr_request r) = RequestModeNeedBatch \<or> List.find ?P (stream_order e) = None")
    case True
    with Nil have "Tasks (fst (handle_lease e s r)) = Tasks s \<and> Jobs (fst (handle_lease e s r)) = Jobs s \<and>
        streamTasks (fst (handle_lease e s r)) = streamTasks s \<and> responses (fst (handle_lease e s r)) = responses s"
      by (auto simp: handle_lease_def)
    then show ?thesis by (intro lease_inv_frame [OF assms(1) inv']) blast+
  next
    case False
    then obtain j where j: "List.find ?P (stream_order e) = Some j" by blast
    then obtain d where d: "streamTasks s j = Some d" by (auto simp: find_Some_iff split: option.splits)
    have s': "fst (handle_lease e s r) =
        s\<lparr>responses := responses s @ [(responseChan r, \<lparr>payload = EncodeTask (stream_task d), lr_err = None\<rparr>)]\<rparr>"
      using Nil False j d by (simp add: handle_lease_def send_response_def)
    have "answer_ok mem (fst (handle_lease e s r)) (EncodeTask (stream_task d))"
      using inv(2) d by (intro answer_stream_task) (auto simp: sizes_ok_def)
    then show ?thesis
      by (intro lease_inv_step [OF assms(1) inv']) (use inv(2) in \<open>auto simp: s' carried_def sizes_ok_def answers_ok_def\<close>)
  qed
next
  case (Cons i rest)
  have inv: "sched_inv s" using assms(1) by (simp add: lease_inv_def)
  then have ok: "tasks_ok (Jobs s) (Tasks s) (i # rest)" using Cons by (simp add: sched_inv_def)
  then obtain t where t: "Tasks s i = Some t" "Queued t" unfolding tasks_ok_def by (metis list.set_intros(1))
  note f = tasks_ok_fields [OF ok t(1)]
  obtain job where job: "Jobs s (td_JobID t) = Some job" using f(2) by blast
  let ?u = "s\<lparr>batchTasks := rest\<rparr>"
  obtain st where st: "fst (markTaskDispatched e ?u i) = ?u\<lparr>Tasks := (Tasks ?u)(i \<mapsto> dispatched e t), stats := st\<rparr>"
    using markTaskDispatched_pending [of ?u i t e] t f(3) by auto
  have id: "(response_task t job)\<lparr>TaskID := i\<rparr> = response_task t job" using f(1) by (simp add: response_task_def)
  show ?thesis
    by (rule lease_inv_set [OF assms(1) handle_lease_inv [OF inv assms(2)] t(1), of "dispatched e t"
          _ "[(responseChan r, \<lparr>payload = EncodeTask (response_task t job), lr_err = None\<rparr>)]"])
      (use Cons t(1) job st id f(1) in \<open>auto simp: handle_lease_def Let_def send_response_def\<close>)
qed

lemma markTaskDone_lease_inv:
  assumes "lease_inv mem s" "sched_inv s'" "carried s s'" "markTaskDone e s i result = Runs (s', err)"
  shows "lease_inv mem s'"
  using assms(4)
proof (cases rule: markTaskDone_cases)
  case (done_now t t' job st d)
  have inv: "sizes_ok s" using assms(1) by (simp add: lease_inv_def)
  with done_now have "task_core t' = task_core t" "fits_task t" "fits_job job" by (auto simp: sizes_ok_def)
  with done_now inv have "sizes_ok s'" using fits_task_core by (auto simp: sizes_ok_def fits_job_def)
  with done_now assms(3) show ?thesis by (intro lease_inv_step [OF assms(1,2), where new = "[]"]) (simp_all add: answers_ok_def)
qed (use assms(1) in simp)

lemma markTaskDispatchFailed_lease_inv:
  assumes "lease_inv mem s" "sched_inv s'" "markTaskDispatchFailed e s i = Runs (s', err)"
  shows "lease_inv mem s'"
proof (cases "\<exists>t. Tasks s i = Some t \<and> td_State t = StateRunning")
  case True
  then obtain t where t: "Tasks s i = Some t" "td_State t = StateRunning" by blast
  with assms(3) obtain d where s': "s' = add_stat IncDispatchFailed (set_task i
      (t\<lparr>td_State := StatePending, Attempts := Attempts t + 1, BackoffUntil := d, LeaseUntil := 0, Queued := False\<rparr>) s)"
    by (auto simp: markTaskDispatchFailed_def Let_def split: outcome.splits)
  show ?thesis
    by (rule lease_inv_set [OF assms(1) assms(2) t(1), where new = "[]",
          of "t\<lparr>td_State := StatePending, Attempts := Attempts t + 1, BackoffUntil := d, LeaseUntil := 0, Queued := False\<rparr>"])
      (simp_all add: s' add_stat_def)
next
  case False
  then have "s' = s"
    using assms(3) by (cases "Tasks s i") (auto simp: markTaskDispatchFailed_def split: if_splits, metis TaskState.exhaust)
  with assms(1) show ?thesis by simp
qed

lemma handleEvent_lease_inv:
  assumes "lease_inv mem s" "event_ok s ev" "event_fits ev" "handleEvent e s ev = Runs (s', err)"
  shows "lease_inv mem s'"
proof (cases "ctx_done e 0")
  case True
  with assms(1,4) show ?thesis by (simp add: handleEvent_def)
next
  case False
  have inv: "sched_inv s" "sizes_ok s" using assms(1) by (simp_all add: lease_inv_def)
  have step: "sched_step s s'" using assms(2,4) by (rule sched_event)
  have inv': "sched_inv s'" by (rule sched.inv_step [OF inv(1) step])
  have c: "carried s s'" by (rule carried_step [OF inv(1) step])
  show ?thesis
  proof (cases ev)
    case EventTick
    with assms(1,4) False show ?thesis by (auto simp: handleEvent_def intro: handle_tick_lease_inv)
  next
    case (EventJobSubmitted job tasks)
    with assms False show ?thesis by (auto simp: handleEvent_def intro: handle_submit_lease_inv)
  next
    case (EventLeaseRequest r)
    have "lease_inv mem (fst (handle_lease e s r))" by (rule handle_lease_lease_inv) (use assms(1,2) EventLeaseRequest in \<open>simp_all add: event_ok_def\<close>)
    with EventLeaseRequest assms(4) False show ?thesis by (auto simp: handleEvent_def)
  next
    case (EventJobDone k)
    with assms(4) False have "markJobDone e s k = Runs (s', err)" by (simp add: handleEvent_def)
    then show ?thesis by (rule markJobDone_frame) (use lease_inv_frame [OF assms(1) inv'] in simp)
  next
    case (EventTaskDone i result)
    with assms(4) False have "markTaskDone e s i result = Runs (s', err)" by (simp add: handleEvent_def)
    then show ?thesis by (rule markTaskDone_lease_inv [OF assms(1) inv' c])
  next
    case (EventTaskDispatchFailed i)
    then obtain err' where "markTaskDispatchFailed e s i = Runs (s', err')"
      using assms(4) False by (auto simp: handleEvent_def split: progress.splits)
    then show ?thesis by (rule markTaskDispatchFailed_lease_inv [OF assms(1) inv'])
  qed
qed

end
