(* ===== verification/Cluster.thy ===== *)
theory Cluster
  imports Job_Output Lease_Answers
begin

text \<open>
  The whole system as one machine: the scheduler, any number of workers, and the messages between them.
  \<^item> \<open>cluster\<close> is the scheduler's state, the state of every worker, and every message a worker has sent. Messages are never taken away,
    so one may be delivered late, twice, out of order or never; a worker that takes no further step has crashed, and workers may join at any time.
  \<^item> \<open>cl_step\<close> is one action: an event that does not come from a worker (a tick, a submission), files written by a registration, a
    worker that joins, polls, receives an answer of the scheduler or does some internal work, and the arrival of a message at \<open>HandleMessage\<close>,
    whose event the loop then handles. Events are handled in surroundings that satisfy \<open>E\<close>.
  \<^item> The scheduler runs from its start to the state that is looked at: its restart is not a step. Only the reload of a restart sends \<open>EventJobDone\<close>; the ticker,
    registrations (\<open>RegisterJob_events\<close>) and messages (\<open>HandleMessage_events\<close>) do not, so \<open>outside j\<close> excludes it for the job \<open>j\<close>. What a restart makes of a job is
    the subject of \<open>Job_Properties\<close> and, for a job without tasks, of the root theory.
  \<^item> No byte string is longer than the wire format can express.
  The invariant \<open>cl_inv\<close> says that the workers know only tasks of the scheduler and that every result on its way is what the
  runtime returned for the input of its task. So the events of workers are honest, and the cluster implements the specification of a job in
  \<open>Job_Output\<close>. \<open>j\<close> is the job that is looked at; \<open>mem\<close> is the memory of a process and \<open>exec\<close> the runtime.
\<close>

record cluster =
  cl_sched :: Scheduler
  cl_workers :: "worker_state list"
  cl_net :: "bytes list"

definition outside :: "NodeId \<Rightarrow> Event \<Rightarrow> bool" where
  "outside j ev \<longleftrightarrow> (case ev of EventTaskDone _ _ \<Rightarrow> False | EventJobDone k \<Rightarrow> k \<noteq> j | _ \<Rightarrow> True)"

inductive cl_step :: "nat \<Rightarrow> (bytes \<Rightarrow> bytes \<Rightarrow> bytes outcome) \<Rightarrow> (sched_env \<Rightarrow> bool) \<Rightarrow> NodeId \<Rightarrow> cluster \<Rightarrow> cluster \<Rightarrow> bool"
  for mem exec E j where
  cl_event: "E e \<Longrightarrow> outside j ev \<Longrightarrow> event_ok (cl_sched c) ev \<Longrightarrow> event_fits ev \<Longrightarrow>
    handleEvent e (cl_sched c) ev = Runs (s', err) \<Longrightarrow> cl_step mem exec E j c (c\<lparr>cl_sched := s'\<rparr>)"
| cl_register: "Jobs (cl_sched c) k = None \<Longrightarrow>
    cl_step mem exec E j c (c\<lparr>cl_sched := (cl_sched c)\<lparr>job_dir := (job_dir (cl_sched c))(k := files)\<rparr>\<rparr>)"
| cl_join: "w_init w \<Longrightarrow> cl_step mem exec E j c (c\<lparr>cl_workers := cl_workers c @ [w]\<rparr>)"
| cl_poll: "w \<in> set (cl_workers c) \<Longrightarrow> fetcher w = Polling \<Longrightarrow>
    cl_step mem exec E j c (c\<lparr>cl_net := cl_net c @ [EncodeTask (fetch_request (worker w))]\<rparr>)"
| cl_message: "m \<in> set (cl_net c) \<Longrightarrow> ev \<in> set (snd (HandleMessage mem ch wait m)) \<Longrightarrow> E e \<Longrightarrow> event_ok (cl_sched c) ev \<Longrightarrow>
    handleEvent e (cl_sched c) ev = Runs (s', err) \<Longrightarrow> cl_step mem exec E j c (c\<lparr>cl_sched := s'\<rparr>)"
| cl_fetch: "i < length (cl_workers c) \<Longrightarrow> w = cl_workers c ! i \<Longrightarrow> fetcher w = Polling \<Longrightarrow> (ch, r) \<in> set (responses (cl_sched c)) \<Longrightarrow>
    lr_err r = None \<Longrightarrow> fetch_response mem (worker w) (Ok (payload r)) = FetchPush task \<Longrightarrow>
    cl_step mem exec E j c (c\<lparr>cl_workers := (cl_workers c)[i := w\<lparr>fetcher := Pushing task, received := received w @ [task]\<rparr>]\<rparr>)"
| cl_work: "i < length (cl_workers c) \<Longrightarrow> w = cl_workers c ! i \<Longrightarrow> w_step mem exec w w' \<Longrightarrow> received w' = received w \<Longrightarrow>
    list_all (\<lambda>r. fits (er_Result r)) (sent w') \<Longrightarrow>
    cl_step mem exec E j c (c\<lparr>cl_workers := (cl_workers c)[i := w'],
      cl_net := cl_net c @ map result_message (drop (length (sent w)) (sent w'))\<rparr>)"

inductive_cases cl_stepE: "cl_step mem exec E j c c'"

definition cl_init :: "cluster \<Rightarrow> bool" where
  "cl_init c \<longleftrightarrow> c = \<lparr>cl_sched = NewScheduler, cl_workers = [], cl_net = []\<rparr>"

subsection \<open>The invariant\<close>

definition result_of :: "(bytes \<Rightarrow> bytes \<Rightarrow> bytes outcome) \<Rightarrow> Scheduler \<Rightarrow> NodeId \<Rightarrow> bytes \<Rightarrow> bool" where
  "result_of exec s i r \<longleftrightarrow>
     (\<exists>t job. Tasks s i = Some t \<and> Jobs s (td_JobID t) = Some job \<and> exec (jd_Binary job) (td_Stdin t) = Ok r)"

definition report_ok :: "nat \<Rightarrow> (bytes \<Rightarrow> bytes \<Rightarrow> bytes outcome) \<Rightarrow> Scheduler \<Rightarrow> bytes \<Rightarrow> bool" where
  "report_ok mem exec s m \<longleftrightarrow>
     (\<forall>task. DecodeTask mem m = Ok task \<and> task_OpCode task = ExecutionResponse \<longrightarrow> result_of exec s (TaskID task) (Result task))"

definition worker_ok :: "(bytes \<Rightarrow> bytes \<Rightarrow> bytes outcome) \<Rightarrow> Scheduler \<Rightarrow> worker_state \<Rightarrow> bool" where
  "worker_ok exec s w \<longleftrightarrow> flow_ok exec w \<and> list_all (leased s) (received w)"

definition cl_inv :: "nat \<Rightarrow> (bytes \<Rightarrow> bytes \<Rightarrow> bytes outcome) \<Rightarrow> cluster \<Rightarrow> bool" where
  "cl_inv mem exec c \<longleftrightarrow> lease_inv mem (cl_sched c) \<and> list_all (worker_ok exec (cl_sched c)) (cl_workers c) \<and>
     list_all (report_ok mem exec (cl_sched c)) (cl_net c)"

lemma result_of_carried:
  assumes "result_of exec s i r" "carried s s'"
  shows "result_of exec s' i r"
proof -
  obtain t job where t: "Tasks s i = Some t" "Jobs s (td_JobID t) = Some job" "exec (jd_Binary job) (td_Stdin t) = Ok r"
    using assms(1) by (auto simp: result_of_def)
  obtain t' job' where "Tasks s' i = Some t'" "task_core t' = task_core t" "Jobs s' (td_JobID t) = Some job'" "jd_Binary job' = jd_Binary job"
    using assms(2) t(1,2) unfolding carried_def by blast
  with t(3) show ?thesis by (auto simp: result_of_def dest: task_core_eqD)
qed

lemma report_ok_carried: "report_ok mem exec s m \<Longrightarrow> carried s s' \<Longrightarrow> report_ok mem exec s' m"
  by (auto simp: report_ok_def intro: result_of_carried)

lemma worker_ok_carried: "worker_ok exec s w \<Longrightarrow> carried s s' \<Longrightarrow> worker_ok exec s' w"
  unfolding worker_ok_def list_all_iff by (auto intro: leased_carried)

lemma cl_inv_sched:
  "cl_inv mem exec c \<Longrightarrow> lease_inv mem s' \<Longrightarrow> carried (cl_sched c) s' \<Longrightarrow> cl_inv mem exec (c\<lparr>cl_sched := s'\<rparr>)"
  by (auto simp: cl_inv_def list_all_iff intro: report_ok_carried worker_ok_carried)

lemma cl_inv_event:
  assumes "cl_inv mem exec c" "event_ok (cl_sched c) ev" "event_fits ev" "handleEvent e (cl_sched c) ev = Runs (s', err)"
  shows "cl_inv mem exec (c\<lparr>cl_sched := s'\<rparr>)"
proof (rule cl_inv_sched [OF assms(1)])
  have inv: "lease_inv mem (cl_sched c)" using assms(1) by (simp add: cl_inv_def)
  show "lease_inv mem s'" by (rule handleEvent_lease_inv [OF inv assms(2-4)])
  have "sched_inv (cl_sched c)" using inv by (simp add: lease_inv_def)
  then show "carried (cl_sched c) s'" by (rule carried_step) (rule sched_event [OF assms(2,4)])
qed

text \<open>The events a message gives rise to.\<close>

lemma HandleMessage_events:
  assumes "ev \<in> set (snd (HandleMessage mem ch wait m))"
  shows "\<exists>task. DecodeTask mem m = Ok task \<and>
    (ev = EventTaskDone (TaskID task) (Result task) \<and> task_OpCode task = ExecutionResponse \<or>
     ev = EventLeaseRequest \<lparr>responseChan = ch, lr_request = task\<rparr>)"
  using assms by (auto simp: HandleMessage_def HandleTaskLeaseRequest_def split: outcome.splits if_splits)

text \<open>A registration only ever sends submissions.\<close>

definition only_submits :: "reg_state \<Rightarrow> bool" where
  "only_submits st \<longleftrightarrow> (\<forall>ev \<in> set (rs_events st). \<exists>jd tasks. ev = EventJobSubmitted jd tasks)"

lemma reg_write_events: "reg_write e name content st = Ok st' \<Longrightarrow> rs_events st' = rs_events st"
  by (auto simp: reg_write_def split: option.splits)

lemma register_stages_submit:
  "register_split e ts st = Runs (st', err) \<Longrightarrow> only_submits st \<Longrightarrow> only_submits st'"
  "register_execute e job ts st = Runs (st', err) \<Longrightarrow> only_submits st \<Longrightarrow> only_submits st'"
  "register_merge e ts st = Runs (st', err) \<Longrightarrow> only_submits st \<Longrightarrow> only_submits st'"
    apply (auto simp: register_split_def reg_bind_def only_submits_def Let_def dest!: reg_write_events split: option.splits outcome.splits) [1]
   apply (auto simp: register_execute_def reg_bind_def only_submits_def Let_def dest!: reg_write_events split: outcome.splits if_splits) [1]
  apply (auto simp: register_merge_def reg_bind_def only_submits_def Let_def dest!: reg_write_events split: outcome.splits) [1]
  done

lemma register_tasks_submit: "register_tasks e job order st = Runs (st', err) \<Longrightarrow> only_submits st \<Longrightarrow> only_submits st'"
  by (induction order arbitrary: st)
    (auto split: option.splits progress.splits prod.splits if_splits dest: register_stages_submit)

lemma RegisterJob_events:
  assumes "RegisterJob e job = Runs (st, err)" "ev \<in> set (rs_events st)"
  shows "\<exists>jd tasks. ev = EventJobSubmitted jd tasks"
proof -
  have "only_submits new_reg" by (simp add: only_submits_def new_reg_def)
  with assms(1) have "only_submits st"
    using register_tasks_submit [of e job "spec_order e" new_reg]
    by (auto simp: RegisterJob_def reg_bind_def Let_def split: if_splits outcome.splits) (auto simp: only_submits_def)
  with assms(2) show ?thesis by (simp add: only_submits_def)
qed

text \<open>The two messages of a worker.\<close>

lemma report_request: "report_ok mem exec s (EncodeTask (fetch_request w))"
proof -
  have h: "wf_header (fetch_request w)" by (simp add: fetch_request_def zero_Task_def wf_header_def Let_def)
  have e: "EncodeTask (fetch_request w) = encode_header (fetch_request w) @
      (encode_section (Capabilities (fetch_request w)) @ encode_section (Tags (fetch_request w)) @ len_prefixed (Topic (fetch_request w)))"
    by (simp add: EncodeTask_def)
  have "task_OpCode task = LeaseRequest" if "DecodeTask mem (EncodeTask (fetch_request w)) = Ok task" for task
    using that unfolding e DecodeTask_header [OF h]
    by (auto simp: obind_Ok_iff fetch_request_def Let_def)
  then show ?thesis by (auto simp: report_ok_def LeaseRequest_def ExecutionResponse_def)
qed

lemma report_result:
  assumes "worker_ok exec s w" "r \<in> set (sent w)" "fits (er_Result r)"
  shows "report_ok mem exec s (result_message r)"
proof -
  let ?t = "zero_Task\<lparr>task_OpCode := ExecutionResponse, TaskID := er_TaskID r, Result := er_Result r\<rparr>"
  have "wf_task mem ?t" using assms(3) by (simp add: wf_task_def wf_header_def wf_section_def zero_Task_def)
  then have "DecodeTask mem (result_message r) = Ok ?t"
    unfolding result_message_def by (rule DecodeTask_plain) (simp add: zero_Task_def)
  moreover obtain t where "t \<in> set (received w)" "er_TaskID r = TaskID t" "exec (Binary t) (Stdin t) = Ok (er_Result r)"
    using assms(1,2) by (auto simp: worker_ok_def flow_ok_def)
  moreover from this have "leased s t" using assms(1) by (simp add: worker_ok_def list_all_iff)
  ultimately show ?thesis by (auto simp: report_ok_def result_of_def leased_def)
qed

lemma new_worker_ok: "w_init w \<Longrightarrow> worker_ok exec s w"
  using wk.inv_init [of w exec] by (auto simp: worker_ok_def w_init_def startWorkers_def)

lemma cl_step_inv:
  assumes "cl_inv mem exec c" "cl_step mem exec E j c c'"
  shows "cl_inv mem exec c'"
  using assms(2)
proof cases
  case (cl_event e ev s' err)
  with cl_inv_event [OF assms(1)] show ?thesis by blast
next
  case (cl_register k files)
  let ?s = "(cl_sched c)\<lparr>job_dir := (job_dir (cl_sched c))(k := files)\<rparr>"
  have inv: "lease_inv mem (cl_sched c)" using assms(1) by (simp add: cl_inv_def)
  have "sched_inv ?s" by (rule sched_inv_cong [of "cl_sched c"]) (use inv in \<open>simp_all add: lease_inv_def\<close>)
  then have "lease_inv mem ?s" by (rule lease_inv_frame [OF inv]) simp_all
  moreover have "carried (cl_sched c) ?s" by (simp add: carried_def)
  ultimately show ?thesis unfolding cl_register by (rule cl_inv_sched [OF assms(1)])
next
  case (cl_join w)
  with assms(1) new_worker_ok show ?thesis by (simp add: cl_inv_def)
next
  case (cl_poll w)
  with assms(1) report_request show ?thesis by (simp add: cl_inv_def)
next
  case (cl_message m ev ch wait e s' err)
  then have "event_fits ev" using HandleMessage_events by (fastforce simp: event_fits_def)
  with cl_message cl_inv_event [OF assms(1)] show ?thesis by blast
next
  case (cl_fetch i w ch r task)
  then have w: "worker_ok exec (cl_sched c) w" using assms(1) by (auto simp: cl_inv_def list_all_iff)
  let ?w = "w\<lparr>fetcher := Pushing task, received := received w @ [task]\<rparr>"
  have "flow_ok exec ?w"
    using w flow_ok_step [OF _ fetch_batch [OF cl_fetch(4,7)]] by (simp add: worker_ok_def)
  moreover have "leased (cl_sched c) task"
    using assms(1) cl_fetch(5-7)
    by (fastforce simp: cl_inv_def lease_inv_def answers_ok_def answer_ok_def list_all_iff fetch_response_def split: outcome.splits if_splits)
  ultimately have "worker_ok exec (cl_sched c) ?w" using w by (simp add: worker_ok_def)
  with assms(1) show ?thesis unfolding cl_fetch(1) by (auto simp: cl_inv_def list_all_iff dest: set_update_subset_insert [THEN subsetD])
next
  case (cl_work i w w')
  then have w: "worker_ok exec (cl_sched c) w" using assms(1) by (auto simp: cl_inv_def list_all_iff)
  then have w': "worker_ok exec (cl_sched c) w'" using cl_work flow_ok_step by (auto simp: worker_ok_def)
  have "report_ok mem exec (cl_sched c) (result_message r)" if "r \<in> set (drop (length (sent w)) (sent w'))" for r
    using report_result [OF w'] cl_work(6) in_set_dropD [OF that] by (simp add: list_all_iff)
  with assms(1) w' show ?thesis unfolding cl_work(1)
    by (auto simp: cl_inv_def list_all_iff dest: set_update_subset_insert [THEN subsetD])
qed

interpretation cl: invariant_system cl_init "cl_step mem exec E j" "cl_inv mem exec" for mem exec E j
proof unfold_locales
  show "cl_inv mem exec c" if "cl_init c" for c
    using that sched.inv_init [of NewScheduler]
    by (simp add: cl_init_def cl_inv_def lease_inv_def sched_init_def sizes_ok_def answers_ok_def NewScheduler_def)
qed (rule cl_step_inv)

subsection \<open>The cluster implements the job\<close>

text \<open>The functions that agree with what the runtime makes of the inputs of a binary.\<close>

definition computes :: "(bytes \<Rightarrow> bytes \<Rightarrow> bytes outcome) \<Rightarrow> bytes \<Rightarrow> (bytes \<Rightarrow> bytes) \<Rightarrow> bool" where
  "computes exec binary f \<longleftrightarrow> (\<forall>stdin out. exec binary stdin = Ok out \<longrightarrow> f stdin = out)"

lemma cl_step_job:
  assumes "cl_inv mem exec c" "cl_step mem exec E j c c'" "Jobs (cl_sched c) j = Some job" "computes exec (jd_Binary job) f"
  shows "cl_sched c' = cl_sched c \<or> job_step E f j (cl_sched c) (cl_sched c')"
  using assms(2)
proof cases
  case (cl_event e ev s' err)
  then have "honest f j (cl_sched c) ev" by (auto simp: honest_def outside_def split: Event.splits)
  with cl_event show ?thesis by (auto intro: job_event)
next
  case (cl_register k files)
  then show ?thesis by (auto intro: job_register)
next
  case (cl_message m ev ch wait e s' err)
  have "report_ok mem exec (cl_sched c) m" using assms(1) cl_message(2) by (simp add: cl_inv_def list_all_iff)
  then have "honest f j (cl_sched c) ev"
    using HandleMessage_events [OF cl_message(3)] assms(3,4) by (auto simp: honest_def report_ok_def result_of_def computes_def)
  with cl_message show ?thesis by (auto intro: job_event)
qed simp_all

lemma cl_steps_job:
  "(cl_step mem exec E j)\<^sup>*\<^sup>* c c' \<Longrightarrow> cl_inv mem exec c \<Longrightarrow> Jobs (cl_sched c) j = Some job \<Longrightarrow> computes exec (jd_Binary job) f \<Longrightarrow>
   cl_inv mem exec c' \<and> (\<exists>job'. Jobs (cl_sched c') j = Some job' \<and> jd_Binary job' = jd_Binary job) \<and>
   (job_step E f j)\<^sup>*\<^sup>* (cl_sched c) (cl_sched c')"
proof (induction rule: rtranclp_induct)
  case (step d d')
  then obtain job' where d: "cl_inv mem exec d" "Jobs (cl_sched d) j = Some job'" "jd_Binary job' = jd_Binary job"
    "(job_step E f j)\<^sup>*\<^sup>* (cl_sched c) (cl_sched d)" by blast
  have inv: "sched_inv (cl_sched d)" using d(1) by (simp add: cl_inv_def lease_inv_def)
  have s: "cl_sched d' = cl_sched d \<or> job_step E f j (cl_sched d) (cl_sched d')"
    using cl_step_job [OF d(1) step.hyps(2) d(2)] step.prems(3) d(3) by simp
  then have "carried (cl_sched d) (cl_sched d')"
    using carried_step [OF inv] job_step_sched by (auto simp: carried_def)
  then have "\<exists>job''. Jobs (cl_sched d') j = Some job'' \<and> jd_Binary job'' = jd_Binary job"
    using d(2,3) unfolding carried_def by metis
  with s d cl_step_inv [OF d(1) step.hyps(2)] show ?case by (auto intro: rtranclp.rtrancl_into_rtrancl)
qed auto

lemma cluster_job:
  assumes "cl_inv mem exec c" "job_started j plan mb (cl_sched c)" "Jobs (cl_sched c) j = Some job" "plan_ok plan" "ep_Tasks plan \<noteq> []"
    and "(cl_step mem exec (merge_env P j) j)\<^sup>*\<^sup>* c c'" "computes exec (jd_Binary job) f"
  shows "job_inv f j plan mb (cl_sched c') \<and> merged P f j plan mb (cl_sched c')"
proof -
  have "sched_inv (cl_sched c)" using assms(1) by (simp add: cl_inv_def lease_inv_def)
  moreover have "(job_step (merge_env P j) f j)\<^sup>*\<^sup>* (cl_sched c) (cl_sched c')"
    using cl_steps_job [OF assms(6,1,3,7)] by blast
  ultimately show ?thesis
    using merged_steps job_started_inv [OF assms(2)] job_started_merged [OF assms(2,5)] assms(4) by blast
qed

text \<open>A task that is done was executed without an error.\<close>

lemma cluster_executed:
  assumes "cl_inv mem exec c" "job_started j plan mb (cl_sched c)" "Jobs (cl_sched c) j = Some job" "plan_ok plan" "ep_Tasks plan \<noteq> []"
    and "(cl_step mem exec (merge_env P j) j)\<^sup>*\<^sup>* c c'" "card (done_set (cl_sched c') j) = length (ep_Tasks plan)" "p \<in> set (ep_Tasks plan)"
  shows "\<exists>out. exec (jd_Binary job) (plan_input p) = Ok out"
proof (rule ccontr)
  assume no: "\<nexists>out. exec (jd_Binary job) (plan_input p) = Ok out"
  let ?f = "\<lambda>b stdin. case exec (jd_Binary job) stdin of Ok out \<Rightarrow> out | _ \<Rightarrow> b"
  obtain k where k: "k < length (ep_Tasks plan)" "p = ep_Tasks plan ! k" using assms(8) by (auto simp: in_set_conv_nth)
  have "dir_map (cl_sched c') j (chunk_file (int k)) = Some (?f b (plan_input p))" for b
  proof -
    have "computes exec (jd_Binary job) (?f b)" by (simp add: computes_def)
    then have "job_inv (?f b) j plan mb (cl_sched c')" using cluster_job [OF assms(1-6)] by blast
    from done_task_of [OF this assms(4,7) k(1)] show ?thesis unfolding k(2) .
  qed
  from this [of "[]"] this [of "[0]"] show False using no by (auto split: outcome.splits)
qed

text \<open>A job without tasks: no result can arrive, so nothing makes the scheduler merge.\<close>

lemma no_tasks_step:
  assumes "job_inv f j plan mb s" "plan_ok plan" "sched_inv s" "ep_Tasks plan = []" "job_step E f j s s'"
  shows "job_dir s' j = job_dir s j"
proof -
  have "Jobs s j \<noteq> None" using assms(1) by (auto simp: job_inv_def)
  with assms(3) show ?thesis using assms(5)
  proof (cases rule: job_step_effect)
    case (result e i r err)
    from assms(3) result(3) show ?thesis
      by (cases rule: markTaskDone_job [where j = j]) (use not_yet_done [OF assms(1,2)] assms(4) in auto)
  qed
qed

lemma no_tasks_steps:
  "(job_step E f j)\<^sup>*\<^sup>* s s' \<Longrightarrow> job_inv f j plan mb s \<Longrightarrow> plan_ok plan \<Longrightarrow> sched_inv s \<Longrightarrow> ep_Tasks plan = [] \<Longrightarrow>
   job_dir s' j = job_dir s j \<and> job_inv f j plan mb s' \<and> sched_inv s'"
proof (induction rule: rtranclp_induct)
  case (step t u)
  then have "job_inv f j plan mb t" "sched_inv t" "job_dir t j = job_dir s j" by blast+
  with step.hyps(2) step.prems(2,4) show ?case
    using no_tasks_step job_inv_step sched.inv_step [OF _ job_step_sched] by metis
qed simp

text \<open>The files of such a job give its merger an empty input.\<close>

lemma no_results: "job_started j plan mb s \<Longrightarrow> ndjson (job_dir s j) = []"
proof -
  assume s: "job_started j plan mb s"
  then have d: "dom (map_of (job_dir s j)) = insert plan_file job_binaries" "distinct (map fst (job_dir s j))"
    by (simp_all add: job_started_def dir_map_def)
  have none: "{n \<in> insert plan_file job_binaries. n \<noteq> plan_file \<and> \<not> ends_with n (str ''.wasm'')} = {}"
    by (auto simp: job_binaries_def ends_with_def str_def)
  have "result_files (job_dir s j) = []" using result_files_mset [OF d(2), unfolded d(1) none] by simp
  then show ?thesis using ndjson_lines [of "job_dir s j"] by (simp add: as_text_def)
qed

end
