(* ===== verification/Cluster_Sample.thy ===== *)
theory Cluster_Sample
  imports Cluster
begin

text \<open>
  A run of the cluster, from the submission of a word count job with one task to its output: a worker joins, polls, receives the task, executes it and reports
  the result.
\<close>

definition word_task :: TaskDescription where
  "word_task = (new_task 2)\<lparr>ChunkID := 0, td_Stdin := str ''Go, go''\<rparr>"

definition word_job :: JobDescription where
  "word_job = example_job\<lparr>MergerBinary := [1]\<rparr>"

definition word_submitted :: Scheduler where
  "word_submitted = two_registered\<lparr>Jobs := [id_of_nat 1 \<mapsto> word_job],
     Tasks := [id_of_nat 2 \<mapsto> word_task\<lparr>Queued := True, EnqueuedAt := 100\<rparr>], batchTasks := [id_of_nat 2], stats := [IncEnqueued]\<rparr>"

definition word_merger :: "bytes \<Rightarrow> bytes \<Rightarrow> bytes outcome" where
  "word_merger = RunTask sample_engine [47]"

definition map_engine :: wasm_engine where
  "map_engine = sample_engine\<lparr>run_export := \<lambda>_. Some (wasm_map (\<lambda>_. str ''{go:2}'') ascii_tables)\<rparr>"

definition word_exec :: "bytes \<Rightarrow> bytes \<Rightarrow> bytes outcome" where
  "word_exec = RunTask map_engine [47]"

definition word_env :: sched_env where
  "word_env = example_env\<lparr>planner := word_merger\<rparr>"

definition word_lease :: leaseRequest where
  "word_lease = \<lparr>responseChan = 0, lr_request = fetch_request (worker idle_worker)\<rparr>"

definition word_leased :: Scheduler where
  "word_leased = fst (handle_lease word_env word_submitted word_lease)"

definition word_message :: Task where
  "word_message = response_task word_task word_job"

definition word_result :: ExecResult where
  "word_result = \<lparr>er_TaskID = id_of_nat 2, er_Result = str ''{go:2}'' @ [10]\<rparr>"

lemmas word_eval = word_task_def word_job_def word_submitted_def two_registered_def new_task_def example_job_def example_env_def word_env_def
  NewScheduler_def

abbreviation word_step :: "cluster \<Rightarrow> cluster \<Rightarrow> bool" where
  "word_step \<equiv> cl_step 1000 word_exec (merge_env word_merger (id_of_nat 1)) (id_of_nat 1)"

lemma word_env_ok: "merge_env word_merger (id_of_nat 1) word_env"
  by (simp add: merge_env_def word_env_def example_env_def)

definition word_start :: cluster where
  "word_start = \<lparr>cl_sched = word_submitted, cl_workers = [], cl_net = []\<rparr>"

lemma registered_reach: "reach cl_init word_step \<lparr>cl_sched = two_registered, cl_workers = [], cl_net = []\<rparr>"
proof -
  let ?c = "\<lambda>s. \<lparr>cl_sched = s, cl_workers = [], cl_net = []\<rparr> :: cluster"
  have "reach cl_init word_step (?c NewScheduler)" by (rule reach_init) (simp add: cl_init_def)
  moreover have "word_step (?c NewScheduler) (?c two_registered)"
    using cl_register [of "?c NewScheduler" "id_of_nat 1" 1000 word_exec "merge_env word_merger (id_of_nat 1)" "id_of_nat 1" two_files]
    by (simp add: NewScheduler_def two_registered_def)
  ultimately show ?thesis by (rule reach_step)
qed

lemma submitted_reach:
  assumes "handleEvent word_env two_registered (EventJobSubmitted job tasks) = Runs (s, err)"
    and "event_ok two_registered (EventJobSubmitted job tasks)" "event_fits (EventJobSubmitted job tasks)"
  shows "reach cl_init word_step \<lparr>cl_sched = s, cl_workers = [], cl_net = []\<rparr>"
  using reach_step [OF registered_reach] assms word_env_ok
    cl_event [of "merge_env word_merger (id_of_nat 1)" word_env "id_of_nat 1" "EventJobSubmitted job tasks"
      "\<lparr>cl_sched = two_registered, cl_workers = [], cl_net = []\<rparr>"]
  by (simp add: outside_def)

lemma word_reach: "reach cl_init word_step word_start"
proof -
  let ?ev = "EventJobSubmitted word_job [word_task]"
  have "handleEvent word_env two_registered ?ev = Runs (word_submitted, None)"
    using TypeBatch_not_Stream
    by (simp add: handleEvent_def handle_submit_def word_eval enqueueTask_def push_task_def add_stat_def taskQueueSize_def)
  moreover have "event_ok two_registered ?ev" by (simp add: event_ok_def word_eval)
  moreover have "event_fits ?ev" by (simp add: event_fits_def fits_job_def fits_task_def word_eval TaskTypeBatch_def str_def)
  ultimately show ?thesis unfolding word_start_def by (rule submitted_reach)
qed

text \<open>A job with an empty plan, in the same cluster.\<close>

definition empty_plan :: ExecutionPlan where
  "empty_plan = \<lparr>ep_Name = [], Total = 0, ep_Tasks = []\<rparr>"

definition empty_start :: cluster where
  "empty_start = \<lparr>cl_sched = two_registered\<lparr>Jobs := [id_of_nat 1 \<mapsto> word_job\<lparr>TasksTotal := 0\<rparr>]\<rparr>, cl_workers = [], cl_net = []\<rparr>"

lemma empty_reach: "reach cl_init word_step empty_start"
proof -
  let ?ev = "EventJobSubmitted (word_job\<lparr>TasksTotal := 0\<rparr>) []"
  have "handleEvent word_env two_registered ?ev = Runs (cl_sched empty_start, None)"
    using TypeBatch_not_Stream by (simp add: handleEvent_def handle_submit_def word_eval empty_start_def)
  moreover have "event_ok two_registered ?ev" by (simp add: event_ok_def)
  moreover have "event_fits ?ev" by (simp add: event_fits_def fits_job_def word_eval)
  ultimately show ?thesis using submitted_reach by (simp add: empty_start_def)
qed

lemma two_files_dir:
  assumes "job_dir s j = two_files"
  shows "sorted (map fst (job_dir s j))" "distinct (map fst (job_dir s j))" "dom (dir_map s j) = insert plan_file job_binaries"
proof -
  show "sorted (map fst (job_dir s j))" "distinct (map fst (job_dir s j))" unfolding assms by code_simp+
  show "dom (dir_map s j) = insert plan_file job_binaries"
    unfolding dir_map_def assms by (auto simp: two_files_def job_binaries_def split: if_splits)
qed

lemma empty_started: "job_started (id_of_nat 1) empty_plan [1] (cl_sched empty_start)"
  unfolding job_started_def
  by (intro conjI two_files_dir)
    (simp_all add: empty_start_def empty_plan_def word_eval done_set_def job_chunks_def)

lemma empty_run:
  "word_step empty_start \<lparr>cl_sched = cl_sched empty_start, cl_workers = [idle_worker], cl_net = []\<rparr>"
proof -
  have "w_init idle_worker" by (auto simp: w_init_def idle_worker_def)
  then show ?thesis
    using cl_join [of idle_worker 1000 word_exec "merge_env word_merger (id_of_nat 1)" "id_of_nat 1" empty_start] by (simp add: empty_start_def)
qed

text \<open>The directory of that job as a restart reads it, and a merger that returns an empty object.\<close>

definition two_fs :: job_fs where
  "two_fs = \<lparr>root_dir = Ok [(NodeId_String (id_of_nat 1), True)], list_dir = \<lambda>_. Ok (map fst two_files),
     read_in = \<lambda>_ f. case map_of two_files f of Some c \<Rightarrow> Ok c | None \<Rightarrow> Err ''no such file''\<rparr>"

definition empty_reload :: reload_env where
  "empty_reload = \<lparr>reload_id = id_of_nat, reload_Unmarshal = \<lambda>_. Ok empty_plan\<rparr>"

definition empty_env :: sched_env where
  "empty_env = example_env\<lparr>planner := \<lambda>_ _. Ok (str ''{}'')\<rparr>"

lemma word_plan_sample:
  "word_plan (str ''Go, go'') = \<lparr>ep_Name = str ''count-words'', Total = 1, ep_Tasks = [\<lparr>etp_ID = 0, etp_Stdin = b64_EncodeToString (str ''Go, go'')\<rparr>]\<rparr>"
proof -
  have "p_Name (plan_run d) = str ''count-words''" "p_Total (plan_run d) = int (length (p_Tasks (plan_run d)))" for d
    by (simp_all add: plan_run_def Let_def)
  then show ?thesis by (simp add: word_plan_def sample_plan)
qed

lemma word_started: "job_started (id_of_nat 1) (word_plan (str ''Go, go'')) [1] word_submitted"
proof -
  have "job_dir word_submitted (id_of_nat 1) = two_files" by (simp add: word_submitted_def two_registered_def)
  note two_files_dir [OF this]
  moreover have "done_set word_submitted (id_of_nat 1) = {}" by (auto simp: done_set_def word_eval split: if_splits)
  moreover have "job_chunks word_submitted (id_of_nat 1) = {(id_of_nat 2, 0)}" by (auto simp: job_chunks_def word_eval)
  moreover have "task_planned (word_plan (str ''Go, go'')) (word_task\<lparr>Queued := True, EnqueuedAt := 100\<rparr>)"
    by (simp add: task_planned_def word_plan_sample word_task_def b64_DecodeString_Encode)
  ultimately show ?thesis
    unfolding job_started_def by (auto simp: word_plan_sample word_submitted_def word_job_def example_job_def split: if_splits)
qed

subsection \<open>The run\<close>

lemma word_leased_state:
  "Tasks word_leased = [id_of_nat 2 \<mapsto> dispatched word_env (word_task\<lparr>Queued := True, EnqueuedAt := 100\<rparr>)]"
  "Jobs word_leased = [id_of_nat 1 \<mapsto> word_job]"
  "responses word_leased = [(0, \<lparr>payload = EncodeTask word_message, lr_err = None\<rparr>)]"
  unfolding word_leased_def
  by (simp_all add: handle_lease_def word_eval markTaskDispatched_def send_response_def add_stat_def dispatched_def word_lease_def word_message_def
      response_task_def)

lemma word_message_received: "fetch_response 1000 w (Ok (EncodeTask word_message)) = FetchPush word_message"
proof -
  have "wf_task 1000 word_message"
    by (simp add: wf_task_def wf_header_def wf_section_def word_message_def response_task_def word_eval TaskTypeBatch_def str_def)
  then have "DecodeTask 1000 (EncodeTask word_message) = Ok word_message"
    by (rule DecodeTask_plain) (simp add: word_message_def response_task_def)
  then show ?thesis by (simp add: fetch_response_def word_message_def response_task_def word_eval)
qed

lemma word_executed: "word_exec (Binary word_message) (Stdin word_message) = Ok (str ''{go:2}'' @ [10])"
  unfolding word_exec_def
  by (rule RunTask_map [where u = ascii_tables and marshal = "\<lambda>_. str ''{go:2}''"])
    (simp_all add: engine_ok_def map_engine_def sample_engine_def word_message_def response_task_def word_eval)

lemma quiet_steps_cluster:
  "(quiet_step 1000 word_exec)\<^sup>*\<^sup>* w w' \<Longrightarrow> sent w = [] \<Longrightarrow>
   word_step\<^sup>*\<^sup>* \<lparr>cl_sched = s, cl_workers = [w], cl_net = ms\<rparr> \<lparr>cl_sched = s, cl_workers = [w'], cl_net = ms\<rparr> \<and> sent w' = []"
proof (induction rule: rtranclp_induct)
  case (step v v')
  let ?c = "\<lambda>w. \<lparr>cl_sched = s, cl_workers = [w], cl_net = ms\<rparr> :: cluster"
  have "word_step (?c v) (?c v')"
    using cl_work [of 0 "?c v" v 1000 word_exec v'] step by (simp add: quiet_step_def)
  with step show ?case by (auto simp: quiet_step_def)
qed simp

lemma word_polled: "word_step\<^sup>*\<^sup>* word_start \<lparr>cl_sched = word_leased, cl_workers = [idle_worker],
    cl_net = [EncodeTask (fetch_request (worker idle_worker))]\<rparr>"
proof -
  let ?net = "[EncodeTask (fetch_request (worker idle_worker))]"
  let ?c = "\<lambda>s ms. \<lparr>cl_sched = s, cl_workers = [idle_worker], cl_net = ms\<rparr> :: cluster"
  have "w_init idle_worker" by (auto simp: w_init_def idle_worker_def)
  then have 1: "word_step word_start (?c word_submitted [])"
    using cl_join [of idle_worker 1000 word_exec "merge_env word_merger (id_of_nat 1)" "id_of_nat 1" word_start] by (simp add: word_start_def)
  have 2: "word_step (?c word_submitted []) (?c word_submitted ?net)"
    using cl_poll [of idle_worker "?c word_submitted []"] by (simp add: worker_eval)
  let ?r = "fetch_request (worker idle_worker)" and ?ev = "EventLeaseRequest word_lease"
  have "wf_task 1000 ?r" by (simp add: wf_task_def wf_header_def wf_section_def fetch_request_def zero_Task_def worker_eval)
  then have "DecodeTask 1000 (EncodeTask ?r) = Ok ?r"
    by (rule DecodeTask_plain) (simp add: fetch_request_def zero_Task_def Let_def)
  then have "?ev \<in> set (snd (HandleMessage 1000 0 None (EncodeTask ?r)))"
    by (simp add: HandleMessage_def HandleTaskLeaseRequest_def fetch_request_def Let_def LeaseRequest_def ExecutionResponse_def word_lease_def)
  moreover have "handleEvent word_env word_submitted ?ev = Runs (word_leased, snd (handle_lease word_env word_submitted word_lease))"
    by (simp add: handleEvent_def word_env_def example_env_def word_leased_def)
  moreover have "event_ok word_submitted ?ev" by (simp add: event_ok_def word_eval)
  ultimately have 3: "word_step (?c word_submitted ?net) (?c word_leased ?net)"
    using cl_message [of "EncodeTask ?r" "?c word_submitted ?net" ?ev 1000 0 None "merge_env word_merger (id_of_nat 1)" word_env] word_env_ok by simp
  from 1 2 3 show ?thesis by (meson converse_rtranclp_into_rtranclp rtranclp.rtrancl_refl)
qed

lemma word_run:
  "\<exists>c'. word_step\<^sup>*\<^sup>* word_start c' \<and> card (done_set (cl_sched c') (id_of_nat 1)) = length (p_Tasks (plan_run (str ''Go, go'')))"
proof -
  let ?net = "[EncodeTask (fetch_request (worker idle_worker))]" and ?m = "result_message word_result"
  let ?c = "\<lambda>w ms. \<lparr>cl_sched = word_leased, cl_workers = [w], cl_net = ms\<rparr> :: cluster"
  let ?w = "idle_worker\<lparr>fetcher := Pushing word_message, received := [word_message]\<rparr>"
  let ?v = "writing_worker word_message word_result" and ?u = "idle_worker\<lparr>received := [word_message], sent := [word_result]\<rparr>"
  have 1: "word_step (?c idle_worker ?net) (?c ?w ?net)"
    using cl_fetch [of 0 "?c idle_worker ?net" idle_worker 0 "\<lparr>payload = EncodeTask word_message, lr_err = None\<rparr>" 1000 word_message]
    by (simp add: word_leased_state word_message_received) (simp add: worker_eval)
  have "(quiet_step 1000 word_exec)\<^sup>*\<^sup>* ?w ?v"
    using worker_executes [of word_message word_exec "str ''{go:2}'' @ [10]" 1000] word_executed
    by (simp add: exec_take_def word_result_def word_message_def response_task_def word_eval)
  then have 2: "word_step\<^sup>*\<^sup>* (?c ?w ?net) (?c ?v ?net)" using quiet_steps_cluster by (simp add: worker_eval)
  have 3: "word_step (?c ?v ?net) (?c ?u (?net @ [?m]))"
    using cl_work [of 0 "?c ?v ?net" ?v 1000 word_exec ?u] worker_sends [of 1000 word_exec word_message word_result]
    by (simp add: writing_worker_def worker_eval word_result_def str_def)
  let ?ev = "EventTaskDone (id_of_nat 2) (str ''{go:2}'' @ [10])" and ?t = "dispatched word_env (word_task\<lparr>Queued := True, EnqueuedAt := 100\<rparr>)"
  have t: "Tasks word_leased (id_of_nat 2) = Some ?t" "td_State ?t = StateRunning" "Jobs word_leased (td_JobID ?t) = Some word_job"
    "jd_ID word_job = td_JobID ?t" by (simp_all add: word_leased_state word_task_def new_task_def word_job_def example_job_def)
  have np: "\<forall>x. planner word_env (MergerBinary word_job) x \<noteq> Panic"
    by (simp add: word_env_def word_merger_def RunTask_def sample_engine_def wasm_reduce_def word_job_def split: sum.split)
  obtain s2 where s2: "markTaskDone word_env word_leased (id_of_nat 2) (str ''{go:2}'' @ [10]) = Runs (s2, None)"
      "Tasks s2 (id_of_nat 2) = Some (?t\<lparr>td_State := StateDone, Queued := False, BackoffUntil := 0, LeaseUntil := 0, DoneAt := now word_env\<rparr>)"
    by (rule markTaskDone_running [OF t _ np]) (simp_all add: word_env_def example_env_def)
  have "wf_task 1000 (zero_Task\<lparr>task_OpCode := ExecutionResponse, TaskID := id_of_nat 2, Result := str ''{go:2}'' @ [10]\<rparr>)"
    by (simp add: wf_task_def wf_header_def wf_section_def zero_Task_def str_def)
  then have "?ev \<in> set (snd (HandleMessage 1000 0 None ?m))"
    using DecodeTask_plain [of 1000] by (simp add: HandleMessage_def result_message_def word_result_def zero_Task_def)
  moreover have "handleEvent word_env word_leased ?ev = Runs (s2, None)"
    using s2(1) by (simp add: handleEvent_def) (simp add: word_env_def example_env_def)
  ultimately have 4: "word_step (?c ?u (?net @ [?m])) \<lparr>cl_sched = s2, cl_workers = [?u], cl_net = ?net @ [?m]\<rparr>"
    using cl_message [of ?m "?c ?u (?net @ [?m])" ?ev 1000 0 None "merge_env word_merger (id_of_nat 1)" word_env] word_env_ok
    by (simp add: event_ok_def)
  have "dom (Tasks s2) \<subseteq> {id_of_nat 2}"
    by (rule markTaskDone_cases [OF s2(1)]) (simp_all add: word_leased_state)
  then have d: "done_set s2 (id_of_nat 1) = {id_of_nat 2}"
    using s2(2) by (auto simp: done_set_def dom_def word_task_def new_task_def)
  have "card (done_set s2 (id_of_nat 1)) = length (p_Tasks (plan_run (str ''Go, go'')))" unfolding d by (simp add: sample_plan)
  moreover have "word_step\<^sup>*\<^sup>* word_start \<lparr>cl_sched = s2, cl_workers = [?u], cl_net = ?net @ [?m]\<rparr>"
    using word_polled 1 2 3 4 by (meson rtranclp.rtrancl_into_rtrancl rtranclp_trans)
  ultimately show ?thesis by (metis cluster.select_convs(1))
qed

end
