(* ===== verification/Event_Loop.thy ===== *)
theory Event_Loop
  imports Job_Registration Scheduler_Properties Dht_Node
begin

text \<open>
  The event loop as a goroutine (\<open>Start\<close>, \<open>startTicker\<close> and \<open>runLoop\<close> of \<open>src/scheduler/scheduler.go\<close>).
  \<^item> \<open>event_loop\<close> is the scheduler with its channel \<open>events\<close> of capacity 1024 and what the goroutine of \<open>runLoop\<close> is doing. It
    also records the events that were sent, the directories that were on disk at the start, and the history since then: the events that were handled, with the surroundings each handler
    saw, and the files that registrations wrote.
  \<^item> \<open>loop_step\<close> is one action: the ticker sends a tick; another goroutine (\<open>HandleMessage\<close>, \<open>HandleTaskLeaseRequest\<close>, \<open>RegisterJob\<close>) sends an event; \<open>RegisterJob\<close> writes one of its
    files; the loop handles the first event of the channel; the loop sees that its context is done. A send waits while the channel is full, so there
    is no step. The error a handler returns is dropped by \<open>runLoop\<close>.
  \<^item> \<open>Start\<close> reloads the jobs before it starts the two goroutines and drops the error of the reload. The scheduler works on in the directories that are
    on disk: what the reload reads through \<open>fs.FS\<close>, unless it fails, is what they contain (\<open>shows_disk\<close>).
\<close>

datatype loop_status = LoopRuns | LoopStuck | LoopReturned | LoopCrashed

datatype loop_action = Handle sched_env Event | WriteFile NodeId bytes bytes

type_synonym disk = "NodeId \<Rightarrow> (bytes \<times> bytes) list"

record event_loop =
  el_sched :: Scheduler
  el_events :: "Event list"
  el_status :: loop_status
  el_disk :: disk
  el_history :: "loop_action list"
  el_sent :: "Event list"

definition on_disk :: "disk \<Rightarrow> Scheduler" where
  "on_disk dirs = NewScheduler\<lparr>job_dir := dirs\<rparr>"

definition new_loop :: "disk \<Rightarrow> Event list \<Rightarrow> event_loop" where
  "new_loop dirs evs = \<lparr>el_sched = on_disk dirs, el_events = evs, el_status = LoopRuns, el_disk = dirs, el_history = [], el_sent = evs\<rparr>"

definition shows_disk :: "job_fs \<Rightarrow> disk \<Rightarrow> bool" where
  "shows_disk fsys dirs \<longleftrightarrow>
     (\<forall>j files. list_dir fsys (NodeId_String j) = Ok files \<longrightarrow> files = map fst (dirs j)) \<and>
     (\<forall>j f c. read_in fsys (NodeId_String j) f = Ok c \<longrightarrow> map_of (dirs j) f = Some c)"

text \<open>\<open>None\<close> when the reload never returns.\<close>

definition Start :: "reload_env \<Rightarrow> job_fs \<Rightarrow> disk \<Rightarrow> event_loop option" where
  "Start e fsys dirs = (case reloadMemoryOnStartup e fsys of Runs (evs, _) \<Rightarrow> Some (new_loop dirs evs) | _ \<Rightarrow> None)"

definition send_event :: "Event \<Rightarrow> event_loop \<Rightarrow> event_loop option" where
  "send_event ev l =
     (if length (el_events l) < eventLoopBufferSize
      then Some (l\<lparr>el_events := el_events l @ [ev], el_sent := el_sent l @ [ev]\<rparr>)
      else None)"

definition startTicker :: "event_loop \<Rightarrow> event_loop option" where
  "startTicker l = send_event EventTick l"

definition runLoop :: "sched_env \<Rightarrow> event_loop \<Rightarrow> event_loop option" where
  "runLoop e l =
     (case el_events l of
        [] \<Rightarrow> None
      | event # rest \<Rightarrow>
          let l = l\<lparr>el_events := rest, el_history := el_history l @ [Handle e event]\<rparr> in
          (case handleEvent e (el_sched l) event of
             Runs (s, _) \<Rightarrow> Some (l\<lparr>el_sched := s\<rparr>)
           | Blocks \<Rightarrow> Some (l\<lparr>el_status := LoopStuck\<rparr>)
           | Crashes \<Rightarrow> Some (l\<lparr>el_status := LoopCrashed\<rparr>)))"

definition write_job_file :: "NodeId \<Rightarrow> bytes \<Rightarrow> bytes \<Rightarrow> Scheduler \<Rightarrow> Scheduler" where
  "write_job_file j name content s = s\<lparr>job_dir := (job_dir s)(j := write_file name content (job_dir s j))\<rparr>"

inductive loop_step :: "event_loop \<Rightarrow> event_loop \<Rightarrow> bool" where
  loop_tick: "el_status l \<noteq> LoopCrashed \<Longrightarrow> startTicker l = Some l' \<Longrightarrow> loop_step l l'"
| loop_send: "el_status l \<noteq> LoopCrashed \<Longrightarrow> send_event ev l = Some l' \<Longrightarrow> loop_step l l'"
| loop_handle: "el_status l = LoopRuns \<Longrightarrow> runLoop e l = Some l' \<Longrightarrow> loop_step l l'"
| loop_write: "el_status l \<noteq> LoopCrashed \<Longrightarrow> name \<in> {str ''plan.wasm'', str ''plan.json'', str ''map.wasm'', str ''reduce.wasm''} \<Longrightarrow>
    loop_step l (l\<lparr>el_sched := write_job_file j name content (el_sched l), el_history := el_history l @ [WriteFile j name content]\<rparr>)"
| loop_done: "el_status l = LoopRuns \<Longrightarrow> loop_step l (l\<lparr>el_status := LoopReturned\<rparr>)"

inductive_cases loop_stepE: "loop_step l l'"

definition loop_init :: "event_loop \<Rightarrow> bool" where
  "loop_init l \<longleftrightarrow> (\<exists>e fsys dirs. shows_disk fsys dirs \<and> Start e fsys dirs = Some l)"

subsection \<open>The specification: events handled one after the other\<close>

fun replay :: "loop_action list \<Rightarrow> Scheduler \<Rightarrow> Scheduler progress" where
  "replay [] s = Runs s"
| "replay (Handle e ev # acts) s =
     (case handleEvent e s ev of Runs (s, _) \<Rightarrow> replay acts s | Blocks \<Rightarrow> Blocks | Crashes \<Rightarrow> Crashes)"
| "replay (WriteFile j name content # acts) s = replay acts (write_job_file j name content s)"

fun handled_events :: "loop_action list \<Rightarrow> Event list" where
  "handled_events [] = []"
| "handled_events (Handle e ev # acts) = ev # handled_events acts"
| "handled_events (WriteFile j name content # acts) = handled_events acts"

lemma replay_append:
  "replay (acts @ acts') s = (case replay acts s of Runs s \<Rightarrow> replay acts' s | Blocks \<Rightarrow> Blocks | Crashes \<Rightarrow> Crashes)"
  by (induction acts s rule: replay.induct) (auto split: progress.splits)

lemma handled_events_append [simp]: "handled_events (acts @ acts') = handled_events acts @ handled_events acts'"
  by (induction acts rule: handled_events.induct) simp_all

definition loop_result :: "event_loop \<Rightarrow> Scheduler progress" where
  "loop_result l = (case el_status l of LoopStuck \<Rightarrow> Blocks | LoopCrashed \<Rightarrow> Crashes | _ \<Rightarrow> Runs (el_sched l))"

definition loop_inv :: "event_loop \<Rightarrow> bool" where
  "loop_inv l \<longleftrightarrow>
     length (el_events l) \<le> eventLoopBufferSize \<and> el_sent l = handled_events (el_history l) @ el_events l \<and>
     replay (el_history l) (on_disk (el_disk l)) = loop_result l"

lemma reload_dirs_bounded:
  "length queue \<le> eventLoopBufferSize \<Longrightarrow> reload_dirs e fsys n dirs queue = Runs (evs, err) \<Longrightarrow> length evs \<le> eventLoopBufferSize"
proof (induction dirs arbitrary: n queue)
  case (Cons d dirs)
  then show ?case
    by (auto simp: send_events_def split: outcome.splits option.splits if_splits) (metis length_append)
qed simp

lemma Start_inv: "Start e fsys dirs = Some l \<Longrightarrow> loop_inv l"
  using reload_dirs_bounded [of "[]" e fsys 0]
  by (auto simp: Start_def reloadMemoryOnStartup_def loop_inv_def new_loop_def loop_result_def split: progress.splits outcome.splits)

lemma send_event_inv: "loop_inv l \<Longrightarrow> send_event ev l = Some l' \<Longrightarrow> loop_inv l'"
  by (cases "el_status l") (auto simp: send_event_def loop_inv_def loop_result_def split: if_splits)

lemma runLoop_inv: "loop_inv l \<Longrightarrow> el_status l = LoopRuns \<Longrightarrow> runLoop e l = Some l' \<Longrightarrow> loop_inv l'"
  by (auto simp: runLoop_def loop_inv_def loop_result_def Let_def replay_append split: list.splits progress.splits)

lemma write_inv:
  "loop_inv l \<Longrightarrow> loop_inv (l\<lparr>el_sched := write_job_file j name content (el_sched l), el_history := el_history l @ [WriteFile j name content]\<rparr>)"
  by (cases "el_status l") (auto simp: loop_inv_def loop_result_def replay_append)

interpretation loop: invariant_system loop_init loop_step loop_inv
proof unfold_locales
  show "loop_init l \<Longrightarrow> loop_inv l" for l by (auto simp: loop_init_def Start_inv)
  show "loop_inv l \<Longrightarrow> loop_step l l' \<Longrightarrow> loop_inv l'" for l l'
    by (erule loop_stepE)
      (auto simp: startTicker_def intro: send_event_inv runLoop_inv write_inv, simp add: loop_inv_def loop_result_def)
qed

text \<open>A loop that is stuck handles nothing more and takes no more than its channel holds.\<close>

definition same_memory :: "Scheduler \<Rightarrow> Scheduler \<Rightarrow> bool" where
  "same_memory s s' \<longleftrightarrow> (\<exists>dirs. s' = s\<lparr>job_dir := dirs\<rparr>)"

lemma same_memory_refl [simp]: "same_memory s s"
  unfolding same_memory_def by (rule exI [of _ "job_dir s"]) simp

lemma same_memory_write: "same_memory s s' \<Longrightarrow> same_memory s (write_job_file j name content s')"
  by (auto simp: same_memory_def write_job_file_def)

lemma stuck_step:
  "loop_step l l' \<Longrightarrow> el_status l = LoopStuck \<Longrightarrow> same_memory s (el_sched l) \<Longrightarrow>
   el_status l' = LoopStuck \<and> handled_events (el_history l') = handled_events (el_history l) \<and> same_memory s (el_sched l') \<and>
   length (el_sent l') + length (el_events l) = length (el_sent l) + length (el_events l') \<and>
   length (el_events l') \<le> max eventLoopBufferSize (length (el_events l))"
  by (erule loop_stepE) (auto simp: startTicker_def send_event_def same_memory_write split: if_splits)

lemma stuck_steps:
  "loop_step\<^sup>*\<^sup>* l l' \<Longrightarrow> el_status l = LoopStuck \<Longrightarrow> length (el_events l) \<le> eventLoopBufferSize \<Longrightarrow>
   el_status l' = LoopStuck \<and> handled_events (el_history l') = handled_events (el_history l) \<and> same_memory (el_sched l) (el_sched l') \<and>
   length (el_sent l') + length (el_events l) = length (el_sent l) + length (el_events l') \<and>
   length (el_events l') \<le> eventLoopBufferSize"
proof (induction rule: rtranclp_induct)
  case (step k m)
  then show ?case using stuck_step [OF step.hyps(2), of "el_sched l"] by auto
qed simp

subsection \<open>Properties\<close>

text \<open>
  C13. The concurrent event loop refines handling events one after the other: in every reachable state the scheduler is what
  handling a list of events in turn, with the files that registrations wrote in between, makes of a scheduler without jobs in the directories that were on disk
  when it started; the events sent are exactly those handled, in the order of sending, followed by those in the channel; and the channel never holds more than 1024.
\<close>

theorem loop_refines_replay:
  assumes "reach loop_init loop_step l"
  shows "el_sent l = handled_events (el_history l) @ el_events l \<and> length (el_events l) \<le> 1024 \<and>
    replay (el_history l) (on_disk (el_disk l)) =
      (case el_status l of LoopStuck \<Rightarrow> Blocks | LoopCrashed \<Rightarrow> Crashes | _ \<Rightarrow> Runs (el_sched l))"
  using loop.reach_inv [OF assms] unfolding loop_inv_def loop_result_def eventLoopBufferSize_def by blast

definition empty_fs :: job_fs where
  "empty_fs = \<lparr>root_dir = Ok [], list_dir = \<lambda>_. Err ''none'', read_in = \<lambda>_ _. Err ''none''\<rparr>"

definition no_reload :: reload_env where
  "no_reload = \<lparr>reload_id = \<lambda>_. zero_id, reload_Unmarshal = \<lambda>_. Err ''EOF''\<rparr>"

definition no_dirs :: disk where
  "no_dirs = (\<lambda>_. [])"

lemma reach_sent: "reach loop_init loop_step (new_loop no_dirs []\<lparr>el_events := [ev], el_sent := [ev]\<rparr>)"
proof (rule reach_step [OF reach_init])
  show "loop_init (new_loop no_dirs [])"
    unfolding loop_init_def
    by (intro exI [of _ no_reload] exI [of _ empty_fs] exI [of _ no_dirs])
      (simp add: Start_def reloadMemoryOnStartup_def empty_fs_def shows_disk_def)
  show "loop_step (new_loop no_dirs []) (new_loop no_dirs []\<lparr>el_events := [ev], el_sent := [ev]\<rparr>)"
    by (rule loop_send [of _ ev]) (simp_all add: new_loop_def send_event_def eventLoopBufferSize_def)
qed

text \<open>A restart after the only task of a job was done and before its results were merged: the result on disk is merged.\<close>

definition done_dir :: "(bytes \<times> bytes) list" where
  "done_dir = [(str ''0.json'', [55]), (str ''map.wasm'', [0]), (str ''plan.json'', [1]), (str ''reduce.wasm'', [2])]"

definition done_disk :: disk where
  "done_disk = (\<lambda>j. if j = id_of_nat 1 then done_dir else [])"

definition done_fs :: job_fs where
  "done_fs = \<lparr>root_dir = Ok [(NodeId_String (id_of_nat 1), True)],
     list_dir = \<lambda>d. if d = NodeId_String (id_of_nat 1) then Ok (map fst done_dir) else Err ''none'',
     read_in = \<lambda>d f. if d = NodeId_String (id_of_nat 1) then (case map_of done_dir f of Some c \<Rightarrow> Ok c | None \<Rightarrow> Err ''none'') else Err ''none''\<rparr>"

definition done_reload :: reload_env where
  "done_reload = \<lparr>reload_id = \<lambda>_. zero_id, reload_Unmarshal = \<lambda>_. Ok \<lparr>ep_Name = [], Total = 1, ep_Tasks = [\<lparr>etp_ID = 0, etp_Stdin = []\<rparr>]\<rparr>\<rparr>"

definition done_jd :: JobDescription where
  "done_jd = zero_job\<lparr>jd_ID := id_of_nat 1, jd_Binary := [0], MergerBinary := [2], TasksDone := 1, TasksTotal := 1, jd_Type := TypeBatch\<rparr>"

lemma NodeId_String_inject: "NodeId_String i = NodeId_String j \<longleftrightarrow> i = j"
  by (metis NodeId_String_def hex_DecodeString_Encode id_bytes_inject outcome.inject(1))

lemma done_started: "loop_init (new_loop done_disk [EventJobSubmitted done_jd [], EventJobDone (id_of_nat 1)])"
proof -
  have "shows_disk done_fs done_disk"
    by (auto simp: shows_disk_def done_fs_def done_disk_def NodeId_String_inject split: if_splits option.splits)
  moreover have "scan_files (map fst done_dir) [] = (False, [0])" unfolding done_dir_def by code_simp
  then have "reload_job done_reload done_fs 0 (NodeId_String (id_of_nat 1), True) =
      Ok ([EventJobSubmitted done_jd [], EventJobDone (id_of_nat 1)], 0)"
    by (simp add: reload_job_def done_fs_def done_reload_def done_dir_def done_jd_def NodeId_String_def hex_DecodeString_Encode str_def Let_def zero_job_def)
  then have "Start done_reload done_fs done_disk = Some (new_loop done_disk [EventJobSubmitted done_jd [], EventJobDone (id_of_nat 1)])"
    by (simp add: Start_def reloadMemoryOnStartup_def send_events_def eventLoopBufferSize_def done_fs_def)
  ultimately show ?thesis unfolding loop_init_def by blast
qed

theorem loop_refines_replay_witness:
  "\<exists>l. reach loop_init loop_step l \<and> el_sent l = [EventJobSubmitted done_jd [], EventJobDone (id_of_nat 1)] \<and> el_events l = [] \<and>
     replay [Handle example_env (EventJobSubmitted done_jd []), Handle example_env (EventJobDone (id_of_nat 1))] (on_disk done_disk) = Runs (el_sched l) \<and>
     map_of (job_dir (el_sched l) (id_of_nat 1)) (str ''output.json'') = Some [55, 10]"
proof -
  let ?j = "id_of_nat 1" and ?evs = "[EventJobSubmitted done_jd [], EventJobDone (id_of_nat 1)]"
  let ?l = "new_loop done_disk ?evs"
  let ?s1 = "(on_disk done_disk)\<lparr>Jobs := [?j \<mapsto> done_jd]\<rparr>"
  let ?s2 = "?s1\<lparr>job_dir := done_disk(?j := write_file (str ''output.json'') [55, 10] done_dir)\<rparr>"
  have h1: "handleEvent example_env (on_disk done_disk) (EventJobSubmitted done_jd []) = Runs (?s1, None)"
    using TypeBatch_not_Stream by (simp add: handleEvent_def handle_submit_def example_env_def on_disk_def NewScheduler_def done_jd_def zero_job_def)
  have "ndjson done_dir = [55, 10]" unfolding done_dir_def by code_simp
  then have h2: "handleEvent example_env ?s1 (EventJobDone ?j) = Runs (?s2, None)"
    by (simp add: handleEvent_def markJobDone_def example_env_def on_disk_def done_disk_def done_jd_def)
  let ?l1 = "?l\<lparr>el_sched := ?s1, el_events := [EventJobDone ?j], el_history := [Handle example_env (EventJobSubmitted done_jd [])]\<rparr>"
  let ?l2 = "?l1\<lparr>el_sched := ?s2, el_events := [], el_history := [Handle example_env (EventJobSubmitted done_jd []), Handle example_env (EventJobDone ?j)]\<rparr>"
  have "runLoop example_env ?l = Some ?l1" using h1 by (simp add: runLoop_def new_loop_def)
  then have "loop_step ?l ?l1" by (intro loop_handle) (simp_all add: new_loop_def)
  moreover have "reach loop_init loop_step ?l" by (rule reach_init) (rule done_started)
  ultimately have "reach loop_init loop_step ?l1" by (rule reach_step [rotated])
  moreover have "runLoop example_env ?l1 = Some ?l2" using h2 by (simp add: runLoop_def new_loop_def)
  then have "loop_step ?l1 ?l2" by (intro loop_handle) (simp_all add: new_loop_def)
  ultimately have r: "reach loop_init loop_step ?l2" by (rule reach_step)
  have "map_of (write_file (str ''output.json'') [55, 10] done_dir) (str ''output.json'') = Some [55, 10]" unfolding done_dir_def by code_simp
  with loop_refines_replay [OF r] r show ?thesis by (intro exI [of _ ?l2]) (simp add: new_loop_def del: write_file.simps)
qed

text \<open>
  A scheduler that has met a job too big for its queue is dead: it handles no further event, nothing but job directories changes, the
  channel takes what is left of its capacity, and then every goroutine that sends an event waits for ever.
\<close>

theorem stuck_loop_fills:
  assumes "reach loop_init loop_step l" "el_status l = LoopRuns" "el_events l = EventJobSubmitted job tasks # rest"
    and "Jobs (el_sched l) (jd_ID job) = None" "jd_Type job = TypeBatch" "list_all fresh_task tasks"
    and "pendingLeaseRequests (el_sched l) = []" "length (batchTasks (el_sched l)) \<le> taskQueueSize"
    and "taskQueueSize < length (batchTasks (el_sched l)) + length tasks" "0 < now e" "\<forall>n. \<not> ctx_done e n"
  shows "\<exists>l1. runLoop e l = Some l1 \<and>
    (\<forall>l2. loop_step\<^sup>*\<^sup>* l1 l2 \<longrightarrow>
       handled_events (el_history l2) = handled_events (el_history l1) \<and> same_memory (el_sched l) (el_sched l2) \<and>
       length (el_sent l2) \<le> length (el_sent l1) + (1024 - length rest) \<and>
       (length (el_events l2) = 1024 \<longrightarrow> send_event ev l2 = None))"
proof -
  have b: "handleEvent e (el_sched l) (EventJobSubmitted job tasks) = Blocks"
    using submit_fresh [of tasks e "(el_sched l)\<lparr>Jobs := (Jobs (el_sched l))(jd_ID job \<mapsto> job)\<rparr>" 1] assms TypeBatch_not_Stream
    by (auto simp: handleEvent_def handle_submit_def split: if_splits)
  let ?l = "l\<lparr>el_events := rest, el_history := el_history l @ [Handle e (EventJobSubmitted job tasks)], el_status := LoopStuck\<rparr>"
  have r: "runLoop e l = Some ?l" using assms(3) b by (simp add: runLoop_def Let_def)
  have len: "length (el_events ?l) \<le> eventLoopBufferSize"
    using loop.reach_inv [OF assms(1)] assms(3) by (simp add: loop_inv_def)
  show ?thesis
  proof (intro exI [of _ ?l] conjI allI impI r)
    fix l2 assume "loop_step\<^sup>*\<^sup>* ?l l2"
    then have s: "handled_events (el_history l2) = handled_events (el_history ?l)" "same_memory (el_sched ?l) (el_sched l2)"
      "length (el_sent l2) + length (el_events ?l) = length (el_sent ?l) + length (el_events l2)"
      "length (el_events l2) \<le> eventLoopBufferSize"
      using stuck_steps [OF _ _ len] by simp_all
    then show "handled_events (el_history l2) = handled_events (el_history ?l)" "same_memory (el_sched l) (el_sched l2)" by simp_all
    show "length (el_sent l2) \<le> length (el_sent ?l) + (1024 - length rest)"
      using s(3,4) by (simp add: eventLoopBufferSize_def)
    show "length (el_events l2) = 1024 \<Longrightarrow> send_event ev l2 = None"
      by (simp add: send_event_def eventLoopBufferSize_def)
  qed
qed

theorem stuck_loop_fills_witness:
  "\<exists>l l1. reach loop_init loop_step l \<and> runLoop example_env l = Some l1 \<and> same_memory NewScheduler (el_sched l1)"
proof -
  define tasks where "tasks = map new_task [2..<1100]"
  let ?ev = "EventJobSubmitted example_job tasks"
  let ?l = "new_loop no_dirs []\<lparr>el_events := [?ev], el_sent := [?ev]\<rparr>"
  have t: "list_all fresh_task tasks" using fresh_new_task by (simp add: tasks_def list_all_iff del: upt_rec_numeral)
  have n: "length tasks = 1098" unfolding tasks_def by (simp del: upt_rec_numeral)
  have e: "jd_Type example_job = TypeBatch" "0 < now example_env" "\<forall>n. \<not> ctx_done example_env n"
    by (simp_all add: example_job_def example_env_def)
  have "\<exists>l1. runLoop example_env ?l = Some l1 \<and>
    (\<forall>l2. loop_step\<^sup>*\<^sup>* l1 l2 \<longrightarrow>
       handled_events (el_history l2) = handled_events (el_history l1) \<and> same_memory (el_sched ?l) (el_sched l2) \<and>
       length (el_sent l2) \<le> length (el_sent l1) + (1024 - length ([] :: Event list)) \<and>
       (length (el_events l2) = 1024 \<longrightarrow> send_event ?ev l2 = None))"
    by (rule stuck_loop_fills [OF reach_sent, where tasks = tasks and job = example_job])
      (use t n e in \<open>simp_all add: new_loop_def on_disk_def NewScheduler_def taskQueueSize_def\<close>)
  then obtain l1 where l1: "runLoop example_env ?l = Some l1"
    "\<forall>l2. loop_step\<^sup>*\<^sup>* l1 l2 \<longrightarrow> same_memory (el_sched ?l) (el_sched l2)" by blast
  then have "same_memory NewScheduler (el_sched l1)" by (auto simp: new_loop_def on_disk_def same_memory_def)
  with l1(1) reach_sent show ?thesis by blast
qed

text \<open>
  A scheduler with more unfinished jobs on disk than its channel holds never starts: the reload sends one or two events for each of them
  before anyone receives, so with more than 1024 such directories \<open>Start\<close> never returns.
\<close>

theorem reload_overflow_blocks:
  assumes "root_dir fsys = Ok dirs" "1024 < length dirs"
    and "\<And>n d. d \<in> set dirs \<Longrightarrow> \<exists>evs n'. reload_job e fsys n d = Ok (evs, n') \<and> evs \<noteq> []"
  shows "reloadMemoryOnStartup e fsys = Blocks \<and> Start e fsys dirs_on_disk = None"
proof -
  have "reload_dirs e fsys n ds queue = Blocks"
    if "\<forall>d \<in> set ds. \<forall>n. \<exists>evs n'. reload_job e fsys n d = Ok (evs, n') \<and> evs \<noteq> []" "eventLoopBufferSize < length queue + length ds"
      "length queue \<le> eventLoopBufferSize" for n ds queue
    using that
  proof (induction ds arbitrary: n queue)
    case (Cons d ds)
    obtain evs n' where j: "reload_job e fsys n d = Ok (evs, n')" "evs \<noteq> []" using Cons.prems(1) by (meson list.set_intros(1))
    then have "1 \<le> length evs" by (cases evs) auto
    with Cons.prems j show ?case by (auto simp: send_events_def intro!: Cons.IH)
  qed simp
  then have "reloadMemoryOnStartup e fsys = Blocks"
    using assms by (simp add: reloadMemoryOnStartup_def eventLoopBufferSize_def)
  then show ?thesis by (simp add: Start_def)
qed

definition finished_fs :: job_fs where
  "finished_fs =
     \<lparr>root_dir = Ok (map (\<lambda>n. (hex_EncodeToString (id_bytes (id_of_nat n)), True)) [0..<1025]), list_dir = \<lambda>_. Ok [], read_in = \<lambda>_ _. Ok []\<rparr>"

theorem reload_overflow_blocks_witness:
  "Start \<lparr>reload_id = \<lambda>_. zero_id, reload_Unmarshal = \<lambda>_. Ok \<lparr>ep_Name = [], Total = 0, ep_Tasks = []\<rparr>\<rparr> finished_fs no_dirs = None"
proof -
  let ?e = "\<lparr>reload_id = \<lambda>_. zero_id, reload_Unmarshal = \<lambda>_. Ok \<lparr>ep_Name = [], Total = 0, ep_Tasks = []\<rparr>\<rparr>"
  let ?dirs = "map (\<lambda>n. (hex_EncodeToString (id_bytes (id_of_nat n)), True)) [0..<1025]"
  have "\<exists>evs n'. reload_job ?e finished_fs n d = Ok (evs, n') \<and> evs \<noteq> []" if "d \<in> set ?dirs" for n d
    using that by (auto simp: reload_job_def finished_fs_def hex_DecodeString_Encode Let_def simp del: upt_rec_numeral)
  moreover have "root_dir finished_fs = Ok ?dirs" by (simp add: finished_fs_def del: upt_rec_numeral)
  moreover have "1024 < length ?dirs" by (simp del: upt_rec_numeral)
  ultimately show ?thesis using reload_overflow_blocks [of finished_fs ?dirs ?e] by blast
qed

end
