(* ===== verification/Log_Rotator.thy ===== *)
theory Log_Rotator
  imports Worker Go_Encodings
begin

text \<open>
  The log rotator of a stream task (\<open>startStreamTask\<close> and \<open>startLogRotator\<close> of \<open>src/scheduler/worker.go\<close>).
  \<^item> What the task writes goes through a pipe to a scanner with a limit of 1 MiB for a line, and from it line by line to the
    loop \<open>rotate\<close>, which appends it to the current file.
  \<^item> \<open>publishAndRotate\<close> reads the current file, publishes the hexadecimal SHA-256 hash of its content under the topic
    unless it is empty, and opens a new file. A file is named by the time it is opened; its directory, the mount directory,
    is left out of the name. SHA-256 is the parameter \<open>sha256\<close>.
  \<^item> \<open>rot_env\<close> is what an event of the loop sees of its surroundings: the time, and the errors of the file system. An
    error of \<open>Put\<close> is only logged, so \<open>puts\<close>, the list of its calls, does not depend on it.
\<close>

definition maxTokenSize :: nat where "maxTokenSize = 1024 * 1024"

record rot_env =
  rot_time :: int
  open_error :: "string option"
  write_error :: "nat option"
  read_error :: "string option"

record rotator =
  currentPath :: bytes
  rot_files :: "bytes \<rightharpoonup> bytes"
  puts :: "(bytes \<times> bytes) list"

definition openNewFile :: "rot_env \<Rightarrow> bytes \<Rightarrow> rotator \<Rightarrow> rotator outcome" where
  "openNewFile e topicName st =
     (let filePath = topicName @ str ''.'' @ decimal (rot_time e) @ str ''.log'' in
      case open_error e of
        Some err \<Rightarrow> Err err
      | None \<Rightarrow> Ok (st\<lparr>currentPath := filePath, rot_files := (rot_files st)(filePath \<mapsto> [])\<rparr>))"

definition publishAndRotate :: "(bytes \<Rightarrow> bytes) \<Rightarrow> rot_env \<Rightarrow> bytes \<Rightarrow> rotator \<Rightarrow> rotator \<times> rotator outcome" where
  "publishAndRotate sha256 e topicName st =
     (let st =
        (case read_error e of
           Some _ \<Rightarrow> st
         | None \<Rightarrow>
             (case rot_files st (currentPath st) of
                None \<Rightarrow> st
              | Some fileBytes \<Rightarrow>
                  if length fileBytes > 0
                  then st\<lparr>puts := puts st @ [(topicName, hex_EncodeToString (sha256 fileBytes))]\<rparr>
                  else st))
      in (st, openNewFile e topicName st))"

definition append_line :: "rot_env \<Rightarrow> bytes \<Rightarrow> rotator \<Rightarrow> rotator" where
  "append_line e line st =
     (let b = line @ [10];
          b = (case write_error e of None \<Rightarrow> b | Some n \<Rightarrow> take n b)
      in st\<lparr>rot_files := (rot_files st)(currentPath st := map_option (\<lambda>c. c @ b) (rot_files st (currentPath st)))\<rparr>)"

datatype rot_event = RotLine bytes | RotClosed | RotTick | RotCtxDone

text \<open>The loop; the second component tells whether the function has returned.\<close>

fun rotate :: "(bytes \<Rightarrow> bytes) \<Rightarrow> bytes \<Rightarrow> (rot_env \<times> rot_event) list \<Rightarrow> rotator \<Rightarrow> rotator \<times> bool" where
  "rotate sha256 topicName [] st = (st, False)"
| "rotate sha256 topicName ((e, RotCtxDone) # evs) st = (st, True)"
| "rotate sha256 topicName ((e, RotLine line) # evs) st = rotate sha256 topicName evs (append_line e line st)"
| "rotate sha256 topicName ((e, RotClosed) # evs) st =
     (case publishAndRotate sha256 e topicName st of
        (st, Ok st') \<Rightarrow> (st', True)
      | (st, _) \<Rightarrow> (st, True))"
| "rotate sha256 topicName ((e, RotTick) # evs) st =
     (case publishAndRotate sha256 e topicName st of
        (st, Ok st') \<Rightarrow> rotate sha256 topicName evs st'
      | (st, _) \<Rightarrow> (st, True))"

text \<open>Whether the rotator reads the pipe: it does not when it was skipped or could not open its first file.\<close>

definition new_rotator :: rotator where
  "new_rotator = \<lparr>currentPath = [], rot_files = Map.empty, puts = []\<rparr>"

definition startLogRotator :: "rot_env \<Rightarrow> bool \<Rightarrow> bytes \<Rightarrow> rotator option" where
  "startLogRotator e publisher topicName =
     (if topicName = [] then None
      else if \<not> publisher then None
      else case openNewFile e topicName new_rotator of Ok st \<Rightarrow> Some st | _ \<Rightarrow> None)"

text \<open>
  \<open>startStreamTask\<close> connects the task's output to the rotator with \<open>io.Pipe\<close>: a write waits for a reader.
\<close>

definition stream_write :: "rot_env \<Rightarrow> Worker \<Rightarrow> Task \<Rightarrow> bytes \<Rightarrow> bytes option" where
  "stream_write e w task output =
     (case startLogRotator e (topicPublisher w) (Topic task) of None \<Rightarrow> None | Some _ \<Rightarrow> Some output)"

subsection \<open>Segments\<close>

definition lines_in :: "(rot_env \<times> rot_event) list \<Rightarrow> bytes list" where
  "lines_in evs = concat (map (\<lambda>(_, ev). case ev of RotLine l \<Rightarrow> [l] | _ \<Rightarrow> []) evs)"

definition lines_of :: "(rot_env \<times> rot_event) list \<Rightarrow> bytes" where
  "lines_of evs = as_text (lines_in evs)"

definition io_fine :: "rot_env \<Rightarrow> bool" where
  "io_fine e \<longleftrightarrow> open_error e = None \<and> write_error e = None \<and> read_error e = None"

abbreviation active_content :: "rotator \<Rightarrow> bytes option" where
  "active_content st \<equiv> rot_files st (currentPath st)"

definition publications :: "(bytes \<Rightarrow> bytes) \<Rightarrow> bytes \<Rightarrow> bytes list \<Rightarrow> (bytes \<times> bytes) list" where
  "publications sha256 topicName segs = map (\<lambda>s. (topicName, hex_EncodeToString (sha256 s))) (filter (\<lambda>s. s \<noteq> []) segs)"

lemma publications_simps [simp]:
  "publications sha256 t [] = []"
  "publications sha256 t (s # segs) = (if s = [] then [] else [(t, hex_EncodeToString (sha256 s))]) @ publications sha256 t segs"
  by (simp_all add: publications_def)

lemma publishAndRotate_fine:
  "io_fine e \<Longrightarrow> active_content st = Some c \<Longrightarrow>
   \<exists>st1 st'. publishAndRotate sha256 e topicName st = (st1, Ok st') \<and> active_content st' = Some [] \<and>
     puts st' = puts st @ publications sha256 topicName [c]"
  by (simp add: publishAndRotate_def openNewFile_def io_fine_def Let_def)

lemma rotate_segments:
  assumes "\<forall>(e, ev) \<in> set evs. io_fine e \<and> ev \<noteq> RotClosed \<and> ev \<noteq> RotCtxDone" "active_content st = Some c"
  shows "\<exists>st' segs c'. (\<forall>rest. rotate sha256 topicName (evs @ rest) st = rotate sha256 topicName rest st') \<and>
    active_content st' = Some c' \<and> puts st' = puts st @ publications sha256 topicName segs \<and>
    c @ lines_of evs = concat segs @ c'"
  using assms
proof (induction evs arbitrary: st c)
  case Nil
  then show ?case by (intro exI [of _ st] exI [of _ "[]"] exI [of _ c]) (simp add: lines_of_def lines_in_def as_text_def)
next
  case (Cons x evs)
  obtain e ev where x: "x = (e, ev)" by (cases x)
  have fine: "io_fine e" "\<forall>(e, ev) \<in> set evs. io_fine e \<and> ev \<noteq> RotClosed \<and> ev \<noteq> RotCtxDone"
    using Cons.prems(1) x by auto
  show ?case
  proof (cases ev)
    case (RotLine l)
    let ?st = "append_line e l st"
    have a: "active_content ?st = Some (c @ l @ [10])" "puts ?st = puts st"
      using fine(1) Cons.prems(2) by (simp_all add: append_line_def io_fine_def Let_def)
    from Cons.IH [OF fine(2) a(1)] a(2) x RotLine show ?thesis by (simp add: lines_of_def lines_in_def as_text_def)
  next
    case RotTick
    from publishAndRotate_fine [OF fine(1) Cons.prems(2)] obtain st1 st' where p:
      "publishAndRotate sha256 e topicName st = (st1, Ok st')" "active_content st' = Some []"
      "puts st' = puts st @ publications sha256 topicName [c]" by blast
    from Cons.IH [OF fine(2) p(2)] obtain st'' segs c' where
      "\<forall>rest. rotate sha256 topicName (evs @ rest) st' = rotate sha256 topicName rest st''" "active_content st'' = Some c'"
      "puts st'' = puts st' @ publications sha256 topicName segs" "lines_of evs = concat segs @ c'" by auto
    with p x RotTick show ?thesis
      by (intro exI [of _ st''] exI [of _ "c # segs"] exI [of _ c']) (simp add: lines_of_def lines_in_def)
  qed (use Cons.prems(1) x in auto)
qed

subsection \<open>Properties\<close>

text \<open>
  C35. The log rotator publishes what a stream task writes once and in order, up to the end of the loop. Let the scanner have delivered some of the
  lines of the task's output and the file operations have succeeded. Then, wherever the ticks fall, the delivered lines are the segments \<open>segs\<close>
  followed by the content \<open>c\<close> of the active file. When the task has ended, the published values are the hexadecimal hashes of the non-empty segments
  and of \<open>c\<close>, in their order; when the context ends, the loop returns without publishing \<open>c\<close>. All lines of an output without carriage returns are
  the output itself, with a newline at an unterminated last line; if a line reaches 1 MiB, the lines before it.
\<close>

theorem rotator_publishes_all:
  assumes "startLogRotator e0 True topicName = Some st0" "scan_lines maxTokenSize output = (lines_in evs @ later, tooLong)"
    and "\<forall>(e, ev) \<in> set evs. io_fine e \<and> ev \<noteq> RotClosed \<and> ev \<noteq> RotCtxDone" "io_fine e1"
  shows "\<exists>segs c closed cancelled. as_text (lines_in evs) = concat segs @ c \<and>
    rotate sha256 topicName (evs @ [(e1, RotClosed)]) st0 = (closed, True) \<and>
    puts closed = map (\<lambda>seg. (topicName, hex_EncodeToString (sha256 seg))) (filter (\<lambda>seg. seg \<noteq> []) (segs @ [c])) \<and>
    rotate sha256 topicName (evs @ [(e1, RotCtxDone)]) st0 = (cancelled, True) \<and>
    puts cancelled = map (\<lambda>seg. (topicName, hex_EncodeToString (sha256 seg))) (filter (\<lambda>seg. seg \<noteq> []) segs) \<and>
    active_content cancelled = Some c \<and>
    (later = [] \<and> 13 \<notin> set output \<longrightarrow>
      (if tooLong then \<exists>rest. output = concat segs @ c @ rest
       else concat segs @ c = output @ (if output = [] \<or> last output = 10 then [] else [10])))"
proof -
  have st0: "active_content st0 = Some []" "puts st0 = []"
    using assms(1) by (auto simp: startLogRotator_def openNewFile_def new_rotator_def Let_def split: if_splits option.splits)
  obtain st segs c where r: "\<And>rest. rotate sha256 topicName (evs @ rest) st0 = rotate sha256 topicName rest st"
    "active_content st = Some c" "puts st = publications sha256 topicName segs" "lines_of evs = concat segs @ c"
    using rotate_segments [OF assms(3) st0(1), of sha256 topicName] st0(2) by auto
  obtain st1 st' where p: "publishAndRotate sha256 e1 topicName st = (st1, Ok st')"
    "puts st' = puts st @ publications sha256 topicName [c]"
    using publishAndRotate_fine [OF assms(4) r(2), of sha256 topicName] by blast
  have puts: "puts st' = publications sha256 topicName (segs @ [c])" using p(2) r(3) by (simp add: publications_def)
  have ts: "as_text (lines_in evs) = concat segs @ c" using r(4) by (simp add: lines_of_def)
  have out: "later = [] \<and> 13 \<notin> set output \<longrightarrow>
      (if tooLong then \<exists>rest. output = concat segs @ c @ rest
       else concat segs @ c = output @ (if output = [] \<or> last output = 10 then [] else [10]))"
  proof
    assume "later = [] \<and> 13 \<notin> set output"
    with scan_lines_text [OF assms(2)] ts show "if tooLong then \<exists>rest. output = concat segs @ c @ rest
       else concat segs @ c = output @ (if output = [] \<or> last output = 10 then [] else [10])"
      by (cases tooLong) auto
  qed
  show ?thesis
    using r(1-3) p(1) puts ts out unfolding publications_def
    by - (rule exI [of _ segs], rule exI [of _ c], rule exI [of _ st'], rule exI [of _ st], simp split del: if_split)
qed

definition fine_env :: rot_env where
  "fine_env = \<lparr>rot_time = 5, open_error = None, write_error = None, read_error = None\<rparr>"

theorem rotator_publishes_all_witness:
  "\<exists>segs c closed cancelled. concat segs @ c = [65, 10, 66, 10] \<and>
    rotate (\<lambda>b. b) [116] ([(fine_env, RotLine [65]), (fine_env, RotTick), (fine_env, RotLine [66])] @ [(fine_env, RotClosed)])
      (the (startLogRotator fine_env True [116])) = (closed, True) \<and>
    puts closed = map (\<lambda>seg. ([116], hex_EncodeToString seg)) (filter (\<lambda>seg. seg \<noteq> []) (segs @ [c])) \<and>
    rotate (\<lambda>b. b) [116] ([(fine_env, RotLine [65]), (fine_env, RotTick), (fine_env, RotLine [66])] @ [(fine_env, RotCtxDone)])
      (the (startLogRotator fine_env True [116])) = (cancelled, True) \<and>
    puts cancelled = [([116], hex_EncodeToString [65, 10])] \<and> active_content cancelled = Some [66, 10]"
proof -
  let ?evs = "[(fine_env, RotLine [65]), (fine_env, RotTick), (fine_env, RotLine [66])]"
  obtain st0 where st0: "startLogRotator fine_env True [116] = Some st0"
    by (simp add: startLogRotator_def openNewFile_def fine_env_def Let_def)
  have "scan_lines maxTokenSize [65, 10, 66] = (lines_in ?evs @ [], False)"
    by (simp add: scan_lines.simps maxTokenSize_def dropCR_def lines_in_def)
  from rotator_publishes_all [OF st0 this, of fine_env "\<lambda>b. b"] st0
  obtain segs c closed cancelled where w: "concat segs @ c = [65, 10, 66, 10]"
    "rotate (\<lambda>b. b) [116] (?evs @ [(fine_env, RotClosed)]) (the (startLogRotator fine_env True [116])) = (closed, True)"
    "puts closed = map (\<lambda>seg. ([116], hex_EncodeToString seg)) (filter (\<lambda>seg. seg \<noteq> []) (segs @ [c]))"
    "rotate (\<lambda>b. b) [116] (?evs @ [(fine_env, RotCtxDone)]) (the (startLogRotator fine_env True [116])) = (cancelled, True)"
    by (auto simp: io_fine_def fine_env_def)
  moreover have "rotate (\<lambda>b. b) [116] (?evs @ [(fine_env, RotCtxDone)]) (the (startLogRotator fine_env True [116])) = (cancelled, True) \<Longrightarrow>
      puts cancelled = [([116], hex_EncodeToString [65, 10])] \<and> active_content cancelled = Some [66, 10]"
    by (auto simp: startLogRotator_def openNewFile_def new_rotator_def fine_env_def append_line_def publishAndRotate_def Let_def)
  ultimately show ?thesis by blast
qed

text \<open>
  Without a topic or a publisher the rotator is skipped and nobody reads the pipe: the stream task waits for ever at its first output.
\<close>

theorem stream_without_topic_blocks:
  "Topic task = [] \<or> \<not> topicPublisher w \<Longrightarrow> stream_write e w task output = None"
  by (auto simp: stream_write_def startLogRotator_def)

end
