(* ===== verification/Telemetry.thy ===== *)
theory Telemetry
  imports Complex_Main Go_Strings
begin

text \<open>
  The sample stream task (\<open>src/.binaries/telemetry_service.go\<close>): an endless loop that prints an event made of random numbers and sleeps. What the loop prints is given
  for every number of rounds by the random numbers drawn in them (\<open>draws\<close>).

  Parameters: the random source; rounding of a real number to \<open>float64\<close> (\<open>rnd\<close>); the JSON encoder; and how much longer than asked each round takes, in
  milliseconds, because \<open>time.Sleep\<close> pauses at least for the time it is given.
\<close>

record draws =
  d_sensor :: nat
  d_lat :: real
  d_lon :: real
  d_alt :: nat
  d_class :: nat
  d_conf :: real
  d_sleep :: nat

record inferenceEvent =
  SensorID :: bytes
  Lat :: real
  Lon :: real
  AltM :: nat
  ThreatClass :: bytes
  Confidence :: real

definition threatClasses :: "bytes list" where
  "threatClasses = [str ''t-90 tank'', str ''bm-21 grad artillery'', str ''s-400 radar dome'', str ''mechanized infantry platoon'',
     str ''hostile uav swarm'', str ''forest fire'', str ''unidentified supply convoy'']"

definition inference_event :: "(real \<Rightarrow> real) \<Rightarrow> draws \<Rightarrow> inferenceEvent" where
  "inference_event rnd d =
     \<lparr>SensorID = str ''watcher-0'' @ [49 + of_nat (d_sensor d)], Lat = rnd (48 + d_lat d), Lon = rnd (37 + d_lon d), AltM = d_alt d,
      ThreatClass = threatClasses ! d_class d, Confidence = rnd (rnd (40 / 100) + rnd (d_conf d * rnd (59 / 100)))\<rparr>"

text \<open>The time of each line, in milliseconds, and the line.\<close>

fun telemetry_run :: "(real \<Rightarrow> real) \<Rightarrow> (inferenceEvent \<Rightarrow> bytes) \<Rightarrow> nat \<Rightarrow> (draws \<times> nat) list \<Rightarrow> (nat \<times> bytes) list" where
  "telemetry_run rnd marshal now [] = []"
| "telemetry_run rnd marshal now ((d, late) # ds) =
     (now, marshal (inference_event rnd d) @ [10]) # telemetry_run rnd marshal (now + (15000 + d_sleep d) + late) ds"

text \<open>The ranges that \<open>math/rand\<close> documents.\<close>

definition draws_ok :: "draws \<Rightarrow> bool" where
  "draws_ok d \<longleftrightarrow> d_sensor d < 5 \<and> 0 \<le> d_lat d \<and> d_lat d < 1 \<and> 0 \<le> d_lon d \<and> d_lon d < 1 \<and> d_alt d < 501 \<and>
     d_class d < length threatClasses \<and> 0 \<le> d_conf d \<and> d_conf d < 1 \<and> d_sleep d < 45001"

text \<open>The laws of rounding that are used: it is monotone and leaves the integers in question alone.\<close>

definition rounding :: "(real \<Rightarrow> real) \<Rightarrow> bool" where
  "rounding rnd \<longleftrightarrow> mono rnd \<and> (\<forall>x \<in> {0, 37, 38, 48, 49}. rnd x = x)"

lemma rounding_range:
  "rounding rnd \<Longrightarrow> a \<le> x \<Longrightarrow> x \<le> b \<Longrightarrow> a \<in> {0, 37, 38, 48, 49} \<Longrightarrow> b \<in> {0, 37, 38, 48, 49} \<Longrightarrow> a \<le> rnd x \<and> rnd x \<le> b"
  unfolding rounding_def by (metis monoD)

lemma telemetry_run_times:
  "(t, l) \<in> set (telemetry_run rnd marshal now ds) \<Longrightarrow> now \<le> t"
  by (induction rnd marshal now ds rule: telemetry_run.induct) auto

subsection \<open>Properties\<close>

text \<open>
  Every field of an event is in its range. The position can reach the upper end of its range, because of rounding, although the random number stays below 1.
\<close>

theorem telemetry_ranges:
  assumes "draws_ok d" "rounding rnd"
  shows "let e = inference_event rnd d in
    SensorID e \<in> {str ''watcher-01'', str ''watcher-02'', str ''watcher-03'', str ''watcher-04'', str ''watcher-05''} \<and>
    48 \<le> Lat e \<and> Lat e \<le> 49 \<and> 37 \<le> Lon e \<and> Lon e \<le> 38 \<and> AltM e \<le> 500 \<and> ThreatClass e \<in> set threatClasses \<and>
    rnd (rnd (40 / 100)) \<le> Confidence e \<and> Confidence e \<le> rnd (rnd (40 / 100) + rnd (rnd (59 / 100)))"
proof -
  have m: "rnd x \<le> rnd y" if "x \<le> y" for x y using assms(2) that by (simp add: rounding_def monoD)
  have z: "0 \<le> rnd x" if "0 \<le> x" for x using m [OF that] assms(2) by (simp add: rounding_def)
  have d: "d_sensor d \<in> {0, 1, 2, 3, 4}" using assms(1) by (auto simp: draws_ok_def)
  have c: "0 \<le> d_conf d" "d_conf d \<le> 1" using assms(1) by (auto simp: draws_ok_def)
  have "d_conf d * rnd (59 / 100) \<le> rnd (59 / 100)" using mult_right_mono [OF c(2) z [of "59 / 100"]] by simp
  then have "Confidence (inference_event rnd d) \<le> rnd (rnd (40 / 100) + rnd (rnd (59 / 100)))"
    by (simp add: inference_event_def m)
  moreover have "0 \<le> rnd (d_conf d * rnd (59 / 100))" using c(1) z by simp
  then have "rnd (rnd (40 / 100)) \<le> Confidence (inference_event rnd d)" by (simp add: inference_event_def m)
  moreover have "SensorID (inference_event rnd d) \<in> {str ''watcher-01'', str ''watcher-02'', str ''watcher-03'', str ''watcher-04'', str ''watcher-05''}"
    using d by (auto simp: inference_event_def str_def)
  ultimately show ?thesis
    using assms rounding_range [OF assms(2), of 48 "48 + d_lat d" 49] rounding_range [OF assms(2), of 37 "37 + d_lon d" 38]
    by (auto simp: Let_def draws_ok_def inference_event_def)
qed

text \<open>
  The event rate keeps rotated files small, as its comment says: in no window of 30 seconds, the time between two rotations, are more than two events printed; and
  the loop prints one event in every round.
\<close>

theorem telemetry_rate:
  "length (telemetry_run rnd marshal now ds) = length ds \<and>
   length (filter (\<lambda>(t, _). T \<le> t \<and> t < T + 30000) (telemetry_run rnd marshal now ds)) \<le> 2"
proof
  show "length (telemetry_run rnd marshal now ds) = length ds"
    by (induction rnd marshal now ds rule: telemetry_run.induct) auto
  let ?in = "\<lambda>(t, _). T \<le> t \<and> t < T + 30000"
  have late: "filter ?in (telemetry_run rnd marshal n es) = []" if "T + 30000 \<le> n" for n es
    using telemetry_run_times [of _ _ rnd marshal n es] that by (fastforce simp: filter_empty_conv)
  have one: "length (filter ?in (telemetry_run rnd marshal n es)) \<le> 1" if "T + 15000 \<le> n" for n es
    using that late by (cases es) auto
  show "length (filter ?in (telemetry_run rnd marshal now ds)) \<le> 2"
  proof (induction ds arbitrary: now)
    case (Cons x ds)
    obtain d late where x: "x = (d, late)" by (cases x)
    let ?next = "now + (15000 + d_sleep d) + late"
    show ?case
    proof (cases "T \<le> now")
      case True
      then show ?thesis using one [of ?next ds] by (simp add: x)
    next
      case False
      then show ?thesis using Cons.IH [of ?next] by (simp add: x)
    qed
  qed simp
qed

end
