(* ===== verification/Metrics.thy ===== *)
theory Metrics
  imports Scheduler_Properties
begin

text \<open>
  The statistics of the scheduler (\<open>src/scheduler/metrics.go\<close>). The interface \<open>Stats\<close> is the datatype \<open>stat_call\<close> of its calls,
  which the model of the scheduler logs in order; \<open>PrometheusStats\<close> implements it.
  \<^item> The collectors and the registry belong to the Prometheus client library and are parameters, collected in \<open>prom_ops\<close>: making
    a collector from its name and help text, incrementing, setting and observing, and registering a list of collectors. \<open>Observe\<close>
    takes a duration; its conversion to a floating-point number of seconds is part of the parameter.
  \<^item> \<open>report\<close> is what the collectors have become after the calls of a log.
  No code of the scheduler calls \<open>IncExecFailed\<close> or \<open>SetSaturation\<close>.
\<close>

datatype ('c, 'g, 'h) collector = Counter 'c | Gauge 'g | Histogram 'h

record ('c, 'g, 'h, 'r) prom_ops =
  NewCounter :: "bytes \<Rightarrow> bytes \<Rightarrow> 'c"
  NewGauge :: "bytes \<Rightarrow> bytes \<Rightarrow> 'g"
  NewHistogram :: "bytes \<Rightarrow> bytes \<Rightarrow> 'h"
  Inc :: "'c \<Rightarrow> 'c"
  SetGauge :: "int \<Rightarrow> 'g \<Rightarrow> 'g"
  Observe :: "int \<Rightarrow> 'h \<Rightarrow> 'h"
  MustRegister :: "('c, 'g, 'h) collector list \<Rightarrow> 'r \<Rightarrow> 'r outcome"

record ('c, 'g, 'h) PrometheusStats =
  TasksEnqueued :: 'c
  TasksAssigned :: 'c
  TasksCompleted :: 'c
  DispatchFailed :: 'c
  ExecFailed :: 'c
  TaskExecDuration :: 'h
  TaskQueueDuration :: 'h
  ReadyQueueLen :: 'g
  TasksPending :: 'g
  TasksRunning :: 'g
  Saturation :: 'g

definition new_collectors :: "('c, 'g, 'h, 'r) prom_ops \<Rightarrow> ('c, 'g, 'h) PrometheusStats" where
  "new_collectors ops =
     \<lparr>TasksEnqueued = NewCounter ops (str ''tasks_enqueued_total'') (str ''Total number of tasks enqueued''),
      TasksAssigned = NewCounter ops (str ''tasks_assigned_total'') (str ''Total number of tasks assigned to workers''),
      TasksCompleted = NewCounter ops (str ''tasks_completed_total'') (str ''Total number of tasks completed successfully''),
      DispatchFailed = NewCounter ops (str ''dispatch_failed_total'') (str ''Total number of task dispatch failures''),
      ExecFailed = NewCounter ops (str ''exec_failed_total'') (str ''Total number of task execution failures''),
      TaskExecDuration = NewHistogram ops (str ''task_exec_duration_seconds'') (str ''Time from assignment to completion''),
      TaskQueueDuration =
        NewHistogram ops (str ''task_queue_duration_seconds'') (str ''Time from enqueue to assignment (queue wait time)''),
      ReadyQueueLen = NewGauge ops (str ''ready_queue_length'') (str ''Current length of the ready task queue''),
      TasksPending = NewGauge ops (str ''tasks_pending'') (str ''Current number of pending tasks ''),
      TasksRunning = NewGauge ops (str ''tasks_running'') (str ''Current number of running tasks''),
      Saturation = NewGauge ops (str ''saturation'') (str ''Scheduler saturation (user-defined scale)'')\<rparr>"

definition NewPrometheusStats :: "('c, 'g, 'h, 'r) prom_ops \<Rightarrow> 'r \<Rightarrow> (('c, 'g, 'h) PrometheusStats \<times> 'r) outcome" where
  "NewPrometheusStats ops reg =
     (let m = new_collectors ops in
      obind (MustRegister ops
        [Counter (TasksEnqueued m), Counter (TasksAssigned m), Counter (TasksCompleted m), Counter (DispatchFailed m),
         Counter (ExecFailed m), Gauge (ReadyQueueLen m), Gauge (TasksPending m), Gauge (TasksRunning m), Gauge (Saturation m),
         Histogram (TaskExecDuration m), Histogram (TaskQueueDuration m)] reg) (\<lambda>reg.
      Ok (m, reg)))"

definition prom_IncEnqueued :: "('c, 'g, 'h, 'r) prom_ops \<Rightarrow> ('c, 'g, 'h) PrometheusStats \<Rightarrow> ('c, 'g, 'h) PrometheusStats" where
  "prom_IncEnqueued ops m = m\<lparr>TasksEnqueued := Inc ops (TasksEnqueued m)\<rparr>"

definition prom_IncAssigned :: "('c, 'g, 'h, 'r) prom_ops \<Rightarrow> ('c, 'g, 'h) PrometheusStats \<Rightarrow> ('c, 'g, 'h) PrometheusStats" where
  "prom_IncAssigned ops m = m\<lparr>TasksAssigned := Inc ops (TasksAssigned m)\<rparr>"

definition prom_IncCompleted :: "('c, 'g, 'h, 'r) prom_ops \<Rightarrow> ('c, 'g, 'h) PrometheusStats \<Rightarrow> ('c, 'g, 'h) PrometheusStats" where
  "prom_IncCompleted ops m = m\<lparr>TasksCompleted := Inc ops (TasksCompleted m)\<rparr>"

definition prom_IncDispatchFailed :: "('c, 'g, 'h, 'r) prom_ops \<Rightarrow> ('c, 'g, 'h) PrometheusStats \<Rightarrow> ('c, 'g, 'h) PrometheusStats" where
  "prom_IncDispatchFailed ops m = m\<lparr>DispatchFailed := Inc ops (DispatchFailed m)\<rparr>"

definition prom_IncExecFailed :: "('c, 'g, 'h, 'r) prom_ops \<Rightarrow> ('c, 'g, 'h) PrometheusStats \<Rightarrow> ('c, 'g, 'h) PrometheusStats" where
  "prom_IncExecFailed ops m = m\<lparr>ExecFailed := Inc ops (ExecFailed m)\<rparr>"

definition prom_ObserveQueueWait :: "('c, 'g, 'h, 'r) prom_ops \<Rightarrow> int \<Rightarrow> ('c, 'g, 'h) PrometheusStats \<Rightarrow> ('c, 'g, 'h) PrometheusStats" where
  "prom_ObserveQueueWait ops d m = m\<lparr>TaskQueueDuration := Observe ops d (TaskQueueDuration m)\<rparr>"

definition prom_ObserveTaskRunDuration :: "('c, 'g, 'h, 'r) prom_ops \<Rightarrow> int \<Rightarrow> ('c, 'g, 'h) PrometheusStats \<Rightarrow> ('c, 'g, 'h) PrometheusStats" where
  "prom_ObserveTaskRunDuration ops d m = m\<lparr>TaskExecDuration := Observe ops d (TaskExecDuration m)\<rparr>"

definition prom_SetSaturation :: "('c, 'g, 'h, 'r) prom_ops \<Rightarrow> int \<Rightarrow> int \<Rightarrow> int \<Rightarrow> ('c, 'g, 'h) PrometheusStats \<Rightarrow> ('c, 'g, 'h) PrometheusStats" where
  "prom_SetSaturation ops pending running readyQueueLen m =
     m\<lparr>TasksPending := SetGauge ops pending (TasksPending m), TasksRunning := SetGauge ops running (TasksRunning m),
       ReadyQueueLen := SetGauge ops readyQueueLen (ReadyQueueLen m)\<rparr>"

lemmas prom_defs = prom_IncEnqueued_def prom_IncAssigned_def prom_IncCompleted_def prom_IncDispatchFailed_def
  prom_ObserveQueueWait_def prom_ObserveTaskRunDuration_def

fun prom_call :: "('c, 'g, 'h, 'r) prom_ops \<Rightarrow> ('c, 'g, 'h) PrometheusStats \<Rightarrow> stat_call \<Rightarrow> ('c, 'g, 'h) PrometheusStats" where
  "prom_call ops m IncEnqueued = prom_IncEnqueued ops m"
| "prom_call ops m IncAssigned = prom_IncAssigned ops m"
| "prom_call ops m IncCompleted = prom_IncCompleted ops m"
| "prom_call ops m IncDispatchFailed = prom_IncDispatchFailed ops m"
| "prom_call ops m (ObserveQueueWait d) = prom_ObserveQueueWait ops d m"
| "prom_call ops m (ObserveTaskRunDuration d) = prom_ObserveTaskRunDuration ops d m"

definition report :: "('c, 'g, 'h, 'r) prom_ops \<Rightarrow> stat_call list \<Rightarrow> ('c, 'g, 'h) PrometheusStats" where
  "report ops calls = foldl (prom_call ops) (new_collectors ops) calls"

subsection \<open>Counting\<close>

lemma report_counters:
  assumes "\<And>c. val (Inc ops c) = Suc (val c)" "\<And>name help. val (NewCounter ops name help) = 0"
  shows "val (TasksCompleted (report ops calls)) = count_list calls IncCompleted"
    "val (TasksAssigned (report ops calls)) = count_list calls IncAssigned"
proof -
  have "val (TasksCompleted (report ops calls)) = count_list calls IncCompleted \<and>
      val (TasksAssigned (report ops calls)) = count_list calls IncAssigned"
  proof (induction calls rule: rev_induct)
    case Nil
    then show ?case by (simp add: report_def new_collectors_def assms(2))
  next
    case (snoc c calls)
    then show ?case by (cases c) (simp_all add: report_def prom_defs assms(1))
  qed
  then show "val (TasksCompleted (report ops calls)) = count_list calls IncCompleted"
    "val (TasksAssigned (report ops calls)) = count_list calls IncAssigned" by simp_all
qed

definition finished_tasks :: "Scheduler \<Rightarrow> NodeId set" where
  "finished_tasks s = {i. \<exists>t. Tasks s i = Some t \<and> td_State t = StateDone}"

definition handed_tasks :: "Scheduler \<Rightarrow> NodeId set" where
  "handed_tasks s = {i. \<exists>t. Tasks s i = Some t \<and> td_State t \<noteq> StatePending}"

text \<open>Calls that hand out tasks: each one is counted; nothing is counted as completed.\<close>

definition counts_hand_outs :: "Scheduler \<Rightarrow> Scheduler \<Rightarrow> bool" where
  "counts_hand_outs s s' \<longleftrightarrow>
     (\<exists>new I. stats s' = stats s @ new \<and> IncCompleted \<notin> set new \<and>
        finite I \<and> card I \<le> count_list new IncAssigned \<and> handed_tasks s' \<subseteq> handed_tasks s \<union> I)"

lemma counts_hand_outsI:
  "stats s' = stats s @ new \<Longrightarrow> IncCompleted \<notin> set new \<Longrightarrow> finite I \<Longrightarrow> card I \<le> count_list new IncAssigned \<Longrightarrow>
   handed_tasks s' \<subseteq> handed_tasks s \<union> I \<Longrightarrow> counts_hand_outs s s'"
  unfolding counts_hand_outs_def by blast

lemma counts_hand_outs_same:
  "stats s' = stats s \<Longrightarrow> handed_tasks s' \<subseteq> handed_tasks s \<Longrightarrow> counts_hand_outs s s'"
  by (rule counts_hand_outsI [of _ _ "[]" "{}"]) auto

lemma counts_hand_outs_trans:
  assumes "counts_hand_outs s t" "counts_hand_outs t u"
  shows "counts_hand_outs s u"
proof -
  obtain n1 I1 where a: "stats t = stats s @ n1" "IncCompleted \<notin> set n1" "finite I1" "card I1 \<le> count_list n1 IncAssigned"
    "handed_tasks t \<subseteq> handed_tasks s \<union> I1" using assms(1) unfolding counts_hand_outs_def by blast
  obtain n2 I2 where b: "stats u = stats t @ n2" "IncCompleted \<notin> set n2" "finite I2" "card I2 \<le> count_list n2 IncAssigned"
    "handed_tasks u \<subseteq> handed_tasks t \<union> I2" using assms(2) unfolding counts_hand_outs_def by blast
  show ?thesis
  proof (rule counts_hand_outsI [of _ _ "n1 @ n2" "I1 \<union> I2"])
    have "card (I1 \<union> I2) \<le> card I1 + card I2" by (rule card_Un_le)
    then show "card (I1 \<union> I2) \<le> count_list (n1 @ n2) IncAssigned" using a(4) b(4) by simp
  qed (use a b in auto)
qed

lemma markTaskDispatched_counts: "counts_hand_outs s (fst (markTaskDispatched e s i))"
proof (cases "\<exists>t. Tasks s i = Some t \<and> td_State t = StatePending")
  case True
  then obtain t where t: "Tasks s i = Some t" "td_State t = StatePending" by blast
  then show ?thesis
    by (intro counts_hand_outsI [of _ _ "[IncAssigned, ObserveQueueWait (time_Sub (now e) (EnqueuedAt t))]" "{i}"])
      (auto simp: markTaskDispatched_def Let_def add_stat_def handed_tasks_def)
next
  case False
  then have "fst (markTaskDispatched e s i) = s"
    by (cases "Tasks s i") (auto simp: markTaskDispatched_def intro: TaskState.exhaust)
  then show ?thesis by (simp add: counts_hand_outs_same)
qed

lemma set_pending_counts:
  "td_State t = StatePending \<Longrightarrow> counts_hand_outs s (set_task i t s)"
  by (rule counts_hand_outs_same) (auto simp: handed_tasks_def)

lemma push_task_counts: "push_task e i s = Runs (s', err) \<Longrightarrow> counts_hand_outs s s'"
  by (rule counts_hand_outsI [of _ _ "[IncEnqueued]" "{}"])
    (auto simp: push_task_def Let_def add_stat_def handed_tasks_def split: if_splits)

lemma counts_frame:
  "counts_hand_outs s s' \<Longrightarrow> stats s'' = stats s' \<Longrightarrow> Tasks s'' = Tasks s' \<Longrightarrow> counts_hand_outs s s''"
  by (simp add: counts_hand_outs_def handed_tasks_def)

lemma counts_frame_left:
  "counts_hand_outs s s' \<Longrightarrow> stats u = stats s \<Longrightarrow> Tasks u = Tasks s \<Longrightarrow> counts_hand_outs u s'"
  by (simp add: counts_hand_outs_def handed_tasks_def)

lemma enqueueTask_counts:
  assumes "enqueueTask e s i = Runs (s', err)"
  shows "counts_hand_outs s s'"
proof (cases "s' = s")
  case True
  then show ?thesis by (simp add: counts_hand_outs_same)
next
  case False
  then obtain t where t: "Tasks s i = Some t" "\<not> Queued t" "td_State t \<noteq> StateDone" "LeaseUntil t < now e" "BackoffUntil t < now e"
    using assms by (auto simp: enqueueTask_def split: option.splits if_splits)
  define u where "u = set_task i (t\<lparr>td_State := StatePending, Queued := True\<rparr>) s"
  have su: "counts_hand_outs s u" unfolding u_def by (rule set_pending_counts) simp
  have enq: "enqueueTask e s i =
      (if length (pendingLeaseRequests u) > 0 then
         (case Jobs u (td_JobID t) of
            None \<Rightarrow> Runs (u, Some ''enqueueTask: job not found'')
          | Some job \<Rightarrow>
              (case serve_pending e (pendingLeaseRequests u) of
                 Some (r, rest) \<Rightarrow>
                   Runs (send_response (responseChan r)
                     \<lparr>payload = EncodeTask ((response_task (t\<lparr>td_State := StatePending, Queued := True\<rparr>) job)\<lparr>TaskID := i\<rparr>), lr_err = None\<rparr>
                     (fst (markTaskDispatched e (u\<lparr>pendingLeaseRequests := rest\<rparr>) (td_ID t))), None)
               | None \<Rightarrow> push_task e i (u\<lparr>pendingLeaseRequests := []\<rparr>)))
       else push_task e i u)"
    using t unfolding enqueueTask_def u_def Let_def by (simp split: option.split)
  have answer: "counts_hand_outs u (send_response ch x (fst (markTaskDispatched e (u\<lparr>pendingLeaseRequests := rest\<rparr>) j)))"
    for ch x rest j
    by (rule counts_frame [OF counts_frame_left [OF markTaskDispatched_counts [of "u\<lparr>pendingLeaseRequests := rest\<rparr>" e j]]])
      (simp_all add: send_response_def)
  have push: "push_task e i (u\<lparr>pendingLeaseRequests := rest\<rparr>) = Runs (s', err) \<Longrightarrow> counts_hand_outs u s'" for rest
    by (drule push_task_counts, erule counts_frame_left) simp_all
  have "counts_hand_outs u s'"
    using assms unfolding enq
    by (auto split: if_splits option.splits intro: answer push push_task_counts counts_hand_outs_same)
  with su show ?thesis by (rule counts_hand_outs_trans)
qed

lemma tick_tasks_counts: "tick_tasks e order s = Runs (s', err) \<Longrightarrow> counts_hand_outs s s'"
proof (induction order arbitrary: s)
  case (Cons i order)
  then show ?case
    by (auto split: option.splits if_splits progress.splits dest!: enqueueTask_counts) (meson counts_hand_outs_trans)
qed (simp add: counts_hand_outs_same)

lemma handle_tick_counts: "handle_tick e s = Runs (s', err) \<Longrightarrow> counts_hand_outs s s'"
  unfolding handle_tick_def Let_def by (drule tick_tasks_counts, erule counts_frame_left) simp_all

lemma submit_tasks_counts:
  "list_all (\<lambda>t. td_State t = StatePending) tasks \<Longrightarrow> submit_tasks e i tasks s = Runs (s', err) \<Longrightarrow> counts_hand_outs s s'"
proof (induction tasks arbitrary: i s)
  case (Cons t tasks)
  show ?case
  proof (cases "ctx_done e i")
    case False
    let ?s = "set_task (td_ID t) t s"
    have p: "counts_hand_outs s ?s" using Cons.prems(1) by (intro set_pending_counts) simp
    obtain u err' where u: "enqueueTask e ?s (td_ID t) = Runs (u, err')"
      using Cons.prems(2) False by (auto simp: Let_def split: progress.splits)
    have su: "counts_hand_outs s u" by (rule counts_hand_outs_trans [OF p enqueueTask_counts [OF u]])
    show ?thesis
    proof (cases err')
      case None
      with Cons.prems False u have "counts_hand_outs u s'" by (intro Cons.IH) (auto simp: Let_def)
      with su show ?thesis by (rule counts_hand_outs_trans)
    next
      case (Some x)
      with Cons.prems(2) False u have "s' = u" by (simp add: Let_def)
      with su show ?thesis by simp
    qed
  qed (use Cons.prems(2) in \<open>simp add: counts_hand_outs_same\<close>)
qed (simp add: counts_hand_outs_same)

lemma handle_lease_counts: "counts_hand_outs s (fst (handle_lease e s r))"
proof (cases "batchTasks s")
  case Nil
  then show ?thesis
    by (auto simp: handle_lease_def send_response_def handed_tasks_def split: option.splits intro: counts_hand_outs_same)
next
  case (Cons i rest)
  let ?s = "s\<lparr>batchTasks := rest\<rparr>"
  have "counts_hand_outs s (fst (markTaskDispatched e ?s i))"
    by (rule counts_frame_left [OF markTaskDispatched_counts [of ?s e i]]) simp_all
  with Cons show ?thesis
    by (auto simp: handle_lease_def send_response_def Let_def split: option.splits intro: counts_frame counts_hand_outs_same
        simp: handed_tasks_def)
qed

lemma markTaskDispatchFailed_counts: "markTaskDispatchFailed e s i = Runs (s', err) \<Longrightarrow> counts_hand_outs s s'"
  by (cases "s' = s", simp add: counts_hand_outs_same)
    (rule counts_hand_outsI [of _ _ "[IncDispatchFailed]" "{}"],
     auto simp: markTaskDispatchFailed_def Let_def add_stat_def handed_tasks_def split: option.splits if_splits outcome.splits)

lemma handle_submit_counts:
  assumes "event_ok s (EventJobSubmitted job tasks)" "handle_submit e s job tasks = Runs (s', err)"
  shows "counts_hand_outs s s'"
proof -
  let ?s = "s\<lparr>Jobs := (Jobs s)(jd_ID job \<mapsto> job)\<rparr>"
  have p: "list_all (\<lambda>t. td_State t = StatePending) tasks" using assms(1) by (auto simp: event_ok_def list_all_iff)
  have "submit_tasks e 1 tasks ?s = Runs (s', err) \<Longrightarrow> counts_hand_outs s s'"
    by (drule submit_tasks_counts [OF p], erule counts_frame_left) simp_all
  with assms(2) show ?thesis
    by (auto simp: handle_submit_def Let_def split: if_splits intro!: counts_hand_outs_same simp: handed_tasks_def)
qed

lemma handleEvent_counts:
  assumes "event_ok s ev" "handleEvent e s ev = Runs (s', err)" "\<nexists>i result. ev = EventTaskDone i result \<and> \<not> ctx_done e 0"
  shows "counts_hand_outs s s'"
proof (cases "ctx_done e 0")
  case True
  with assms(2) show ?thesis by (simp add: handleEvent_def counts_hand_outs_same)
next
  case False
  show ?thesis
  proof (cases ev)
    case (EventLeaseRequest r)
    with assms(2) False have "s' = fst (handle_lease e s r)" by (auto simp: handleEvent_def)
    then show ?thesis by (simp add: handle_lease_counts)
  next
    case (EventJobDone j)
    with assms(2) False obtain d where "s' = s\<lparr>job_dir := d\<rparr>" by (auto simp: handleEvent_def elim: markJobDone_frame)
    then show ?thesis by (simp add: counts_hand_outs_same handed_tasks_def)
  next
    case (EventTaskDispatchFailed i)
    with assms(2) False obtain err' where "markTaskDispatchFailed e s i = Runs (s', err')"
      by (auto simp: handleEvent_def split: progress.splits)
    then show ?thesis by (rule markTaskDispatchFailed_counts)
  qed (use assms False in \<open>auto simp: handleEvent_def intro: handle_tick_counts handle_submit_counts\<close>)
qed

lemma finished_kept: "tasks_kept s s' \<Longrightarrow> finished_tasks s' = finished_tasks s"
proof -
  have "finished_tasks u = (\<Union>j. done_set u j)" for u by (auto simp: finished_tasks_def done_set_def)
  then show "tasks_kept s s' \<Longrightarrow> ?thesis" by (simp add: done_set_kept)
qed

definition metrics_inv :: "Scheduler \<Rightarrow> bool" where
  "metrics_inv s \<longleftrightarrow>
     finite (handed_tasks s) \<and> card (handed_tasks s) \<le> count_list (stats s) IncAssigned \<and>
     card (finished_tasks s) = count_list (stats s) IncCompleted"

lemma metrics_inv_counts:
  assumes "metrics_inv s" "counts_hand_outs s s'" "finished_tasks s' = finished_tasks s"
  shows "metrics_inv s'"
proof -
  obtain new I where c: "stats s' = stats s @ new" "IncCompleted \<notin> set new" "finite I" "card I \<le> count_list new IncAssigned"
    "handed_tasks s' \<subseteq> handed_tasks s \<union> I" using assms(2) unfolding counts_hand_outs_def by blast
  have fin: "finite (handed_tasks s \<union> I)" using assms(1) c(3) by (simp add: metrics_inv_def)
  have "card (handed_tasks s') \<le> card (handed_tasks s) + card I"
    using card_mono [OF fin c(5)] card_Un_le [of "handed_tasks s" I] by linarith
  with assms c fin show ?thesis by (simp add: metrics_inv_def count_list_0_iff finite_subset)
qed

lemma metrics_inv_done:
  assumes "metrics_inv s" "markTaskDone e s i result = Runs (s', err)"
  shows "metrics_inv s'"
proof (rule markTaskDone_cases [OF assms(2)])
  fix t t' job st d
  assume a: "Tasks s i = Some t" "td_State t = StateRunning"
    "t' = t\<lparr>td_State := StateDone, Queued := False, BackoffUntil := 0, LeaseUntil := 0, DoneAt := now e\<rparr>"
    "s' = s\<lparr>Tasks := (Tasks s)(i \<mapsto> t'), Jobs := (Jobs s)(td_JobID t \<mapsto> job\<lparr>TasksDone := TasksDone job + 1\<rparr>),
       stats := st, job_dir := d\<rparr>"
    "st = stats s @ [IncCompleted, ObserveTaskRunDuration (time_Sub (now e) (DispatchedAt t))]"
  have h: "handed_tasks s' = handed_tasks s" using a(1-4) by (auto simp: handed_tasks_def)
  have f: "finished_tasks s' = insert i (finished_tasks s)" "i \<notin> finished_tasks s"
    using a(1-4) by (auto simp: finished_tasks_def)
  have "finished_tasks s \<subseteq> handed_tasks s" by (auto simp: finished_tasks_def handed_tasks_def)
  then have "finite (finished_tasks s)" using assms(1) by (auto simp: metrics_inv_def intro: finite_subset)
  with assms(1) f h a(4,5) show ?thesis by (simp add: metrics_inv_def)
qed (use assms(1) in simp)

lemma metrics_step:
  assumes "sched_inv s" "metrics_inv s" "sched_step s s'"
  shows "metrics_inv s'"
  using assms(3)
proof cases
  case (sched_event ev e err)
  show ?thesis
  proof (cases "\<exists>i result. ev = EventTaskDone i result \<and> \<not> ctx_done e 0")
    case True
    with sched_event assms(2) show ?thesis by (auto simp: handleEvent_def intro: metrics_inv_done)
  next
    case False
    with sched_event assms(1) have "tasks_kept s s'" using handleEvent_kept by blast
    with assms(2) False sched_event show ?thesis by (intro metrics_inv_counts [OF assms(2) handleEvent_counts] finished_kept) auto
  qed
next
  case (sched_register j files)
  with assms(2) show ?thesis by (simp add: metrics_inv_def handed_tasks_def finished_tasks_def)
qed

interpretation metrics: invariant_system sched_init sched_step "\<lambda>s. sched_inv s \<and> metrics_inv s"
proof unfold_locales
  show "sched_init s \<Longrightarrow> sched_inv s \<and> metrics_inv s" for s
    using New_sched_inv by (simp add: sched_init_def metrics_inv_def handed_tasks_def finished_tasks_def) (simp add: NewScheduler_def)
  show "sched_inv s \<and> metrics_inv s \<Longrightarrow> sched_step s t \<Longrightarrow> sched_inv t \<and> metrics_inv t" for s t
    using sched.inv_step metrics_step by blast
qed

subsection \<open>Properties\<close>

text \<open>
  C37. The counters count: in every reachable state of the scheduler the counter of completed tasks is the number of finished tasks,
  and it never exceeds the counter of assigned tasks.
\<close>

theorem counters_correct:
  assumes "reach sched_init sched_step s"
    and "\<And>c. val (Inc ops c) = Suc (val c)" "\<And>name help. val (NewCounter ops name help) = 0"
  shows "val (TasksCompleted (report ops (stats s))) = card (finished_tasks s) \<and>
    val (TasksCompleted (report ops (stats s))) \<le> val (TasksAssigned (report ops (stats s)))"
proof -
  have m: "metrics_inv s" using metrics.reach_inv [OF assms(1)] by blast
  have "finished_tasks s \<subseteq> handed_tasks s" by (auto simp: finished_tasks_def handed_tasks_def)
  then have "card (finished_tasks s) \<le> card (handed_tasks s)" using m unfolding metrics_inv_def by (blast intro: card_mono)
  with m show ?thesis by (simp add: report_counters [OF assms(2,3)] metrics_inv_def)
qed

definition nat_ops :: "(nat, int, int list, bytes list) prom_ops" where
  "nat_ops = \<lparr>NewCounter = \<lambda>_ _. 0, NewGauge = \<lambda>_ _. 0, NewHistogram = \<lambda>_ _. [], Inc = Suc, SetGauge = \<lambda>v _. v,
     Observe = \<lambda>d h. d # h, MustRegister = \<lambda>_ reg. Ok reg\<rparr>"

theorem counters_correct_witness:
  "reach sched_init sched_step done_state \<and>
   TasksCompleted (report nat_ops (stats done_state)) = card (finished_tasks done_state)"
proof -
  have r: "reach sched_init sched_step done_state"
    by (rule reach_step [OF reach_step [OF reach_example lease_example] result_example(1)])
  with counters_correct [OF r, of "\<lambda>n. n" nat_ops] show ?thesis by (simp add: nat_ops_def)
qed

text \<open>
  The queue-wait histogram is wrong for tasks that are handed to a waiting worker: such a task was never put into the queue, so its
  time of entry is Go's zero time and the observed wait is the largest duration, about 292 years; the task counts as assigned but
  not as enqueued. (The hypothesis on the time holds since the year 293.)
\<close>

theorem direct_hand_out_wait:
  assumes "Tasks s i = Some t" "td_ID t = i" "fresh_task t" "EnqueuedAt t = 0" "Jobs s (td_JobID t) \<noteq> None"
    and "r \<in> set (pendingLeaseRequests s)" "\<not> lease_expired e (responseChan r)" "2 ^ 63 \<le> now e"
  shows "\<exists>s'. enqueueTask e s i = Runs (s', None) \<and> stats s' = stats s @ [IncAssigned, ObserveQueueWait (2 ^ 63 - 1)]"
proof -
  obtain r' rest where p: "serve_pending e (pendingLeaseRequests s) = Some (r', rest)"
    using assms(6,7) serve_pending_None [of e "pendingLeaseRequests s"] by fastforce
  obtain job where "Jobs s (td_JobID t) = Some job" using assms(5) by blast
  moreover have "pendingLeaseRequests s \<noteq> []" using assms(6) by auto
  moreover have "time_Sub (now e) 0 = 2 ^ 63 - 1" using assms(8) by (simp add: time_Sub_def)
  ultimately show ?thesis
    using assms p
    by (simp add: enqueueTask_def fresh_task_def Let_def markTaskDispatched_def add_stat_def send_response_def)
qed

theorem direct_hand_out_wait_witness:
  "\<exists>s'. enqueueTask (example_env\<lparr>now := 2 ^ 63\<rparr>)
      (NewScheduler\<lparr>Jobs := [id_of_nat 1 \<mapsto> example_job], Tasks := [id_of_nat 2 \<mapsto> new_task 2],
        pendingLeaseRequests := [example_lease]\<rparr>) (id_of_nat 2) = Runs (s', None) \<and>
    stats s' = [IncAssigned, ObserveQueueWait (2 ^ 63 - 1)]"
  using direct_hand_out_wait [of "NewScheduler\<lparr>Jobs := [id_of_nat 1 \<mapsto> example_job], Tasks := [id_of_nat 2 \<mapsto> new_task 2],
        pendingLeaseRequests := [example_lease]\<rparr>" "id_of_nat 2" "new_task 2" example_lease "example_env\<lparr>now := 2 ^ 63\<rparr>"]
  by (simp add: new_task_def fresh_task_def example_env_def NewScheduler_def)

end
