(* ===== verification/Http_Server.thy ===== *)
theory Http_Server
  imports Job_Registration
begin

text \<open>
  The HTTP interface (\<open>src/http.go\<close>): \<open>/kv\<close> stores and reads values of the DHT, \<open>/jobs\<close> registers jobs, \<open>/metrics\<close> is served by
  the Prometheus library.
  \<^item> \<open>ResponseWriter\<close> is what \<open>net/http\<close> makes of the calls of a handler: the first \<open>WriteHeader\<close> fixes the status, later ones only
    log a warning; a write without a status fixes it to 200; so does the end of the handler.
  \<^item> \<open>kv_env\<close> has the calls of the handler that leave this file: the JSON decoder of the body (with the fields it has set),
    the JSON encoder, and \<open>Node.Put\<close> and \<open>Node.Get\<close>. The decoder of the YAML library, which the parser of job specifications calls, is a
    parameter that gives the specification as it leaves it and its error.
  \<^item> A request path is matched exactly, as \<open>ServeMux\<close> does for patterns without a trailing slash; redirects of
    unclean paths, the response headers, listening, and logging are left out.
\<close>

record KV =
  KV_Key :: bytes
  KV_Value :: bytes

record ResponseWriter =
  rw_status :: "nat option"
  rw_body :: bytes

definition WriteHeader :: "nat \<Rightarrow> ResponseWriter \<Rightarrow> ResponseWriter" where
  "WriteHeader code w = (case rw_status w of None \<Rightarrow> w\<lparr>rw_status := Some code\<rparr> | Some _ \<Rightarrow> w)"

definition Write :: "bytes \<Rightarrow> ResponseWriter \<Rightarrow> ResponseWriter" where
  "Write b w = (let w = WriteHeader 200 w in w\<lparr>rw_body := rw_body w @ b\<rparr>)"

definition http_Error :: "string \<Rightarrow> nat \<Rightarrow> ResponseWriter \<Rightarrow> ResponseWriter" where
  "http_Error msg code w = Write (str msg @ [10]) (WriteHeader code w)"

definition finish_response :: "ResponseWriter \<Rightarrow> ResponseWriter" where
  "finish_response w = WriteHeader 200 w"

definition new_response :: ResponseWriter where
  "new_response = \<lparr>rw_status = None, rw_body = []\<rparr>"

record http_request =
  Method :: bytes
  URL_Path :: bytes
  Body :: bytes

record kv_env =
  decode_kv :: "bytes \<Rightarrow> KV outcome"
  encode_kv :: "KV \<Rightarrow> bytes outcome"
  node_Put :: "bytes \<Rightarrow> bytes \<Rightarrow> unit outcome"
  node_Get :: "bytes \<Rightarrow> bytes outcome"

text \<open>The result is \<open>None\<close> when a call panics; \<open>net/http\<close> then closes the connection.\<close>

definition handleKV :: "kv_env \<Rightarrow> http_request \<Rightarrow> ResponseWriter \<Rightarrow> ResponseWriter option" where
  "handleKV e r w =
     (case decode_kv e (Body r) of
        Err _ \<Rightarrow> Some (http_Error ''invalid request body'' 400 w)
      | Panic \<Rightarrow> None
      | Ok kv \<Rightarrow>
          if Method r = str ''PUT'' then
            (case node_Put e (KV_Key kv) (KV_Value kv) of
               Err _ \<Rightarrow> Some (http_Error ''failed to store value'' 500 w)
             | Panic \<Rightarrow> None
             | Ok _ \<Rightarrow> Some (WriteHeader 201 w))
          else if Method r = str ''GET'' then
            (case node_Get e (KV_Key kv) of
               Err _ \<Rightarrow> Some (http_Error ''failed to retrieve value'' 500 w)
             | Panic \<Rightarrow> None
             | Ok v \<Rightarrow>
                 (case encode_kv e (kv\<lparr>KV_Value := v\<rparr>) of
                    Ok b \<Rightarrow> Some (Write b w)
                  | Err _ \<Rightarrow> Some w
                  | Panic \<Rightarrow> None))
          else Some (http_Error ''method not allowed'' 405 w))"

text \<open>
  \<open>handleJob\<close> returns the response and what registration did: the directory it wrote and the events it sent. A send to the
  event channel that blocks, or a panic, gives no response.
\<close>

definition handleJob :: "(bytes \<Rightarrow> JobSpec \<Rightarrow> JobSpec \<times> string option) \<Rightarrow> reg_env \<Rightarrow> http_request \<Rightarrow> ResponseWriter \<Rightarrow>
    (ResponseWriter \<times> reg_state) option" where
  "handleJob yaml e r w =
     (if Method r = str ''POST'' then
        let (jobSpec, _) = Parse yaml (Body r) zero_JobSpec in
        (case RegisterJob e jobSpec of
           Runs (st, Some _) \<Rightarrow> Some (WriteHeader 200 (WriteHeader 400 w), st)
         | Runs (st, None) \<Rightarrow> Some (WriteHeader 200 w, st)
         | _ \<Rightarrow> None)
      else Some (w, new_reg))"

definition ServeHTTP :: "kv_env \<Rightarrow> (bytes \<Rightarrow> JobSpec \<Rightarrow> JobSpec \<times> string option) \<Rightarrow> reg_env \<Rightarrow> (ResponseWriter \<Rightarrow> ResponseWriter option) \<Rightarrow>
    http_request \<Rightarrow> (ResponseWriter \<times> reg_state) option" where
  "ServeHTTP kve yaml e metrics r =
     map_option (\<lambda>(w, st). (finish_response w, st))
      (if URL_Path r = str ''/kv'' then map_option (\<lambda>w. (w, new_reg)) (handleKV kve r new_response)
       else if URL_Path r = str ''/jobs'' then handleJob yaml e r new_response
       else if URL_Path r = str ''/metrics'' then map_option (\<lambda>w. (w, new_reg)) (metrics new_response)
       else Some (http_Error ''404 page not found'' 404 new_response, new_reg))"

lemmas response_defs = WriteHeader_def Write_def http_Error_def finish_response_def new_response_def

lemma register_no_tasks: "(\<forall>n \<in> set order. js_Tasks job n = None) \<Longrightarrow> register_tasks e job order st = Runs (st, None)"
  by (induction order) auto

lemma RegisterJob_zero: "RegisterJob e zero_JobSpec = Runs (new_reg, None)"
  by (simp add: RegisterJob_def zero_JobSpec_def TypeStream_def str_def register_no_tasks)

subsection \<open>Properties\<close>

lemma path_neq [simp]: "str ''/jobs'' \<noteq> str ''/kv''" "str ''/kv'' \<noteq> str ''/jobs''" "str ''GET'' \<noteq> str ''PUT''" "str ''PUT'' \<noteq> str ''GET''"
  by (simp_all add: str_def)

text \<open>
  The status of a request to the key-value interface tells what happened: 201 exactly for a value that was stored, 400 exactly for
  a body that is not a key-value pair, 405 for another method, 500 exactly for an operation that failed; a body
  is returned with status 200 only for a value that was read.
\<close>

theorem kv_status:
  assumes "URL_Path r = str ''/kv''" "ServeHTTP kve yaml e metrics r = Some (w, st)"
  shows "st = new_reg \<and>
    (rw_status w = Some 400 \<longleftrightarrow> (\<exists>err. decode_kv kve (Body r) = Err err)) \<and>
    (rw_status w = Some 201 \<longleftrightarrow>
      (\<exists>kv. decode_kv kve (Body r) = Ok kv \<and> Method r = str ''PUT'' \<and> node_Put kve (KV_Key kv) (KV_Value kv) = Ok ())) \<and>
    (rw_status w = Some 200 \<longleftrightarrow>
      (\<exists>kv v. decode_kv kve (Body r) = Ok kv \<and> Method r = str ''GET'' \<and> node_Get kve (KV_Key kv) = Ok v \<and>
         (rw_body w = [] \<or> encode_kv kve (kv\<lparr>KV_Value := v\<rparr>) = Ok (rw_body w)))) \<and>
    (rw_status w = Some 405 \<longleftrightarrow>
      (\<exists>kv. decode_kv kve (Body r) = Ok kv) \<and> Method r \<noteq> str ''PUT'' \<and> Method r \<noteq> str ''GET'')"
proof (cases "decode_kv kve (Body r)")
  case (Ok kv)
  consider "Method r = str ''PUT''" | "Method r = str ''GET''" | "Method r \<noteq> str ''PUT''" "Method r \<noteq> str ''GET''" by blast
  then show ?thesis
    using assms Ok
    by cases (auto simp: ServeHTTP_def handleKV_def response_defs Let_def split: outcome.splits)
qed (use assms in \<open>auto simp: ServeHTTP_def handleKV_def response_defs Let_def\<close>)

definition example_kv :: kv_env where
  "example_kv = \<lparr>decode_kv = \<lambda>b. if b = [] then Err ''EOF'' else Ok \<lparr>KV_Key = b, KV_Value = [1]\<rparr>,
     encode_kv = \<lambda>kv. Ok (KV_Value kv), node_Put = \<lambda>_ _. Ok (), node_Get = \<lambda>k. if k = [7] then Ok [2] else Err ''none''\<rparr>"

definition example_http :: reg_env where
  "example_http = \<lparr>random_id = \<lambda>_. zero_id, ReadFile = \<lambda>_. Err ''no such file'', mkdir_err = None, reg_write_err = \<lambda>_. None,
     plan_read_err = None, reg_planner = \<lambda>_. Ok [], Unmarshal = \<lambda>_. Err ''EOF'', spec_order = []\<rparr>"

theorem kv_status_witness:
  "\<exists>w. ServeHTTP example_kv (\<lambda>_ to. (to, None)) example_http Some
      \<lparr>Method = str ''PUT'', URL_Path = str ''/kv'', Body = [7]\<rparr> = Some (w, new_reg) \<and> rw_status w = Some 201"
proof -
  let ?r = "\<lparr>Method = str ''PUT'', URL_Path = str ''/kv'', Body = [7]\<rparr>"
  obtain w st where w: "ServeHTTP example_kv (\<lambda>_ to. (to, None)) example_http Some ?r = Some (w, st)"
    by (simp add: ServeHTTP_def handleKV_def example_kv_def)
  from kv_status [OF _ w] have "st = new_reg" "rw_status w = Some 201"
    by (simp_all add: example_kv_def)
  with w show ?thesis by blast
qed

lemma job_response:
  assumes "URL_Path r = str ''/jobs''" "Method r = str ''POST''"
  shows "ServeHTTP kve yaml e metrics r =
    (case RegisterJob e (fst (yaml (Body r) zero_JobSpec)) of
       Runs (st, err) \<Rightarrow> Some (\<lparr>rw_status = Some (if err = None then 200 else 400), rw_body = []\<rparr>, st)
     | _ \<Rightarrow> None)"
  using assms
  by (auto simp: ServeHTTP_def handleJob_def Parse_def response_defs Let_def split: prod.splits option.splits progress.splits)

text \<open>
  C38. A posted job is answered with 400 exactly when the registration of what the parser left in the specification returns an error, and with 200 exactly
  when it does not (the second \<open>WriteHeader\<close> of a failed registration has no effect). The parser's own error \<open>parseErr\<close> has no effect: with
  any other error, or none, the answer and what is registered are the same. So a rejected body of which no field was set registers nothing
  and is answered with 200, and one of which the fields of a stream job were set before the error submits that job.
\<close>

theorem job_status:
  assumes "URL_Path r = str ''/jobs''" "Method r = str ''POST''" "ServeHTTP kve yaml e metrics r = Some (w, st)"
    and "Parse yaml (Body r) zero_JobSpec = (jobSpec, parseErr)"
  shows "(rw_status w = Some 400 \<longleftrightarrow> (\<exists>err. RegisterJob e jobSpec = Runs (st, Some err))) \<and>
    (rw_status w = Some 200 \<longleftrightarrow> RegisterJob e jobSpec = Runs (st, None)) \<and>
    ServeHTTP kve (\<lambda>b to. (fst (yaml b to), otherErr)) e metrics r = Some (w, st) \<and>
    (parseErr \<noteq> None \<and> jobSpec = zero_JobSpec \<longrightarrow> rw_status w = Some 200 \<and> st = new_reg) \<and>
    (parseErr \<noteq> None \<and> js_Type jobSpec = TypeStream \<and> js_Binary jobSpec \<noteq> [] \<and> ReadFile e (js_Binary jobSpec) = Ok binary \<longrightarrow>
      rw_status w = Some 200 \<and> (\<exists>jd. rs_events st = [EventJobSubmitted jd []] \<and> jd_Name jd = js_Name jobSpec \<and> jd_Binary jd = binary))"
proof -
  have p: "fst (yaml (Body r) zero_JobSpec) = jobSpec"
    using assms(4) by (auto simp: Parse_def split: prod.splits option.splits)
  note resp = job_response [OF assms(1,2), of kve yaml e metrics] job_response [OF assms(1,2), of kve "\<lambda>b to. (fst (yaml b to), otherErr)" e metrics]
  obtain err where r: "RegisterJob e jobSpec = Runs (st, err)" "w = \<lparr>rw_status = Some (if err = None then 200 else 400), rw_body = []\<rparr>"
    using assms(3) resp(1) p by (auto split: progress.splits prod.splits)
  have zero: "jobSpec = zero_JobSpec \<Longrightarrow> err = None \<and> st = new_reg" using r(1) RegisterJob_zero [of e] by simp
  have stream: "js_Type jobSpec = TypeStream \<and> js_Binary jobSpec \<noteq> [] \<and> ReadFile e (js_Binary jobSpec) = Ok binary \<Longrightarrow>
      err = None \<and> (\<exists>jd. rs_events st = [EventJobSubmitted jd []] \<and> jd_Name jd = js_Name jobSpec \<and> jd_Binary jd = binary)"
    using r(1) by (auto simp: RegisterJob_def reg_bind_def Let_def new_reg_def)
  show ?thesis
  proof (intro conjI impI)
    show "ServeHTTP kve (\<lambda>b to. (fst (yaml b to), otherErr)) e metrics r = Some (w, st)" using resp(2) p r by simp
  qed (use r zero stream in \<open>auto split: if_splits\<close>)
qed

theorem job_status_witness:
  "\<exists>w st jd. ServeHTTP example_kv (\<lambda>_ to. (to\<lparr>js_Name := [65], js_Type := TypeStream, js_Binary := [66]\<rparr>, Some ''line 4: cannot unmarshal''))
      (example_http\<lparr>ReadFile := \<lambda>_. Ok [1]\<rparr>) Some \<lparr>Method = str ''POST'', URL_Path = str ''/jobs'', Body = [7]\<rparr> = Some (w, st) \<and>
    rw_status w = Some 200 \<and> rs_events st = [EventJobSubmitted jd []] \<and> jd_Name jd = [65] \<and> jd_Binary jd = [1]"
proof -
  let ?r = "\<lparr>Method = str ''POST'', URL_Path = str ''/jobs'', Body = [7]\<rparr>"
  let ?spec = "zero_JobSpec\<lparr>js_Name := [65], js_Type := TypeStream, js_Binary := [66]\<rparr>"
  let ?yaml = "\<lambda>_ to. (to\<lparr>js_Name := [65], js_Type := TypeStream, js_Binary := [66]\<rparr>, Some ''line 4: cannot unmarshal'')"
  let ?e = "example_http\<lparr>ReadFile := \<lambda>_. Ok [1]\<rparr>"
  obtain st where "RegisterJob ?e ?spec = Runs (st, None)" by (simp add: RegisterJob_def reg_bind_def Let_def)
  then obtain w st where w: "ServeHTTP example_kv ?yaml ?e Some ?r = Some (w, st)"
    using job_response [of ?r example_kv ?yaml ?e Some] by simp
  have "Parse ?yaml (Body ?r) zero_JobSpec = (?spec, Some ''line 4: cannot unmarshal'')" by (simp add: Parse_def)
  from job_status [OF _ _ w this, of None "[1]"] have "rw_status w = Some 200"
    "\<exists>jd. rs_events st = [EventJobSubmitted jd []] \<and> jd_Name jd = [65] \<and> jd_Binary jd = [1]" by simp_all
  with w show ?thesis by blast
qed

end
