(* ===== verification/Program_Entry.thy ===== *)
theory Program_Entry
  imports Quic_Network Lookup Worker Scheduler
begin

text \<open>
  The program (\<open>src/main.go\<close>): flags, the wiring of a node with its scheduler, worker and HTTP server, and the exit code.
  \<^item> \<open>flag_values\<close> are the values of the command-line flags after \<open>flag.Parse\<close>, \<open>default_flags\<close> those without arguments. \<open>ParseIP\<close> and the textual
    form of an address are parameters.
  \<^item> \<open>run_env\<close> is what \<open>run\<close> sees of its surroundings. \<open>public_addr\<close> is the field \<open>PublicAddr\<close> of the network when \<open>run\<close> reads it: the request
    that would set it is commented out, so it is \<open>None\<close> unless a peer sends an unsolicited STUN response in time. \<open>shutdown\<close> is
    the error received from the listener or the HTTP server, \<open>None\<close> for a signal.
  \<^item> \<open>program\<close> is what was wired: the node, the worker, the port of the HTTP server, and which of scheduler and worker was started.
\<close>

record Config =
  cfg_IP :: bytes
  cfg_Port :: int
  BootstrapIP :: bytes
  BootstrapPort :: int
  IsBootstrap :: bool
  MountDir :: bytes
  cfg_Tags :: "bytes list"
  DeviceCapabilities :: "bytes list"

record flag_values =
  flag_ip :: bytes
  flag_port :: int
  flag_bootstrap_ip :: bytes
  flag_bootstrap_port :: int
  flag_is_bootstrap :: bool
  flag_tags :: bytes
  flag_device_capabilities :: bytes
  flag_mountdir :: bytes

definition default_flags :: flag_values where
  "default_flags =
     \<lparr>flag_ip = str ''0.0.0.0'', flag_port = 9999, flag_bootstrap_ip = str ''0.0.0.0'', flag_bootstrap_port = 9000,
      flag_is_bootstrap = False, flag_tags = [], flag_device_capabilities = [], flag_mountdir = []\<rparr>"

definition splitComma :: "bytes \<Rightarrow> bytes list" where
  "splitComma s = (if s = [] then [] else split_on 44 s)"

definition parseFlags :: "(bytes \<Rightarrow> bytes) \<Rightarrow> flag_values \<Rightarrow> Config" where
  "parseFlags ParseIP f =
     \<lparr>cfg_IP = ParseIP (flag_ip f), cfg_Port = flag_port f, BootstrapIP = ParseIP (flag_bootstrap_ip f),
      BootstrapPort = flag_bootstrap_port f, IsBootstrap = flag_is_bootstrap f, MountDir = flag_mountdir f,
      cfg_Tags = splitComma (flag_tags f), DeviceCapabilities = splitComma (flag_device_capabilities f)\<rparr>"

record run_env =
  run_randomId :: NodeId
  listen_err :: "bytes \<Rightarrow> int \<Rightarrow> string option"
  public_addr :: "UDPAddr option"
  outbound_ip :: "bytes outcome"
  ip_String :: "bytes \<Rightarrow> bytes"
  run_sha256 :: "bytes \<Rightarrow> NodeId"
  join_ctx :: "string option"
  run_ping :: "Contact \<Rightarrow> bool"
  run_lookup :: "RoutingTable \<Rightarrow> NodeId \<Rightarrow> RoutingTable"
  shutdown :: "string option"

datatype role = RunsScheduler | RunsWorker

record program =
  prog_node :: Node
  prog_worker :: Worker
  prog_http :: int
  prog_role :: role

text \<open>The result: what was started, if anything, and the error that \<open>run\<close> returns; \<open>Panic\<close> when a call panics.\<close>

definition start_node :: "run_env \<Rightarrow> NodeId \<Rightarrow> int \<Rightarrow> Node outcome" where
  "start_node e nodeID udpPort =
     (case public_addr e of
        Some a \<Rightarrow> Ok (NewNode nodeID (addr_IP a) (addr_Port a))
      | None \<Rightarrow>
          (case outbound_ip e of
             Err err \<Rightarrow> Err (''error getting outbound ip: '' @ err)
           | Panic \<Rightarrow> Panic
           | Ok localIP \<Rightarrow>
               let nodeID = run_sha256 e (ip_String e localIP @ str '':'' @ decimal udpPort)
               in Ok (NewNode nodeID localIP udpPort)))"

definition run :: "run_env \<Rightarrow> Config \<Rightarrow> (program option \<times> string option) outcome" where
  "run e cfg =
     (let udpPort = (if IsBootstrap cfg then BootstrapPort cfg else cfg_Port cfg);
          udpIP = (if IsBootstrap cfg then BootstrapIP cfg else cfg_IP cfg);
          nodeID = (if IsBootstrap cfg then zero_id else run_randomId e)
      in case listen_err e udpIP udpPort of
           Some err \<Rightarrow> Ok (None, Some (''error starting new udp network: '' @ err))
         | None \<Rightarrow>
             (case start_node e nodeID udpPort of
                Err err \<Rightarrow> Ok (None, Some err)
              | Panic \<Rightarrow> Panic
              | Ok node \<Rightarrow>
                  let worker = RegisterTopicPublisher (NewWorker (MountDir cfg) (DeviceCapabilities cfg) (cfg_Tags cfg));
                      bootstrapContact = \<lparr>ID = zero_id, IP = BootstrapIP cfg, Port = BootstrapPort cfg\<rparr>;
                      (node, joined) = (if IsBootstrap cfg then (node, Ok ())
                        else Join (join_ctx e) (run_ping e) (run_lookup e) node bootstrapContact)
                  in case joined of
                       Err err \<Rightarrow> Ok (None, Some (''failed to join network: '' @ err))
                     | Panic \<Rightarrow> Panic
                     | Ok _ \<Rightarrow>
                         Ok (Some \<lparr>prog_node = node, prog_worker = worker, prog_http = udpPort + 1000,
                               prog_role = (if IsBootstrap cfg then RunsScheduler else RunsWorker)\<rparr>, shutdown e)))"

definition main_exit :: "run_env \<Rightarrow> Config \<Rightarrow> int outcome" where
  "main_exit e cfg = obind (run e cfg) (\<lambda>(_, err). Ok (if err = None then 0 else 1))"

subsection \<open>Properties\<close>

lemma splitComma_join:
  assumes "xs \<noteq> []" "xs \<noteq> [[]]" "\<forall>x \<in> set xs. 44 \<notin> set x"
  shows "splitComma (join 44 xs) = xs"
proof -
  have "join 44 xs \<noteq> []" using assms(1,2) by (cases xs rule: remdups_adj.cases) auto
  with split_on_join [OF assms(1,3)] show ?thesis by (simp add: splitComma_def)
qed

lemma run_SomeD:
  assumes "run e cfg = Ok (Some p, err)" "public_addr e = None"
  obtains localIP where "outbound_ip e = Ok localIP"
    "ID (Self (prog_node p)) = run_sha256 e (ip_String e localIP @ str '':'' @
       decimal (if IsBootstrap cfg then BootstrapPort cfg else cfg_Port cfg))"
    "Port (Self (prog_node p)) = (if IsBootstrap cfg then BootstrapPort cfg else cfg_Port cfg)"
    "IP (Self (prog_node p)) = localIP"
  using assms
  by (auto simp: run_def start_node_def Let_def Join_def NewNode_def SetState_def split: option.splits outcome.splits if_splits prod.splits)

lemma run_roleD:
  assumes "run e cfg = Ok (Some p, err)"
  shows "prog_role p = (if IsBootstrap cfg then RunsScheduler else RunsWorker)" "err = shutdown e"
    "prog_http p = (if IsBootstrap cfg then BootstrapPort cfg else cfg_Port cfg) + 1000"
    "node_state (prog_node p) = (if IsBootstrap cfg then StateJoining else StateActive)"
    "w_tags (prog_worker p) = cfg_Tags cfg" "topicPublisher (prog_worker p)"
  using assms
  by (auto simp: run_def start_node_def Let_def Join_def NewNode_def SetState_def RegisterTopicPublisher_def NewWorker_def
      split: option.splits outcome.splits if_splits prod.splits)

lemma run_joinD:
  assumes "run e cfg = Ok (Some p, err)" "public_addr e = None" "\<not> IsBootstrap cfg"
  shows "\<exists>i. node_RoutingTable (prog_node p) =
    run_lookup e (Update (run_ping e) (NewRoutingTable i) \<lparr>ID = zero_id, IP = BootstrapIP cfg, Port = BootstrapPort cfg\<rparr>) i"
  using assms
  by (auto simp: run_def start_node_def Let_def Join_def NewNode_def SetState_def split: option.splits outcome.splits)

lemma Update_new_table: "c \<in> set (contacts (Update ping (NewRoutingTable i) c))"
proof -
  let ?rt = "NewRoutingTable i"
  have b: "bucket_of ?rt c < 256" using bucket_index_bounds [of "SelfID ?rt" "ID c"] by simp
  then have e: "Buckets ?rt ! bucket_of ?rt c = []" "length (Buckets ?rt) = 256" by (simp_all add: NewRoutingTable_def idLength_def)
  have "bucket_update ping c [] = [c]" by (simp add: bucket_update_def k_size_def)
  then have "Buckets (Update ping ?rt c) ! bucket_of ?rt c = [c]" "length (Buckets (Update ping ?rt c)) = 256"
    using b e by (simp_all add: Update_eq)
  then show ?thesis using b by (auto simp: in_contacts_iff)
qed

text \<open>
  What a started program is: only the bootstrap node runs the scheduler and only the others run workers, which have
  the configured tags and a publisher; the HTTP port is the UDP port plus 1000. Without a public address the identifier
  is the hash of address and port, whatever random identifier was drawn, so a restart keeps it.
\<close>

theorem program_wiring:
  assumes "run e cfg = Ok (Some p, err)" "public_addr e = None"
  shows "prog_role p = (if IsBootstrap cfg then RunsScheduler else RunsWorker) \<and>
    w_tags (prog_worker p) = cfg_Tags cfg \<and> topicPublisher (prog_worker p) \<and>
    prog_http p = Port (Self (prog_node p)) + 1000 \<and>
    ID (Self (prog_node p)) =
      run_sha256 e (ip_String e (IP (Self (prog_node p))) @ str '':'' @ decimal (Port (Self (prog_node p)))) \<and>
    main_exit e cfg = Ok (if shutdown e = None then 0 else 1)"
proof -
  obtain localIP where "outbound_ip e = Ok localIP"
    "ID (Self (prog_node p)) = run_sha256 e (ip_String e localIP @ str '':'' @
       decimal (if IsBootstrap cfg then BootstrapPort cfg else cfg_Port cfg))"
    "Port (Self (prog_node p)) = (if IsBootstrap cfg then BootstrapPort cfg else cfg_Port cfg)"
    "IP (Self (prog_node p)) = localIP"
    by (rule run_SomeD [OF assms])
  then show ?thesis using run_roleD [OF assms(1)] assms(1) by (simp add: main_exit_def)
qed

definition example_run :: run_env where
  "example_run =
     \<lparr>run_randomId = zero_id, listen_err = \<lambda>_ _. None, public_addr = None, outbound_ip = Ok [10, 0, 0, 1],
      ip_String = \<lambda>b. b, run_sha256 = \<lambda>b. id_of_nat (length b), join_ctx = None, run_ping = \<lambda>_. True,
      run_lookup = \<lambda>rt _. rt, shutdown = None\<rparr>"

definition boot_cfg :: Config where
  "boot_cfg = parseFlags (\<lambda>b. b) (default_flags\<lparr>flag_is_bootstrap := True\<rparr>)"

definition worker_cfg :: Config where
  "worker_cfg = parseFlags (\<lambda>b. b) (default_flags\<lparr>flag_tags := str ''a,b''\<rparr>)"

lemma example_runs:
  "\<exists>p. run example_run boot_cfg = Ok (Some p, None)" "\<exists>p. run example_run worker_cfg = Ok (Some p, None)"
  by (simp_all add: run_def start_node_def example_run_def boot_cfg_def worker_cfg_def parseFlags_def default_flags_def Join_def Let_def
      split: prod.splits)

theorem program_wiring_witness:
  "\<exists>p. run example_run worker_cfg = Ok (Some p, None) \<and> prog_role p = RunsWorker \<and>
     w_tags (prog_worker p) = [str ''a'', str ''b''] \<and> main_exit example_run worker_cfg = Ok 0"
proof -
  obtain p where p: "run example_run worker_cfg = Ok (Some p, None)" using example_runs by blast
  have c: "cfg_Tags worker_cfg = [str ''a'', str ''b'']" "\<not> IsBootstrap worker_cfg"
    by (simp_all add: worker_cfg_def parseFlags_def default_flags_def splitComma_def str_def)
  show ?thesis using program_wiring [OF p] p c by (auto simp: example_run_def)
qed

text \<open>
  C39. Nodes join a node that does not exist: a node that joins looks up its peers through a routing table that holds a
  contact with the zero identifier at the bootstrap node's port, while the bootstrap node itself has the hash of its address as
  identifier (the zero identifier it was first given is overwritten), and stays in the state of a joining node.
\<close>

theorem bootstrap_identity:
  assumes "run e cfg = Ok (Some boot, err)" "public_addr e = None" "IsBootstrap cfg" "\<And>b. run_sha256 e b \<noteq> zero_id"
    and "run e' cfg' = Ok (Some peer, err')" "public_addr e' = None" "\<not> IsBootstrap cfg'" "BootstrapPort cfg' = BootstrapPort cfg"
  shows "ID (Self (prog_node boot)) \<noteq> zero_id \<and> node_state (prog_node boot) = StateJoining \<and>
    (\<exists>i c rt. c \<in> set (contacts rt) \<and> ID c = zero_id \<and> Port c = Port (Self (prog_node boot)) \<and>
       node_RoutingTable (prog_node peer) = run_lookup e' rt i)"
proof -
  let ?c = "\<lparr>ID = zero_id, IP = BootstrapIP cfg', Port = BootstrapPort cfg'\<rparr>"
  obtain i where "node_RoutingTable (prog_node peer) = run_lookup e' (Update (run_ping e') (NewRoutingTable i) ?c) i"
    using run_joinD [OF assms(5-7)] by blast
  moreover have "?c \<in> set (contacts (Update (run_ping e') (NewRoutingTable i) ?c))" by (rule Update_new_table)
  moreover have "Port (Self (prog_node boot)) = BootstrapPort cfg" "ID (Self (prog_node boot)) \<noteq> zero_id"
    using run_SomeD [OF assms(1,2)] assms(3,4) by metis+
  ultimately show ?thesis
    using run_roleD(4) [OF assms(1)] assms(3,8)
    by (intro conjI exI [of _ i] exI [of _ ?c] exI [of _ "Update (run_ping e') (NewRoutingTable i) ?c"]) simp_all
qed

theorem bootstrap_identity_witness:
  "\<exists>boot peer c. run (example_run\<lparr>run_sha256 := \<lambda>_. id_of_nat 5\<rparr>) boot_cfg = Ok (Some boot, None) \<and>
     run example_run worker_cfg = Ok (Some peer, None) \<and> ID (Self (prog_node boot)) \<noteq> zero_id \<and>
     c \<in> set (contacts (node_RoutingTable (prog_node peer))) \<and> ID c = zero_id \<and> Port c = Port (Self (prog_node boot))"
proof -
  let ?e = "example_run\<lparr>run_sha256 := \<lambda>_. id_of_nat 5\<rparr>"
  have "id_of_nat 5 \<noteq> zero_id" by code_simp
  obtain peer where peer: "run example_run worker_cfg = Ok (Some peer, None)" using example_runs by blast
  obtain boot where boot: "run ?e boot_cfg = Ok (Some boot, None)"
    by (simp add: run_def start_node_def example_run_def boot_cfg_def parseFlags_def default_flags_def Let_def)
  have "\<exists>i c rt. c \<in> set (contacts rt) \<and> ID c = zero_id \<and> Port c = Port (Self (prog_node boot)) \<and>
       node_RoutingTable (prog_node peer) = run_lookup example_run rt i"
    "ID (Self (prog_node boot)) \<noteq> zero_id"
    using bootstrap_identity [OF boot _ _ _ peer] \<open>id_of_nat 5 \<noteq> zero_id\<close>
    by (simp_all add: example_run_def boot_cfg_def worker_cfg_def parseFlags_def default_flags_def)
  with boot peer show ?thesis by (auto simp: example_run_def)
qed

end
