(* ===== verification/Spec2Isabelle.thy ===== *)
theory Spec2Isabelle
  imports Quic_Listener Lookup_Results Scheduler_Properties Cluster_Sample Event_Loop Log_Rotator Telemetry Metrics Http_Server Program_Entry
begin

text \<open>
  A verification development for \<open>kademlia-dfs\<close>: a Kademlia distributed hash table in Go, and on top of it
  a distributed job scheduler that plans, distributes, executes and merges WebAssembly tasks.

  \<^bold>\<open>The program and how its parts interact.\<close> Every process runs a node (\<open>src/kademlia/node.go\<close>). A node keeps a routing
  table of contacts, ordered by the XOR distance of 256-bit identifiers, and a map from keys to stored values. It
  answers the four requests of the DHT, which arrive through the UDP or the QUIC network, and makes them itself in its iterative lookups
  (\<open>Join\<close>, \<open>Get\<close>, \<open>Put\<close>). The bootstrap node also runs the scheduler: an HTTP request registers a job from a YAML
  specification, a planner module cuts it into tasks, and one goroutine handles all events (ticks, submitted
  jobs, lease requests, results). The other nodes run workers: they poll the scheduler over QUIC streams, execute tasks and
  send the results back, and publish the output of stream tasks in the DHT under a topic. Results are files; when the last
  one of a job is there, the merger module makes the output of them. After a restart the scheduler rebuilds its state
  from the files.

  \<^bold>\<open>Which theory models which part.\<close> The definitions keep the names of the Go functions, with a prefix or a suffix where two functions have the same name.
  \<^item> \<open>Kad_Prelude\<close>: byte strings, big-endian integers, slicing with its panics, the result type \<open>outcome\<close>
    (\<open>Ok\<close>, \<open>Err\<close>, \<open>Panic\<close>), and the contracts shared by the components as locales: \<open>byte_codec\<close> (a decoder undoes an encoder and
    leaves the rest), \<open>invariant_system\<close> and \<open>ranked_system\<close> (a step relation with an invariant, and with a measure that falls).
    \<open>Go_Strings\<close> and \<open>Go_Encodings\<close>: what the code uses of \<open>strings\<close>, \<open>strconv\<close>, \<open>encoding/hex\<close> and \<open>encoding/base64\<close>.
  \<^item> \<open>Node_Id\<close> (\<open>kademlia.go\<close>): identifiers and \<open>XorDistance\<close>, which is the position of the highest differing bit and so is coarser
    than the exact XOR metric, with which it is compared.
  \<^item> \<open>Bounded_Insertion\<close> is an abstract specification, on lists, of a bounded sorted collection. \<open>Contact_Sorter\<close> (\<open>contact.go\<close>) models the
    array with its insertion loop and shows that it implements this specification.
  \<^item> \<open>Routing_Table\<close> (\<open>routingtable.go\<close>): \<open>Update\<close>, \<open>Remove\<close>, \<open>FindClosest\<close>; \<open>rt_step\<close> interleaves the critical sections of
    concurrent updates, which release the lock while they ping.
  \<^item> \<open>Topic_Value\<close> (\<open>parseTopicValue\<close>, \<open>mergeTopicValue\<close>, \<open>formatTopicValue\<close>) and \<open>Dht_Node\<close> (the handlers of \<open>node.go\<close>). The locale
    \<open>join_register\<close> describes a register whose stores are joins; the stored topic values are an instance of it. The locale \<open>dht_handler\<close> is
    the interface \<open>DHTHandler\<close> the networks call.
  \<^item> \<open>Rpc_Codec\<close> (\<open>Encode\<close>, \<open>Decode\<close> of \<open>network.go\<close>), \<open>Rpc_Network\<close> (the UDP network: calls, dispatch, packet loop) and
    \<open>Quic_Network\<close> (\<open>quic_network.go\<close>: the same over QUIC, and the length-prefixed task streams). Packets travel in datagrams of limited size and are read into a buffer of 65535 bytes. \<open>Quic_Listener\<close>: \<open>Listen\<close> with its goroutines as a step
    relation, the registration of the handlers, which may come late, the certificate, and how addresses are found out (\<open>SendSTUNRequest\<close>, \<open>GetOutboundIP\<close>).
  \<^item> \<open>Lookup\<close> (\<open>Lookup\<close>, \<open>ValueLookup\<close>, \<open>Join\<close>, \<open>Get\<close>, \<open>Put\<close>): each lookup is a machine that issues queries and receives
    their results in any order. \<open>Lookup_Results\<close>, what a lookup returns.
  \<^item> \<open>Task_Codec\<close> (\<open>src/runtime\<close>): tasks, \<open>EncodeTask\<close>, \<open>DecodeTask\<close>, \<open>RunTask\<close>.
  \<^item> \<open>Scheduler\<close> (\<open>handleEvent\<close> of \<open>scheduler.go\<close> and the state changes of \<open>task.go\<close>) with the invariant \<open>sched_inv\<close>;
    \<open>Scheduler_Properties\<close>, what it promises; \<open>Event_Loop\<close> (\<open>Start\<close>, \<open>startTicker\<close>, \<open>runLoop\<close>), the goroutine with its bounded channel, started in the directories that are on disk;
    \<open>Lease_Answers\<close>, what the answers to leases tell the workers; \<open>Metrics\<close> (\<open>metrics.go\<close>).
  \<^item> \<open>Job_Registration\<close> (\<open>Parse\<close>, \<open>RegisterJob\<close>, \<open>reloadMemoryOnStartup\<close>, \<open>HandleMessage\<close>, \<open>HandleTaskLeaseRequest\<close>); \<open>Job_Files\<close> and
    \<open>Job_Properties\<close>, what the directory of a job holds at every moment and what a restart makes of it.
  \<^item> \<open>Worker\<close> (\<open>worker.go\<close>: polling, eight executors, eight senders, in all interleavings) and \<open>Log_Rotator\<close> (its stream
    tasks and log segments).
  \<^item> \<open>Word_Count\<close> (\<open>src/.binaries\<close>): the planner, mapper and reducer of the sample job. \<open>Telemetry\<close>: the sample stream task.
  \<^item> \<open>Task_Lifecycle\<close> and \<open>Job_Output\<close> put the parts together: one task from the poll of a worker to its result file, over the wire and
    through the event loop; one job from its registration to its output. \<open>Cluster\<close> is the whole system: one scheduler, any number of workers, each with all its
    goroutines, and a network that keeps every message ever sent and delivers it never, once or often; crashes and joins of workers are steps too, a restart of the scheduler is not. \<open>Cluster_Sample\<close> runs a job in it.
  \<^item> \<open>Http_Server\<close> (\<open>http.go\<close>) and \<open>Program_Entry\<close> (\<open>main.go\<close>).

  \<^bold>\<open>What the lemmas show.\<close>
  \<^item> DHT: the sorter equals a stable sort cut off at its capacity; \<open>FindClosest\<close> returns closest contacts; buckets stay
    bounded and well placed under every interleaving, and which race duplicates a contact; topic values form a join
    semilattice, so replicas converge to the same bytes; a published hash is found again through encoded messages.
  \<^item> System: the cluster implements map and reduce. Whatever is lost, late, repeated or reordered, and whichever workers crash or join, the output of a job is
    what its merger makes of exactly one correct result for each task; a word count job gives the counts. A job with an empty plan is not merged before a restart.
  \<^item> Listener: it refines a node that serves the requests read in order and at most once, and discards those that come before the handler is registered; the second STUN message ends the reading of DHT packets.
  \<^item> Wire formats: both directions of every codec, and the packets on which a decoder panics.
  \<^item> Lookups: at most three queries in flight, none repeated, at most 8192 queries; the result is the closest of all contacts learned, all
    of them queried; which answers are never read; a value lookup can wait for ever.
  \<^item> Scheduler: the invariant of queue, leases and tasks; results are final and counted once; expired leases are recovered; the concurrent
    loop refines handling events in the order of sending, also after a restart; a job that does not fit into the queue stops the
    loop; the backoff bounds and their overflow; the counters of the metrics agree with the state.
  \<^item> Jobs: a registration starts exactly the tasks of its plan, provided a map is iterated in one of six orders; a restart repeats exactly the
    tasks without a result; a failed reducer completes the job with an empty output.
  \<^item> Workers: every task received is accounted for, with what the runtime made of it; the inputs that end the executors; what the log rotator publishes, and that it loses the active file when the context ends.
  \<^item> Interface: the status of every request, and that the error of the job parser is ignored.

  \<^bold>\<open>Bounds.\<close> Recursions are structural or have a measure; there is no fuel. The 8192 queries of a lookup are 256 bits of distance
    times the 32 slots of its short list; the proof derives the number from the code's constants. Channels have the capacities of
    the code: 1024 events, 1024 tasks, pools of eight. A \<open>make\<close> with a length from the wire fails when it exceeds the
    memory; its size is the parameter \<open>mem\<close>, and every statement holds for each value of it. Machine
    integers are words of their width, or integers with the wrap-around written out.

  \<^bold>\<open>Parameters.\<close> Code outside the repository is an argument: whether a ping is answered, SHA-256 and the random identifiers, clocks and
    contexts, the iteration order of maps, the file system and its errors, the WebAssembly engine, the JSON and YAML decoders, Unicode
    tables, the replies on a QUIC stream, sockets, \<open>quic-go\<close>, \<open>x509\<close> and STUN by what their calls return, rounding to \<open>float64\<close>, the Prometheus collectors. Hypotheses on them are named in the theorems that need them.

  \<^bold>\<open>Not modelled.\<close> \<open>Print\<close> of the contact sorter and all logging have no effect on the state. \<open>NewNodeId\<close> and \<open>NewRandomId\<close> only call SHA-256
    and the random source: they are parameters. Time stands still while one event of the scheduler is handled.
    The interleaving of memory accesses inside one critical section, and data races between goroutines that share a map
    without a lock, are outside the model.
\<close>

section \<open>The whole system\<close>

text \<open>
  C1. The cluster implements map and reduce: let a job be submitted from a plan in which every task has its number, and let the scheduler, any number of workers
  and the network take any steps, with messages that are lost, late, repeated or out of order, workers that crash or join, leases that expire, and other jobs. When
  all tasks of the job are done, each was executed without an error and the output file contains what the merger makes of exactly one result for each task of the plan; as long as one is not, there is no output.
\<close>

theorem cluster_map_reduce:
  assumes "reach cl_init (cl_step mem exec (merge_env P j) j) c" "job_started j plan mb (cl_sched c)" "Jobs (cl_sched c) j = Some job"
    and "plan_ok plan" "ep_Tasks plan \<noteq> []" "(cl_step mem exec (merge_env P j) j)\<^sup>*\<^sup>* c c'"
  shows "if card (done_set (cl_sched c') j) = length (ep_Tasks plan)
    then \<exists>files. mset (map Ok (result_files files)) = mset (map (\<lambda>p. exec (jd_Binary job) (plan_input p)) (ep_Tasks plan)) \<and>
      dir_map (cl_sched c') j output_file = (case P mb (ndjson files) of Ok out \<Rightarrow> Some out | _ \<Rightarrow> None)
    else dir_map (cl_sched c') j output_file = None"
proof -
  let ?f = "\<lambda>stdin. case exec (jd_Binary job) stdin of Ok out \<Rightarrow> out | _ \<Rightarrow> []"
  have inv: "cl_inv mem exec c" by (rule cl.reach_inv [OF assms(1)])
  have "computes exec (jd_Binary job) ?f" by (simp add: computes_def)
  then have m: "merged P ?f j plan mb (cl_sched c')" using cluster_job [OF inv assms(2-6)] by blast
  show ?thesis
  proof (cases "card (done_set (cl_sched c') j) = length (ep_Tasks plan)")
    case True
    then obtain files where f: "mset (result_files files) = mset (map (\<lambda>p. ?f (plan_input p)) (ep_Tasks plan))"
      "dir_map (cl_sched c') j output_file = (case P mb (ndjson files) of Ok out \<Rightarrow> Some out | _ \<Rightarrow> None)"
      using m unfolding merged_def by auto
    have "map (\<lambda>p. Ok (?f (plan_input p))) (ep_Tasks plan) = map (\<lambda>p. exec (jd_Binary job) (plan_input p)) (ep_Tasks plan)"
      using cluster_executed [OF inv assms(2-6) True] by (fastforce split: outcome.splits)
    with arg_cong [OF f(1), of "image_mset Ok"]
    have "mset (map Ok (result_files files)) = mset (map (\<lambda>p. exec (jd_Binary job) (plan_input p)) (ep_Tasks plan))"
      by (simp add: image_mset.compositionality comp_def flip: mset_map)
    with True f(2) show ?thesis by auto
  next
    case False
    with m show ?thesis by (simp add: merged_def)
  qed
qed

theorem cluster_map_reduce_witness:
  "\<exists>c' files. word_step\<^sup>*\<^sup>* word_start c' \<and> result_files files = [str ''{go:2}'' @ [10]] \<and>
     dir_map (cl_sched c') (id_of_nat 1) output_file = (case word_merger [1] (ndjson files) of Ok out \<Rightarrow> Some out | _ \<Rightarrow> None)"
proof -
  obtain c' where c': "word_step\<^sup>*\<^sup>* word_start c'" "card (done_set (cl_sched c') (id_of_nat 1)) = length (p_Tasks (plan_run (str ''Go, go'')))"
    using word_run by blast
  let ?plan = "word_plan (str ''Go, go'')"
  have ok: "plan_ok ?plan" by (rule word_plan_ok [OF sample_counts(3)])
  have "ep_Tasks ?plan \<noteq> []" by (simp add: word_plan_sample)
  moreover have "card (done_set (cl_sched c') (id_of_nat 1)) = length (ep_Tasks ?plan)" unfolding c'(2) by (simp add: word_plan_def)
  moreover have "job_started (id_of_nat 1) ?plan [1] (cl_sched word_start)" "Jobs (cl_sched word_start) (id_of_nat 1) = Some word_job"
    using word_started by (simp_all add: word_start_def word_submitted_def)
  moreover have "plan_input (hd (ep_Tasks ?plan)) = str ''Go, go''" by (simp add: word_plan_sample plan_input_def b64_DecodeString_Encode)
  ultimately obtain files where f: "mset (map Ok (result_files files)) = mset [word_exec (jd_Binary word_job) (str ''Go, go'')]"
    "dir_map (cl_sched c') (id_of_nat 1) output_file = (case word_merger [1] (ndjson files) of Ok out \<Rightarrow> Some out | _ \<Rightarrow> None)"
    using cluster_map_reduce [OF word_reach _ _ ok _ c'(1), of "[1]" word_job] by (auto simp: word_plan_sample)
  have "word_exec (jd_Binary word_job) (str ''Go, go'') = Ok (str ''{go:2}'' @ [10])"
    using word_executed by (simp add: word_message_def response_task_def word_task_def)
  then have "mset (map Ok (result_files files)) = {#Ok (str ''{go:2}'' @ [10])#}" using f(1) by simp
  then have "map Ok (result_files files) = [Ok (str ''{go:2}'' @ [10])]" unfolding mset_single_iff .
  then have "result_files files = [str ''{go:2}'' @ [10]]" by auto
  with c'(1) f(2) show ?thesis by blast
qed



text \<open>
  C33. A job whose plan has no task waits for a restart: all its tasks are done from the start, but only a result or \<open>EventJobDone\<close> makes the scheduler merge, and neither a
  registration nor a message ever sends that event; so as long as the scheduler runs there is no output file. After a restart the reload sends it, and a scheduler
  that works on the directory and has a reducer that succeeds on an empty input then writes the output.
\<close>

theorem empty_job_waits_for_restart:
  assumes "reach cl_init (cl_step mem exec E j) c" "job_started j plan mb (cl_sched c)" "plan_ok plan" "ep_Tasks plan = []"
    and "(cl_step mem exec E j)\<^sup>*\<^sup>* c c'"
    and "dir_map (cl_sched c) j plan_file = Some planBytes" "dir_map (cl_sched c) j (str ''reduce.wasm'') = Some reducer"
    and "reads_dir fsys (cl_sched c') j" "reload_Unmarshal re planBytes = Ok plan"
    and "Jobs s j = None" "job_dir s j = job_dir (cl_sched c') j" "merge_env P j e" "\<not> ctx_done e 0" "P reducer [] = Ok out"
  shows "dir_map (cl_sched c') j output_file = None \<and> (\<exists>job. Jobs (cl_sched c') j = Some job \<and> TasksDone job = TasksTotal job) \<and>
    (\<forall>r spec st err. RegisterJob r spec = Runs (st, err) \<longrightarrow> EventJobDone j \<notin> set (rs_events st)) \<and>
    (\<forall>m ch answer. EventJobDone j \<notin> set (snd (HandleMessage mem ch answer m))) \<and>
    (\<exists>jd n' s1 s2. reload_job re fsys n (NodeId_String j, True) = Ok ([EventJobSubmitted jd [], EventJobDone j], n') \<and>
      handleEvent e s (EventJobSubmitted jd []) = Runs (s1, None) \<and> handleEvent e s1 (EventJobDone j) = Runs (s2, None) \<and>
      dir_map s2 j output_file = Some out)"
proof -
  obtain job where job: "Jobs (cl_sched c) j = Some job" using assms(2) by (auto simp: job_started_def)
  let ?f = "\<lambda>stdin. case exec (jd_Binary job) stdin of Ok out \<Rightarrow> out | _ \<Rightarrow> []"
  have inv: "cl_inv mem exec c" by (rule cl.reach_inv [OF assms(1)])
  then have s: "sched_inv (cl_sched c)" by (simp add: cl_inv_def lease_inv_def)
  have "computes exec (jd_Binary job) ?f" by (simp add: computes_def)
  then have "(job_step E ?f j)\<^sup>*\<^sup>* (cl_sched c) (cl_sched c')" using cl_steps_job [OF assms(5) inv job] by blast
  from no_tasks_steps [OF this job_started_inv [OF assms(2)] assms(3) s assms(4)]
  have c': "job_dir (cl_sched c') j = job_dir (cl_sched c) j" "job_inv ?f j plan mb (cl_sched c')" by blast+
  have dm: "dir_map (cl_sched c') j = dir_map (cl_sched c) j" using c'(1) by (simp add: dir_map_def)
  have dom: "dom (dir_map (cl_sched c') j) = insert plan_file job_binaries" using assms(2) dm by (simp add: job_started_def)
  have "output_file \<notin> insert plan_file job_binaries" by (simp add: output_file_def plan_file_def job_binaries_def str_def)
  then have out: "output_file \<notin> dom (dir_map (cl_sched c') j)" unfolding dom .
  have "card (done_set (cl_sched c') j) = 0" using done_finite(2,3) [OF c'(2) assms(3)] assms(4) by simp
  then have total: "\<exists>job. Jobs (cl_sched c') j = Some job \<and> TasksDone job = TasksTotal job"
    using c'(2) assms(3,4) by (auto simp: job_inv_def plan_ok_def)
  obtain jd tds n' where r: "reload_job re fsys n (NodeId_String j, True) =
      Ok (if tds \<noteq> [] then [EventJobSubmitted jd tds] else [EventJobSubmitted jd [], EventJobDone j], n')" "jd_ID jd = j" "jd_Type jd = TypeBatch"
    "dir_map (cl_sched c') j (str ''reduce.wasm'') = Some (MergerBinary jd)"
    "map (\<lambda>td. (ChunkID td, Ok (td_Stdin td))) tds =
      map (\<lambda>t. (etp_ID t, b64_DecodeString (etp_Stdin t))) (filter (\<lambda>t. etp_ID t \<notin> {}) (ep_Tasks plan))"
    using reload_job_resumes [where s = "cl_sched c'" and j = j and C = "{}" and n = n, OF out _ _ _ assms(8,9,3)] dom dm assms(6) by auto
  have tds: "tds = []" using r(5) assms(4) by simp
  let ?s1 = "s\<lparr>Jobs := (Jobs s)(j \<mapsto> jd)\<rparr>" and ?dir = "write_file (str ''output.json'') out (job_dir s j)"
  have h1: "handleEvent e s (EventJobSubmitted jd []) = Runs (?s1, None)"
    using assms(10,13) r(2,3) TypeBatch_not_Stream by (simp add: handleEvent_def handle_submit_def)
  have nd: "ndjson (job_dir s j) = []" using no_results [OF assms(2)] assms(11) c'(1) by simp
  have "MergerBinary jd = reducer" using r(4) assms(7) dm by simp
  with nd assms(12-14) have h2: "handleEvent e ?s1 (EventJobDone j) = Runs (?s1\<lparr>job_dir := (job_dir s)(j := ?dir)\<rparr>, None)"
    by (simp add: handleEvent_def markJobDone_def merge_env_def output_file_def)
  have restart: "\<exists>jd n' s1 s2. reload_job re fsys n (NodeId_String j, True) = Ok ([EventJobSubmitted jd [], EventJobDone j], n') \<and>
      handleEvent e s (EventJobSubmitted jd []) = Runs (s1, None) \<and> handleEvent e s1 (EventJobDone j) = Runs (s2, None) \<and>
      dir_map s2 j output_file = Some out"
    using r(1) tds h1 h2
    by (intro exI [of _ jd] exI [of _ n'] exI [of _ ?s1] exI [of _ "?s1\<lparr>job_dir := (job_dir s)(j := ?dir)\<rparr>"])
      (simp add: dir_map_def map_of_write_file output_file_def)
  have "\<forall>m ch answer. EventJobDone j \<notin> set (snd (HandleMessage mem ch answer m))" using HandleMessage_events by fastforce
  moreover have "\<forall>r spec st err. RegisterJob r spec = Runs (st, err) \<longrightarrow> EventJobDone j \<notin> set (rs_events st)" using RegisterJob_events by blast
  ultimately show ?thesis using out total restart by (auto simp: domIff)
qed

theorem empty_job_waits_for_restart_witness:
  "\<exists>c' jd n' s1 s2. word_step empty_start c' \<and> cl_workers c' = [idle_worker] \<and> dir_map (cl_sched c') (id_of_nat 1) output_file = None \<and>
     reload_job empty_reload two_fs 0 (NodeId_String (id_of_nat 1), True) = Ok ([EventJobSubmitted jd [], EventJobDone (id_of_nat 1)], n') \<and>
     handleEvent empty_env (on_disk (job_dir (cl_sched c'))) (EventJobSubmitted jd []) = Runs (s1, None) \<and>
     handleEvent empty_env s1 (EventJobDone (id_of_nat 1)) = Runs (s2, None) \<and> dir_map s2 (id_of_nat 1) output_file = Some (str ''{}'')"
proof -
  let ?c = "\<lparr>cl_sched = cl_sched empty_start, cl_workers = [idle_worker], cl_net = []\<rparr> :: cluster" and ?j = "id_of_nat 1"
  have p: "plan_ok empty_plan" "ep_Tasks empty_plan = []" by (simp_all add: plan_ok_def empty_plan_def)
  have d: "job_dir (cl_sched empty_start) ?j = two_files" by (simp add: empty_start_def two_registered_def)
  have f: "dir_map (cl_sched empty_start) ?j plan_file = Some [1]" "dir_map (cl_sched empty_start) ?j (str ''reduce.wasm'') = Some []"
    unfolding dir_map_def d by (simp_all add: two_files_def plan_file_def str_def)
  have reads: "reads_dir two_fs (cl_sched ?c) ?j" using d by (simp add: reads_dir_def two_fs_def dir_map_def)
  have env: "merge_env (\<lambda>_ _. Ok (str ''{}'')) ?j empty_env" "\<not> ctx_done empty_env 0"
    by (simp_all add: merge_env_def empty_env_def example_env_def)
  have un: "reload_Unmarshal empty_reload [1] = Ok empty_plan" by (simp add: empty_reload_def)
  have disk: "Jobs (on_disk (job_dir (cl_sched ?c))) ?j = None" "job_dir (on_disk (job_dir (cl_sched ?c))) ?j = job_dir (cl_sched ?c) ?j"
    by (simp_all add: on_disk_def NewScheduler_def)
  have steps: "word_step\<^sup>*\<^sup>* empty_start ?c" using empty_run by (rule r_into_rtranclp)
  from empty_job_waits_for_restart [OF empty_reach empty_started p steps f reads un disk env refl, of 0] empty_run
  show ?thesis by (intro exI [of _ ?c]) simp
qed

end
